(* ===== verification/Prelude.thy ===== *)
theory Prelude
  imports Main "HOL-Library.Word"
begin

text \<open>
  Shared vocabulary of the development. \<open>Result\<close> values of the Rust source are sums with the
  error on the left, \<open>std::task::Poll\<close> is a datatype of its own, bytes are 8-bit words and
  Rust strings are the list of their UTF-8 bytes, kept as \<open>string\<close>. The lemma collections
  named here are filled by the component theories.
\<close>

section \<open>Results, polls, bytes\<close>

named_theorems chan_simps "equations of the reference channels and one-shots"
named_theorems op_defs "definitions of the operations of the socket loop and of the handles"

type_synonym ('a, 'e) result = "'e + 'a"
type_synonym byte = "8 word"
type_synonym bytes = "byte list"
type_synonym duration = nat

abbreviation Ok :: "'a \<Rightarrow> ('a, 'e) result" where
  "Ok \<equiv> Inr"

abbreviation Err :: "'e \<Rightarrow> ('a, 'e) result" where
  "Err \<equiv> Inl"

text \<open>\<open>Result::map_err\<close>, \<open>Result::and_then\<close> (also the \<open>?\<close> operator) and \<open>Result::is_err\<close>.\<close>

fun map_err :: "('e \<Rightarrow> 'f) \<Rightarrow> ('a, 'e) result \<Rightarrow> ('a, 'f) result" where
  "map_err f (Inl e) = Inl (f e)"
| "map_err f (Inr x) = Inr x"

fun and_then :: "('a, 'e) result \<Rightarrow> ('a \<Rightarrow> ('b, 'e) result) \<Rightarrow> ('b, 'e) result" where
  "and_then (Inl e) f = Inl e"
| "and_then (Inr x) f = f x"

fun is_err :: "('a, 'e) result \<Rightarrow> bool" where
  "is_err (Inl e) = True"
| "is_err (Inr x) = False"

lemma is_err_map_err [simp]: "is_err (map_err f r) = is_err r"
  by (cases r) auto

lemma not_is_err_unit: "\<not> is_err (r :: (unit, 'e) result) \<longleftrightarrow> r = Inr ()"
  by (cases r) auto

lemma map_err_eq_Inr [simp]: "map_err f r = Inr x \<longleftrightarrow> r = Inr x"
  by (cases r) auto

lemma Inr_eq_map_err [simp]: "Inr x = map_err f r \<longleftrightarrow> r = Inr x"
  by (cases r) auto

lemma map_err_eq_Inl: "map_err f r = Inl e \<longleftrightarrow> (\<exists>e'. r = Inl e' \<and> e = f e')"
  by (cases r) auto

text \<open>\<open>std::task::Poll\<close>: a future or stream that is polled is either not done or gives its value.\<close>

datatype 'a poll = Pending | Ready 'a

lemma map_poll_eq_Pending [simp]: "map_poll f p = Pending \<longleftrightarrow> p = Pending"
  by (cases p) auto

lemma map_poll_eq_Ready: "map_poll f p = Ready y \<longleftrightarrow> (\<exists>x. p = Ready x \<and> y = f x)"
  by (cases p) auto

section \<open>Lists\<close>

text \<open>Interleavings grow at the end as well as at the front.\<close>

lemma shuffles_snoc_left: "zs \<in> shuffles xs ys \<Longrightarrow> zs @ [x] \<in> shuffles (xs @ [x]) ys"
proof (induction xs ys arbitrary: zs rule: shuffles.induct)
  case (1 ys)
  then show ?case
    by (induction ys arbitrary: zs) (auto simp: Cons_in_shuffles_iff)
next
  case (2 xs)
  then show ?case by simp
next
  case (3 a xs b ys)
  then show ?case by (auto simp: Cons_in_shuffles_iff)
qed

lemma shuffles_snoc_right: "zs \<in> shuffles xs ys \<Longrightarrow> zs @ [y] \<in> shuffles xs (ys @ [y])"
  using shuffles_snoc_left [of zs ys xs y] by (simp add: shuffles_commutes)

end
