(* ===== verification/Channels.thy ===== *)
theory Channels
  imports Prelude
begin

text \<open>
  The interface to \<open>tokio::sync\<close>: bounded \<open>mpsc\<close> channels and \<open>oneshot\<close> channels. Both are code
  of another crate, so they are parameters of the model: records of the operations the source
  calls, on a state of any type. What \<open>tokio\<close> documents of them is stated in the locales \<open>mpsc\<close>,
  \<open>mpsc_solo\<close> and \<open>oneshot\<close>, each through a view of the state as plain lists and flags. The
  reference channels at the end are that documented behaviour, as an implementation whose view is
  the identity.

  A \<open>poll\<close> result stands for an asynchronous call: \<open>Pending\<close> when the caller has to wait, and then
  nothing has changed. Dropping the receiver of an \<open>mpsc\<close> channel drops the values still queued,
  which the operation hands back so that the caller can account for what they own.
\<close>

section \<open>Operations\<close>

datatype 'a try_send_error = TrySendFull 'a | TrySendClosed 'a

record ('c, 'a) mpsc_ops =
  ch_new :: "nat \<Rightarrow> 'c option"
  ch_send :: "'c \<Rightarrow> 'a \<Rightarrow> ('c \<times> (unit, 'a) result) poll"
  ch_try_send :: "'c \<Rightarrow> 'a \<Rightarrow> 'c \<times> (unit, 'a try_send_error) result"
  ch_reserve :: "'c \<Rightarrow> ('c \<times> (unit, unit) result) poll"
  ch_permit_send :: "'c \<Rightarrow> 'a \<Rightarrow> 'c"
  ch_recv :: "'c \<Rightarrow> ('c \<times> 'a option) poll"
  ch_clone_tx :: "'c \<Rightarrow> 'c"
  ch_drop_tx :: "'c \<Rightarrow> 'c"
  ch_drop_rx :: "'c \<Rightarrow> 'c \<times> 'a list"

record ('o, 'r) oneshot_ops =
  os_new :: 'o
  os_send :: "'o \<Rightarrow> 'r \<Rightarrow> 'o \<times> (unit, 'r) result"
  os_drop_tx :: "'o \<Rightarrow> 'o"
  os_drop_rx :: "'o \<Rightarrow> 'o"
  os_recv :: "'o \<Rightarrow> ('o \<times> 'r option) poll"

section \<open>Documented behaviour\<close>

text \<open>
  A channel seen from outside: what is queued, the capacity, the permits handed out and not yet
  used, the live senders, and whether the receiver is alive.
\<close>

record 'a chan =
  buf :: "'a list"
  cap :: nat
  reserved :: nat
  senders :: nat
  rx_alive :: bool

definition has_room :: "'a chan \<Rightarrow> bool" where
  "has_room c \<longleftrightarrow> reserved c + length (buf c) < cap c"

definition chan_new :: "nat \<Rightarrow> 'a chan option" where
  "chan_new n =
     (if n = 0 then None
      else Some \<lparr>buf = [], cap = n, reserved = 0, senders = 1, rx_alive = True\<rparr>)"

definition chan_send :: "'a chan \<Rightarrow> 'a \<Rightarrow> ('a chan \<times> (unit, 'a) result) poll" where
  "chan_send c x =
     (if \<not> rx_alive c then Ready (c, Err x)
      else if has_room c then Ready (c\<lparr>buf := buf c @ [x]\<rparr>, Ok ())
      else Pending)"

definition chan_try_send :: "'a chan \<Rightarrow> 'a \<Rightarrow> 'a chan \<times> (unit, 'a try_send_error) result" where
  "chan_try_send c x =
     (if \<not> rx_alive c then (c, Err (TrySendClosed x))
      else if has_room c then (c\<lparr>buf := buf c @ [x]\<rparr>, Ok ())
      else (c, Err (TrySendFull x)))"

definition chan_reserve :: "'a chan \<Rightarrow> ('a chan \<times> (unit, unit) result) poll" where
  "chan_reserve c =
     (if \<not> rx_alive c then Ready (c, Err ())
      else if has_room c then Ready (c\<lparr>reserved := Suc (reserved c)\<rparr>, Ok ())
      else Pending)"

definition chan_permit_send :: "'a chan \<Rightarrow> 'a \<Rightarrow> 'a chan" where
  "chan_permit_send c x = c\<lparr>reserved := reserved c - 1, buf := buf c @ [x]\<rparr>"

definition chan_recv :: "'a chan \<Rightarrow> ('a chan \<times> 'a option) poll" where
  "chan_recv c =
     (case buf c of
        x # xs \<Rightarrow> Ready (c\<lparr>buf := xs\<rparr>, Some x)
      | [] \<Rightarrow> if senders c = 0 then Ready (c, None) else Pending)"

definition chan_clone_tx :: "'a chan \<Rightarrow> 'a chan" where
  "chan_clone_tx c = c\<lparr>senders := Suc (senders c)\<rparr>"

definition chan_drop_tx :: "'a chan \<Rightarrow> 'a chan" where
  "chan_drop_tx c = c\<lparr>senders := senders c - 1\<rparr>"

definition chan_drop_rx :: "'a chan \<Rightarrow> 'a chan \<times> 'a list" where
  "chan_drop_rx c = (c\<lparr>buf := [], rx_alive := False\<rparr>, buf c)"

text \<open>A one-shot: the value that was sent and not yet received, and which ends are alive.\<close>

record 'r slot =
  answer :: "'r option"
  slot_tx :: bool
  slot_rx :: bool

definition slot_new :: "'r slot" where
  "slot_new = \<lparr>answer = None, slot_tx = True, slot_rx = True\<rparr>"

definition slot_send :: "'r slot \<Rightarrow> 'r \<Rightarrow> 'r slot \<times> (unit, 'r) result" where
  "slot_send s r =
     (if slot_rx s then (s\<lparr>answer := Some r, slot_tx := False\<rparr>, Ok ())
      else (s\<lparr>slot_tx := False\<rparr>, Err r))"

definition slot_drop_tx :: "'r slot \<Rightarrow> 'r slot" where
  "slot_drop_tx s = s\<lparr>slot_tx := False\<rparr>"

definition slot_drop_rx :: "'r slot \<Rightarrow> 'r slot" where
  "slot_drop_rx s = s\<lparr>slot_rx := False\<rparr>"

definition slot_recv :: "'r slot \<Rightarrow> ('r slot \<times> 'r option) poll" where
  "slot_recv s =
     (case answer s of
        Some r \<Rightarrow> Ready (s\<lparr>answer := None, slot_rx := False\<rparr>, Some r)
      | None \<Rightarrow> if slot_tx s then Pending else Ready (s\<lparr>slot_rx := False\<rparr>, None))"

section \<open>The interfaces\<close>

text \<open>
  An operation agrees with the documented one when the view commutes with it. A pending
  \<open>Sender::send\<close> is left open: with several senders \<open>tokio\<close> queues them fairly, so a send may
  wait although there is room; only what a completed send did is fixed.
\<close>

locale mpsc =
  fixes M :: "('c, 'a) mpsc_ops" and view :: "'c \<Rightarrow> 'a chan"
  assumes view_new: "map_option view (ch_new M n) = chan_new n"
    and view_send: "ch_send M c x = Ready (c', r) \<Longrightarrow> chan_send (view c) x = Ready (view c', r)"
    and view_recv: "map_poll (map_prod view id) (ch_recv M c) = chan_recv (view c)"
    and view_clone_tx: "view (ch_clone_tx M c) = chan_clone_tx (view c)"
    and view_drop_tx: "view (ch_drop_tx M c) = chan_drop_tx (view c)"
    and view_drop_rx: "map_prod view id (ch_drop_rx M c) = chan_drop_rx (view c)"
begin

lemma recv_Ready: "ch_recv M c = Ready (c', x) \<Longrightarrow> chan_recv (view c) = Ready (view c', x)"
  using view_recv [of c] by simp

lemma recv_Pending: "ch_recv M c = Pending \<longleftrightarrow> chan_recv (view c) = Pending"
  using view_recv [of c] by (metis map_poll_eq_Pending)

lemma recv_ended:
  assumes "buf (view c) = []" and "senders (view c) = 0"
  shows "\<exists>c'. ch_recv M c = Ready (c', None) \<and> view c' = view c"
  using view_recv [of c] assms by (auto simp: chan_recv_def map_poll_eq_Ready)

lemma drop_rx: "ch_drop_rx M c = (c', xs) \<Longrightarrow> chan_drop_rx (view c) = (view c', xs)"
  using view_drop_rx [of c] by simp

end

text \<open>
  The channel that the loop fills has one sender, so its non-blocking operations are exact: there
  is nobody else a free slot could be promised to.
\<close>

locale mpsc_solo = mpsc +
  assumes view_try_send: "map_prod view id (ch_try_send M c x) = chan_try_send (view c) x"
    and view_reserve: "map_poll (map_prod view id) (ch_reserve M c) = chan_reserve (view c)"
    and view_permit_send: "view (ch_permit_send M c x) = chan_permit_send (view c) x"
begin

lemma try_send_eq: "ch_try_send M c x = (c', r) \<Longrightarrow> chan_try_send (view c) x = (view c', r)"
  using view_try_send [of c x] by simp

lemma reserve_Ready: "ch_reserve M c = Ready (c', r) \<Longrightarrow> chan_reserve (view c) = Ready (view c', r)"
  using view_reserve [of c] by simp

lemma reserve_Pending: "ch_reserve M c = Pending \<longleftrightarrow> chan_reserve (view c) = Pending"
  using view_reserve [of c] by (metis map_poll_eq_Pending)

end

locale oneshot =
  fixes Q :: "('o, 'r) oneshot_ops" and sview :: "'o \<Rightarrow> 'r slot"
  assumes view_os_new: "sview (os_new Q) = slot_new"
    and view_os_send: "map_prod sview id (os_send Q s r) = slot_send (sview s) r"
    and view_os_drop_tx: "sview (os_drop_tx Q s) = slot_drop_tx (sview s)"
    and view_os_drop_rx: "sview (os_drop_rx Q s) = slot_drop_rx (sview s)"
    and view_os_recv: "map_poll (map_prod sview id) (os_recv Q s) = slot_recv (sview s)"
begin

lemma os_send_eq: "os_send Q s r = (s', q) \<Longrightarrow> slot_send (sview s) r = (sview s', q)"
  using view_os_send [of s r] by simp

lemma os_recv_Ready: "os_recv Q s = Ready (s', x) \<Longrightarrow> slot_recv (sview s) = Ready (sview s', x)"
  using view_os_recv [of s] by simp

lemma os_recv_Pending: "os_recv Q s = Pending \<longleftrightarrow> slot_recv (sview s) = Pending"
  using view_os_recv [of s] by (metis map_poll_eq_Pending)

end

section \<open>The reference channels\<close>

definition chan_ops :: "('a chan, 'a) mpsc_ops" where
  "chan_ops =
     \<lparr>ch_new = chan_new, ch_send = chan_send, ch_try_send = chan_try_send,
      ch_reserve = chan_reserve, ch_permit_send = chan_permit_send, ch_recv = chan_recv,
      ch_clone_tx = chan_clone_tx, ch_drop_tx = chan_drop_tx, ch_drop_rx = chan_drop_rx\<rparr>"

definition slot_ops :: "('r slot, 'r) oneshot_ops" where
  "slot_ops =
     \<lparr>os_new = slot_new, os_send = slot_send, os_drop_tx = slot_drop_tx,
      os_drop_rx = slot_drop_rx, os_recv = slot_recv\<rparr>"

lemma chan_ops_simps [simp]:
  "ch_new chan_ops = chan_new" "ch_send chan_ops = chan_send"
  "ch_try_send chan_ops = chan_try_send" "ch_reserve chan_ops = chan_reserve"
  "ch_permit_send chan_ops = chan_permit_send" "ch_recv chan_ops = chan_recv"
  "ch_clone_tx chan_ops = chan_clone_tx" "ch_drop_tx chan_ops = chan_drop_tx"
  "ch_drop_rx chan_ops = chan_drop_rx"
  by (simp_all add: chan_ops_def)

lemma slot_ops_simps [simp]:
  "os_new slot_ops = slot_new" "os_send slot_ops = slot_send"
  "os_drop_tx slot_ops = slot_drop_tx" "os_drop_rx slot_ops = slot_drop_rx"
  "os_recv slot_ops = slot_recv"
  by (simp_all add: slot_ops_def)

lemmas map_ident_simps = option.map_id prod.map_id0 poll.map_id

interpretation reference_chan: mpsc_solo chan_ops id
  by unfold_locales (simp_all add: map_ident_simps)

interpretation reference_slot: oneshot slot_ops id
  by unfold_locales (simp_all add: map_ident_simps)

lemmas [chan_simps] = has_room_def chan_send_def chan_try_send_def chan_reserve_def
  chan_permit_send_def chan_recv_def chan_clone_tx_def chan_drop_tx_def chan_drop_rx_def
  slot_new_def slot_send_def slot_drop_tx_def slot_drop_rx_def slot_recv_def

end
