(* ===== verification/Errors.thy ===== *)
theory Errors
  imports Prelude
begin

text \<open>
  WebSocket messages and the crate's error type (\<open>src/error.rs\<close>).

  \<open>Message\<close>, \<open>CloseFrame\<close> and \<open>CloseCode\<close> are types of the \<open>tungstenite\<close> crate that the source
  matches on; the datatypes below have the constructors the source names. Of the close codes the
  source names one. A \<open>Frame\<close> message is carried and never looked into. Errors of other crates
  are opaque: the model keeps the text that their \<open>Display\<close> prints, which is all that the
  source can observe of them.
\<close>

section \<open>Messages\<close>

datatype close_code = Normal | OtherCode "16 word"

record close_frame =
  code :: close_code
  reason :: string

datatype message =
    Text string
  | Binary bytes
  | Ping bytes
  | Pong bytes
  | Close "close_frame option"
  | Frame bytes

text \<open>The frames that carry user data; all others are protocol frames.\<close>

fun is_data :: "message \<Rightarrow> bool" where
  "is_data (Text _) = True"
| "is_data (Binary _) = True"
| "is_data _ = False"

section \<open>Errors\<close>

datatype ws_error = WsError string
datatype url_parse_error = UrlParseError string
datatype codec_error = CodecError string

datatype error =
    UrlParse string url_parse_error
  | WebsocketError ws_error
  | WebsocketClosed
  | UnexpectedMessageType message
  | Codec codec_error
  | SocketeerDroppedWithoutClosing

text \<open>
  The \<open>Display\<close> implementation that \<open>thiserror\<close> derives from the \<open>#[error(...)]\<close> attributes: a
  \<open>{0}\<close> prints the variant's first field, and the explicit argument \<open>0\<close> of the attribute on
  \<open>UrlParse\<close> is the literal zero. How a message prints is \<open>tungstenite\<close>'s, a parameter.
\<close>

fun display_ws_error :: "ws_error \<Rightarrow> string" where
  "display_ws_error (WsError d) = d"

fun display_codec_error :: "codec_error \<Rightarrow> string" where
  "display_codec_error (CodecError d) = d"

fun error_display :: "(message \<Rightarrow> string) \<Rightarrow> error \<Rightarrow> string" where
  "error_display msg (UrlParse url src) = ''Failed to parse URL: '' @ ''0''"
| "error_display msg (WebsocketError e) = ''Tungstenite error: '' @ display_ws_error e"
| "error_display msg WebsocketClosed = ''Socket Closed''"
| "error_display msg (UnexpectedMessageType m) = ''Unexpected Message type: '' @ msg m"
| "error_display msg (Codec e) = ''Codec error: '' @ display_codec_error e"
| "error_display msg SocketeerDroppedWithoutClosing = ''Socketeer dropped without closing''"

text \<open>\<open>#[from]\<close> on \<open>WebsocketError\<close>: \<open>Error::from\<close> of a \<open>tungstenite\<close> error.\<close>

definition error_from :: "ws_error \<Rightarrow> error" where
  "error_from e = WebsocketError e"

section \<open>Properties\<close>

text \<open>The variant of an error, without its fields.\<close>

datatype error_kind =
  KUrlParse | KWebsocketError | KWebsocketClosed | KUnexpectedMessageType | KCodec | KDropped

fun kind_of :: "error \<Rightarrow> error_kind" where
  "kind_of (UrlParse _ _) = KUrlParse"
| "kind_of (WebsocketError _) = KWebsocketError"
| "kind_of WebsocketClosed = KWebsocketClosed"
| "kind_of (UnexpectedMessageType _) = KUnexpectedMessageType"
| "kind_of (Codec _) = KCodec"
| "kind_of SocketeerDroppedWithoutClosing = KDropped"

lemma display_kind: "error_display msg e1 = error_display msg e2 \<Longrightarrow> kind_of e1 = kind_of e2"
  by (cases e1; cases e2) auto

end
