(* ===== verification/Transport.thy ===== *)
theory Transport
  imports Errors
begin

text \<open>
  The interface to the WebSocket connection (\<open>tokio-tungstenite\<close>, another crate): a record of the
  three operations the source performs on the two halves of a split \<open>WebSocketStream\<close>. Both
  halves share one connection, hence one state. Nothing is assumed about them: a send or close may
  fail with any error, and the stream may yield any item, end, or have nothing ready.

  \<open>logged\<close> wraps any transport so that its state also records, in order, every operation that
  completed and how. The development's statements about the wire are about this record. That the
  wrapped transport keeps the record is the locale \<open>recorded\<close>, which holds of every transport.
\<close>

section \<open>Operations\<close>

type_synonym ws_item = "(message, ws_error) result option"

record 'w transport =
  ws_send :: "'w \<Rightarrow> message \<Rightarrow> 'w \<times> (unit, ws_error) result"
  ws_close :: "'w \<Rightarrow> 'w \<times> (unit, ws_error) result"
  ws_next :: "'w \<Rightarrow> ('w \<times> ws_item) poll"

section \<open>The record of the wire\<close>

datatype wire_event =
    Sent message "(unit, ws_error) result"
  | SinkClosed "(unit, ws_error) result"
  | Received ws_item

definition logged :: "'w transport \<Rightarrow> ('w \<times> wire_event list) transport" where
  "logged T =
     \<lparr>ws_send = (\<lambda>(w, l) m. let (w', r) = ws_send T w m in ((w', l @ [Sent m r]), r)),
      ws_close = (\<lambda>(w, l). let (w', r) = ws_close T w in ((w', l @ [SinkClosed r]), r)),
      ws_next = (\<lambda>(w, l). map_poll (\<lambda>(w', x). ((w', l @ [Received x]), x)) (ws_next T w))\<rparr>"

text \<open>What was offered to the sink, what the sink accepted, and what was read off the stream.\<close>

fun offered_of :: "wire_event \<Rightarrow> message list" where
  "offered_of (Sent m r) = [m]"
| "offered_of _ = []"

fun accepted_of :: "wire_event \<Rightarrow> message list" where
  "accepted_of (Sent m (Inr ())) = [m]"
| "accepted_of _ = []"

fun data_of :: "wire_event \<Rightarrow> message list" where
  "data_of (Received (Some (Inr m))) = (if is_data m then [m] else [])"
| "data_of _ = []"

fun items_of :: "wire_event \<Rightarrow> ws_item list" where
  "items_of (Received x) = [x]"
| "items_of _ = []"

definition offered :: "wire_event list \<Rightarrow> message list" where
  "offered l = concat (map offered_of l)"

fun sends_of :: "wire_event \<Rightarrow> (message \<times> (unit, ws_error) result) list" where
  "sends_of (Sent m r) = [(m, r)]"
| "sends_of _ = []"

definition sends :: "wire_event list \<Rightarrow> (message \<times> (unit, ws_error) result) list" where
  "sends l = concat (map sends_of l)"

definition accepted :: "wire_event list \<Rightarrow> message list" where
  "accepted l = concat (map accepted_of l)"

definition data_frames :: "wire_event list \<Rightarrow> message list" where
  "data_frames l = concat (map data_of l)"

definition items :: "wire_event list \<Rightarrow> ws_item list" where
  "items l = concat (map items_of l)"

lemma log_appends [simp]:
  "offered [] = []" "offered (l @ l') = offered l @ offered l'" "offered (e # l) = offered_of e @ offered l"
  "accepted [] = []" "accepted (l @ l') = accepted l @ accepted l'"
  "accepted (e # l) = accepted_of e @ accepted l"
  "data_frames [] = []" "data_frames (l @ l') = data_frames l @ data_frames l'"
  "data_frames (e # l) = data_of e @ data_frames l"
  "sends [] = []" "sends (l @ l') = sends l @ sends l'" "sends (e # l) = sends_of e @ sends l"
  "items [] = []" "items (l @ l') = items l @ items l'" "items (e # l) = items_of e @ items l"
  by (simp_all add: offered_def accepted_def data_frames_def items_def sends_def)

text \<open>
  A transport with a record: \<open>log w\<close> grows by exactly one event per completed operation.
\<close>

locale recorded =
  fixes T :: "'w transport" and wlog :: "'w \<Rightarrow> wire_event list"
  assumes log_send: "ws_send T w m = (w', r) \<Longrightarrow> wlog w' = wlog w @ [Sent m r]"
    and log_close: "ws_close T w = (w', q) \<Longrightarrow> wlog w' = wlog w @ [SinkClosed q]"
    and log_next: "ws_next T w = Ready (w', x) \<Longrightarrow> wlog w' = wlog w @ [Received x]"

interpretation logged: recorded "logged T" snd for T
  by unfold_locales
    (auto simp: logged_def split_beta map_poll_eq_Ready)

section \<open>A scripted transport\<close>

text \<open>
  A concrete transport for examples: the items still to come (none left: nothing ready), and the
  outcomes of the coming sends and closes (none left: success).
\<close>

record script =
  inbox :: "ws_item list"
  outcomes :: "(unit, ws_error) result list"

definition next_outcome :: "script \<Rightarrow> script \<times> (unit, ws_error) result" where
  "next_outcome w =
     (case outcomes w of [] \<Rightarrow> (w, Ok ()) | r # rs \<Rightarrow> (w\<lparr>outcomes := rs\<rparr>, r))"

definition scripted :: "script transport" where
  "scripted =
     \<lparr>ws_send = (\<lambda>w m. next_outcome w),
      ws_close = next_outcome,
      ws_next = (\<lambda>w. case inbox w of [] \<Rightarrow> Pending | x # xs \<Rightarrow> Ready (w\<lparr>inbox := xs\<rparr>, x))\<rparr>"

text \<open>
  A transport with a finite backlog: reading an item off the stream uses it up and sending does not
  add to it, so a loop that only reads and answers comes to a point where it has to wait or ends.
\<close>

locale finite_backlog =
  fixes T :: "'w transport" and backlog :: "'w \<Rightarrow> nat"
  assumes backlog_next: "ws_next T w = Ready (w', x) \<Longrightarrow> backlog w' < backlog w"
    and backlog_send: "ws_send T w m = (w', r) \<Longrightarrow> backlog w' \<le> backlog w"
    and backlog_close: "ws_close T w = (w', r) \<Longrightarrow> backlog w' \<le> backlog w"

interpretation scripted: finite_backlog scripted "\<lambda>w. length (inbox w)"
  by unfold_locales
    (auto simp: scripted_def next_outcome_def split: list.splits)

context finite_backlog
begin

lemma finite_backlog_logged: "finite_backlog (logged T) (\<lambda>w. backlog (fst w))"
  by unfold_locales
    (auto simp: logged_def split_beta map_poll_eq_Ready
      intro: backlog_next backlog_send [OF surjective_pairing] backlog_close [OF surjective_pairing])

end

end
