(* ===== verification/Socket_Loop.thy ===== *)
theory Socket_Loop
  imports Channels Transport
begin

text \<open>
  The background task and the functions it shares with the handles (\<open>src/socket_loop.rs\<close>).

  One connection is a \<open>conn\<close>: the two \<open>mpsc\<close> channels, the one-shots of the confirmed sends (one
  per call, numbered by the caller), the WebSocket, and the terminal-error slot. The functions take
  a \<open>runtime\<close>, the operations of \<open>tokio\<close> and of the transport, as their first argument.

  An \<open>async\<close> function is modelled by its polls: each definition is the code between two points
  where it can wait, and \<open>Pending\<close> says that it waits. A \<open>select!\<close> is a choice between its arms:
  \<open>select_arm\<close> and \<open>backpressure_arm\<close> take the arm that wins as an argument and answer \<open>None\<close> when
  that arm is not ready or does not exist. The arm that wins only takes what it waited for; its
  handler, which waits for the socket once, is a job of its own (\<open>Busy\<close>), and \<open>handler_step\<close> is that
  operation of the socket with the code up to the next \<open>select!\<close>. In between anything else may
  happen, and while the job is pending no arm can win.
\<close>

section \<open>State\<close>

type_synonym reply = "(unit, error) result"

record payload =
  payload_message :: message
  response_tx :: "nat option"

datatype loop_state = Running | Error error | Closed

datatype incoming = State loop_state | Data message

record ('t, 'r, 'o, 'w) runtime =
  tx_ops :: "('t, payload) mpsc_ops"
  rx_ops :: "('r, message) mpsc_ops"
  os_ops :: "('o, reply) oneshot_ops"
  ws_ops :: "'w transport"
  sleep_elapsed :: "nat \<Rightarrow> duration \<Rightarrow> nat \<Rightarrow> bool"

record ('t, 'r, 'o, 'w) conn =
  tx_chan :: 't
  rx_chan :: 'r
  slots :: "nat \<Rightarrow> 'o"
  ws :: 'w
  terminal_error :: "error option"

text \<open>The two parameters of the loop that come from the options.\<close>

record loop_config =
  cfg_interval :: "duration option"
  cfg_message :: "message option"

section \<open>The terminal error\<close>

definition take_terminal_error_opt ::
  "('t, 'r, 'o, 'w) conn \<Rightarrow> ('t, 'r, 'o, 'w) conn \<times> error option" where
  "take_terminal_error_opt c = (c\<lparr>terminal_error := None\<rparr>, terminal_error c)"

definition take_terminal_error ::
  "('t, 'r, 'o, 'w) conn \<Rightarrow> ('t, 'r, 'o, 'w) conn \<times> error" where
  "take_terminal_error c =
     (let (c', e) = take_terminal_error_opt c
      in (c', case e of Some err \<Rightarrow> err | None \<Rightarrow> WebsocketClosed))"

section \<open>Sending and receiving on the handle's side\<close>

text \<open>
  \<open>send_confirmed\<close> waits twice. First it creates the one-shot \<open>i\<close> and queues the frame; it is done
  if the queue is closed (\<open>Some\<close> of the error), otherwise it goes on to wait for the answer.
\<close>

definition send_confirmed ::
  "('t, 'r, 'o, 'w) runtime \<Rightarrow> nat \<Rightarrow> message \<Rightarrow> ('t, 'r, 'o, 'w) conn
    \<Rightarrow> (('t, 'r, 'o, 'w) conn \<times> reply option) poll" where
  "send_confirmed R i msg c =
     (let c0 = c\<lparr>slots := (slots c)(i := os_new (os_ops R))\<rparr>
      in case ch_send (tx_ops R) (tx_chan c0) \<lparr>payload_message = msg, response_tx = Some i\<rparr> of
           Pending \<Rightarrow> Pending
         | Ready (t, Inr u) \<Rightarrow> Ready (c0\<lparr>tx_chan := t\<rparr>, None)
         | Ready (t, Inl p) \<Rightarrow>
             (let (c1, e) = take_terminal_error (c0\<lparr>tx_chan := t\<rparr>) in Ready (c1, Some (Err e))))"

text \<open>
  The second wait, shared with \<open>send_close\<close>: a one-shot dropped without an answer reaches the
  \<open>unreachable!\<close> arm, a panic.
\<close>

datatype call_outcome = Returned reply | Panicked

definition await_response ::
  "('t, 'r, 'o, 'w) runtime \<Rightarrow> nat \<Rightarrow> ('t, 'r, 'o, 'w) conn
    \<Rightarrow> (('t, 'r, 'o, 'w) conn \<times> call_outcome) poll" where
  "await_response R i c =
     (case os_recv (os_ops R) (slots c i) of
        Pending \<Rightarrow> Pending
      | Ready (s, x) \<Rightarrow>
          Ready (c\<lparr>slots := (slots c)(i := s)\<rparr>,
                 case x of Some res \<Rightarrow> Returned res | None \<Rightarrow> Panicked))"

definition send_unconfirmed ::
  "('t, 'r, 'o, 'w) runtime \<Rightarrow> message \<Rightarrow> ('t, 'r, 'o, 'w) conn
    \<Rightarrow> (('t, 'r, 'o, 'w) conn \<times> reply) poll" where
  "send_unconfirmed R msg c =
     (case ch_send (tx_ops R) (tx_chan c) \<lparr>payload_message = msg, response_tx = None\<rparr> of
        Pending \<Rightarrow> Pending
      | Ready (t, Inr u) \<Rightarrow> Ready (c\<lparr>tx_chan := t\<rparr>, Ok ())
      | Ready (t, Inl p) \<Rightarrow>
          (let (c1, e) = take_terminal_error (c\<lparr>tx_chan := t\<rparr>) in Ready (c1, Err e)))"

definition close_message :: message where
  "close_message = Close (Some \<lparr>code = Normal, reason = ''Closing Connection''\<rparr>)"

definition send_close ::
  "('t, 'r, 'o, 'w) runtime \<Rightarrow> nat \<Rightarrow> ('t, 'r, 'o, 'w) conn
    \<Rightarrow> (('t, 'r, 'o, 'w) conn \<times> reply option) poll" where
  "send_close R i c =
     (let c0 = c\<lparr>slots := (slots c)(i := os_new (os_ops R))\<rparr>
      in case ch_send (tx_ops R) (tx_chan c0)
                \<lparr>payload_message = close_message, response_tx = Some i\<rparr> of
           Pending \<Rightarrow> Pending
         | Ready (t, Inr u) \<Rightarrow> Ready (c0\<lparr>tx_chan := t\<rparr>, None)
         | Ready (t, Inl p) \<Rightarrow> Ready (c0\<lparr>tx_chan := t\<rparr>, Some (Err WebsocketClosed)))"

definition recv_raw ::
  "('t, 'r, 'o, 'w) runtime \<Rightarrow> ('t, 'r, 'o, 'w) conn
    \<Rightarrow> (('t, 'r, 'o, 'w) conn \<times> (message, error) result) poll" where
  "recv_raw R c =
     (case ch_recv (rx_ops R) (rx_chan c) of
        Pending \<Rightarrow> Pending
      | Ready (r, Some msg) \<Rightarrow> Ready (c\<lparr>rx_chan := r\<rparr>, Ok msg)
      | Ready (r, None) \<Rightarrow>
          (let (c1, e) = take_terminal_error (c\<lparr>rx_chan := r\<rparr>) in Ready (c1, Err e)))"

definition poll_recv_raw ::
  "('t, 'r, 'o, 'w) runtime \<Rightarrow> ('t, 'r, 'o, 'w) conn
    \<Rightarrow> (('t, 'r, 'o, 'w) conn \<times> (message, error) result option) poll" where
  "poll_recv_raw R c =
     (case ch_recv (rx_ops R) (rx_chan c) of
        Pending \<Rightarrow> Pending
      | Ready (r, Some msg) \<Rightarrow> Ready (c\<lparr>rx_chan := r\<rparr>, Some (Ok msg))
      | Ready (r, None) \<Rightarrow>
          (let (c1, e) = take_terminal_error_opt (c\<lparr>rx_chan := r\<rparr>)
           in case e of
                Some err \<Rightarrow> Ready (c1, Some (Err err))
              | None \<Rightarrow> Ready (c1, None)))"

section \<open>The handlers of the loop\<close>

definition respond ::
  "('t, 'r, 'o, 'w) runtime \<Rightarrow> nat \<Rightarrow> reply \<Rightarrow> ('t, 'r, 'o, 'w) conn
    \<Rightarrow> ('t, 'r, 'o, 'w) conn \<times> (unit, reply) result" where
  "respond R i res c =
     (let (s, r) = os_send (os_ops R) (slots c i) res
      in (c\<lparr>slots := (slots c)(i := s)\<rparr>, r))"

definition send_socket_message ::
  "('t, 'r, 'o, 'w) runtime \<Rightarrow> payload option \<Rightarrow> ('t, 'r, 'o, 'w) conn
    \<Rightarrow> ('t, 'r, 'o, 'w) conn \<times> loop_state" where
  "send_socket_message R pm c =
     (case pm of
        Some p \<Rightarrow>
          (let (w, res) = ws_send (ws_ops R) (ws c) (payload_message p);
               send_result = map_err error_from res;
               socket_error = is_err send_result;
               (c1, dropped) =
                 (case response_tx p of
                    Some i \<Rightarrow> (let (c1, r) = respond R i send_result (c\<lparr>ws := w\<rparr>) in (c1, is_err r))
                  | None \<Rightarrow> (c\<lparr>ws := w\<rparr>, False))
           in if dropped then (c1, Error SocketeerDroppedWithoutClosing)
              else if socket_error then (c1, Error WebsocketClosed)
              else (c1, Running))
      | None \<Rightarrow> (c, Error SocketeerDroppedWithoutClosing))"

definition pong_bytes :: bytes where
  "pong_bytes = [112, 111, 110, 103]"

definition handle_incoming ::
  "('t, 'r, 'o, 'w) runtime \<Rightarrow> ws_item \<Rightarrow> ('t, 'r, 'o, 'w) conn
    \<Rightarrow> ('t, 'r, 'o, 'w) conn \<times> incoming" where
  "handle_incoming R item c =
     (case item of
        Some (Inr msg) \<Rightarrow>
          (case msg of
             Ping _ \<Rightarrow>
               (let (w, res) = ws_send (ws_ops R) (ws c) (Pong pong_bytes)
                in (c\<lparr>ws := w\<rparr>,
                    State (case map_err error_from res of
                             Inr u \<Rightarrow> Running
                           | Inl e \<Rightarrow> Error e)))
           | Close _ \<Rightarrow>
               (let (w, res) = ws_close (ws_ops R) (ws c)
                in (c\<lparr>ws := w\<rparr>,
                    State (case res of Inr u \<Rightarrow> Closed | Inl e \<Rightarrow> Error (error_from e))))
           | Text _ \<Rightarrow> (c, Data msg)
           | Binary _ \<Rightarrow> (c, Data msg)
           | _ \<Rightarrow> (c, State Running))
      | Some (Inl e) \<Rightarrow> (c, State (Error (WebsocketError e)))
      | None \<Rightarrow> (c, State (Error WebsocketClosed)))"

definition send_keepalive ::
  "('t, 'r, 'o, 'w) runtime \<Rightarrow> message option \<Rightarrow> ('t, 'r, 'o, 'w) conn
    \<Rightarrow> ('t, 'r, 'o, 'w) conn \<times> loop_state" where
  "send_keepalive R custom_message c =
     (let message = (case custom_message of Some custom \<Rightarrow> custom | None \<Rightarrow> Ping []);
          (w, res) = ws_send (ws_ops R) (ws c) message
      in (c\<lparr>ws := w\<rparr>,
          case map_err error_from res of Inr u \<Rightarrow> Running | Inl e \<Rightarrow> Error e))"

section \<open>The loop\<close>

text \<open>
  Where the task is: at the main \<open>select!\<close>, in the backpressure loop holding one frame, in the
  handler of an arm that won, past the main loop, past the write of the terminal error, past the drop
  of its end of the receive channel, and done with both ends dropped. From the exit on, the loop state
  it left with is kept along; a task that would reach the \<open>unreachable!\<close> of the last \<open>match\<close> is
  \<open>Crashed\<close>. The jobs of the two arms that both loops have keep the frame held, if any.
\<close>

datatype job =
    SendJob "payload option" "message option"
  | ReadJob ws_item
  | TimerJob "message option"

datatype task =
    AtSelect
  | Holding message
  | Busy job
  | Exited loop_state
  | Recorded loop_state
  | SenderDropped loop_state
  | Finished loop_state
  | Crashed

datatype arm = RecvArm | NextArm | SleepArm | ReserveArm

fun after_state :: "loop_state \<Rightarrow> task" where
  "after_state Running = AtSelect"
| "after_state st = Exited st"

text \<open>
  \<open>deliver_with_backpressure\<close> up to its loop: the state to return at once, or the frame to hold.
\<close>

definition deliver_fast ::
  "('t, 'r, 'o, 'w) runtime \<Rightarrow> message \<Rightarrow> ('t, 'r, 'o, 'w) conn
    \<Rightarrow> ('t, 'r, 'o, 'w) conn \<times> (message + loop_state)" where
  "deliver_fast R frame c =
     (let (r, res) = ch_try_send (rx_ops R) (rx_chan c) frame
      in (c\<lparr>rx_chan := r\<rparr>,
          case res of
            Inr u \<Rightarrow> Inr Running
          | Inl (TrySendClosed m) \<Rightarrow> Inr (Error SocketeerDroppedWithoutClosing)
          | Inl (TrySendFull m) \<Rightarrow> Inl m))"

text \<open>Where the loop goes after a round: back to the \<open>select!\<close> it came from, or out.\<close>

fun continue_holding :: "message \<Rightarrow> loop_state \<Rightarrow> task" where
  "continue_holding frame Running = Holding frame"
| "continue_holding frame other = Exited other"

fun resume :: "message option \<Rightarrow> loop_state \<Rightarrow> task" where
  "resume None st = after_state st"
| "resume (Some frame) st = continue_holding frame st"

text \<open>The \<open>select!\<close> of its loop.\<close>

definition backpressure_arm ::
  "('t, 'r, 'o, 'w) runtime \<Rightarrow> loop_config \<Rightarrow> nat \<Rightarrow> nat \<Rightarrow> arm \<Rightarrow> message
    \<Rightarrow> ('t, 'r, 'o, 'w) conn \<Rightarrow> (('t, 'r, 'o, 'w) conn \<times> task) option" where
  "backpressure_arm R cfg started now a frame c =
     (case a of
        ReserveArm \<Rightarrow>
          (case ch_reserve (rx_ops R) (rx_chan c) of
             Pending \<Rightarrow> None
           | Ready (r, Inr u) \<Rightarrow>
               Some (c\<lparr>rx_chan := ch_permit_send (rx_ops R) r frame\<rparr>, after_state Running)
           | Ready (r, Inl u) \<Rightarrow>
               Some (c\<lparr>rx_chan := r\<rparr>, after_state (Error SocketeerDroppedWithoutClosing)))
      | RecvArm \<Rightarrow>
          (case ch_recv (tx_ops R) (tx_chan c) of
             Pending \<Rightarrow> None
           | Ready (t, outgoing) \<Rightarrow> Some (c\<lparr>tx_chan := t\<rparr>, Busy (SendJob outgoing (Some frame))))
      | SleepArm \<Rightarrow>
          (case cfg_interval cfg of
             None \<Rightarrow> None
           | Some interval \<Rightarrow>
               if sleep_elapsed R started interval now
               then Some (c, Busy (TimerJob (Some frame)))
               else None)
      | NextArm \<Rightarrow> None)"

text \<open>The \<open>select!\<close> of the main loop.\<close>

definition select_arm ::
  "('t, 'r, 'o, 'w) runtime \<Rightarrow> loop_config \<Rightarrow> nat \<Rightarrow> nat \<Rightarrow> arm
    \<Rightarrow> ('t, 'r, 'o, 'w) conn \<Rightarrow> (('t, 'r, 'o, 'w) conn \<times> task) option" where
  "select_arm R cfg started now a c =
     (case a of
        RecvArm \<Rightarrow>
          (case ch_recv (tx_ops R) (tx_chan c) of
             Pending \<Rightarrow> None
           | Ready (t, outgoing) \<Rightarrow> Some (c\<lparr>tx_chan := t\<rparr>, Busy (SendJob outgoing None)))
      | NextArm \<Rightarrow>
          (case ws_next (ws_ops R) (ws c) of
             Pending \<Rightarrow> None
           | Ready (w, item) \<Rightarrow> Some (c\<lparr>ws := w\<rparr>, Busy (ReadJob item)))
      | SleepArm \<Rightarrow>
          (case cfg_interval cfg of
             None \<Rightarrow> None
           | Some interval \<Rightarrow>
               if sleep_elapsed R started interval now
               then Some (c, Busy (TimerJob None))
               else None)
      | ReserveArm \<Rightarrow> None)"

definition loop_step ::
  "('t, 'r, 'o, 'w) runtime \<Rightarrow> loop_config \<Rightarrow> nat \<Rightarrow> nat \<Rightarrow> arm \<Rightarrow> task
    \<Rightarrow> ('t, 'r, 'o, 'w) conn \<Rightarrow> (('t, 'r, 'o, 'w) conn \<times> task) option" where
  "loop_step R cfg started now a k c =
     (case k of
        AtSelect \<Rightarrow> select_arm R cfg started now a c
      | Holding frame \<Rightarrow> backpressure_arm R cfg started now a frame c
      | _ \<Rightarrow> None)"

text \<open>The handler of the arm that won, once its operation of the socket is done.\<close>

definition handler_step ::
  "('t, 'r, 'o, 'w) runtime \<Rightarrow> loop_config \<Rightarrow> job \<Rightarrow> ('t, 'r, 'o, 'w) conn
    \<Rightarrow> ('t, 'r, 'o, 'w) conn \<times> task" where
  "handler_step R cfg j c =
     (case j of
        SendJob outgoing h \<Rightarrow>
          (let (c1, st) = send_socket_message R outgoing c in (c1, resume h st))
      | ReadJob item \<Rightarrow>
          (case handle_incoming R item c of
             (c1, State st) \<Rightarrow> (c1, after_state st)
           | (c1, Data frame) \<Rightarrow>
               (case deliver_fast R frame c1 of
                  (c2, Inr st) \<Rightarrow> (c2, after_state st)
                | (c2, Inl held) \<Rightarrow> (c2, Holding held)))
      | TimerJob h \<Rightarrow>
          (let (c1, st) = send_keepalive R (cfg_message cfg) c in (c1, resume h st)))"

definition work_step ::
  "('t, 'r, 'o, 'w) runtime \<Rightarrow> loop_config \<Rightarrow> task
    \<Rightarrow> ('t, 'r, 'o, 'w) conn \<Rightarrow> (('t, 'r, 'o, 'w) conn \<times> task) option" where
  "work_step R cfg k c = (case k of Busy j \<Rightarrow> Some (handler_step R cfg j c) | _ \<Rightarrow> None)"

section \<open>The exit\<close>

definition record_terminal ::
  "loop_state \<Rightarrow> ('t, 'r, 'o, 'w) conn \<Rightarrow> ('t, 'r, 'o, 'w) conn option" where
  "record_terminal st c =
     (case st of
        Error e \<Rightarrow> Some (c\<lparr>terminal_error := Some e\<rparr>)
      | Closed \<Rightarrow> Some c
      | Running \<Rightarrow> None)"

text \<open>
  When the function returns its parameters are dropped, the later ones first: the sender of the
  receive channel, then the receiver of the send channel with whatever is still queued there,
  which drops the one-shot senders those payloads own.
\<close>

definition drop_sender ::
  "('t, 'r, 'o, 'w) runtime \<Rightarrow> ('t, 'r, 'o, 'w) conn \<Rightarrow> ('t, 'r, 'o, 'w) conn" where
  "drop_sender R c = c\<lparr>rx_chan := ch_drop_tx (rx_ops R) (rx_chan c)\<rparr>"

fun drop_payloads ::
  "('o, reply) oneshot_ops \<Rightarrow> payload list \<Rightarrow> (nat \<Rightarrow> 'o) \<Rightarrow> (nat \<Rightarrow> 'o)" where
  "drop_payloads Q [] sl = sl"
| "drop_payloads Q (p # ps) sl =
     drop_payloads Q ps
       (case response_tx p of None \<Rightarrow> sl | Some i \<Rightarrow> sl(i := os_drop_tx Q (sl i)))"

definition drop_receiver ::
  "('t, 'r, 'o, 'w) runtime \<Rightarrow> ('t, 'r, 'o, 'w) conn \<Rightarrow> ('t, 'r, 'o, 'w) conn" where
  "drop_receiver R c =
     (let (t, ps) = ch_drop_rx (tx_ops R) (tx_chan c)
      in c\<lparr>tx_chan := t, slots := drop_payloads (os_ops R) ps (slots c)\<rparr>)"

definition exit_step ::
  "('t, 'r, 'o, 'w) runtime \<Rightarrow> task \<Rightarrow> ('t, 'r, 'o, 'w) conn
    \<Rightarrow> (('t, 'r, 'o, 'w) conn \<times> task) option" where
  "exit_step R k c =
     (case k of
        Exited st \<Rightarrow>
          (case record_terminal st c of
             Some c1 \<Rightarrow> Some (c1, Recorded st)
           | None \<Rightarrow> Some (c, Crashed))
      | Recorded st \<Rightarrow> Some (drop_sender R c, SenderDropped st)
      | SenderDropped st \<Rightarrow> Some (drop_receiver R c, Finished st)
      | _ \<Rightarrow> None)"

lemmas [op_defs] = take_terminal_error_opt_def take_terminal_error_def send_confirmed_def
  await_response_def send_unconfirmed_def send_close_def recv_raw_def poll_recv_raw_def
  respond_def send_socket_message_def handle_incoming_def send_keepalive_def deliver_fast_def
  backpressure_arm_def select_arm_def loop_step_def handler_step_def work_step_def
  record_terminal_def drop_sender_def drop_receiver_def exit_step_def

end
