(* ===== verification/Loop_Refinement.thy ===== *)
theory Loop_Refinement
  imports Socket_Loop
begin

text \<open>
  The operations of the loop and of the handles, run on any channels that keep \<open>tokio\<close>'s
  documentation, do exactly what they do on the reference channels. The locale \<open>tokio\<close> collects
  what is assumed of a runtime; \<open>reference\<close> is the runtime with the reference channels and the same
  transport. Each lemma says that an operation commutes with the view. An operation that only
  queues may wait longer in the real runtime, so for those the completed calls commute.
\<close>

section \<open>The reference runtime and the view\<close>

type_synonym 'w ref_runtime = "(payload chan, message chan, reply slot, 'w) runtime"
type_synonym 'w ref_conn = "(payload chan, message chan, reply slot, 'w) conn"

definition reference :: "('t, 'r, 'o, 'w) runtime \<Rightarrow> 'w ref_runtime" where
  "reference R =
     \<lparr>tx_ops = chan_ops, rx_ops = chan_ops, os_ops = slot_ops,
      ws_ops = ws_ops R, sleep_elapsed = sleep_elapsed R\<rparr>"

definition conn_view ::
  "('t \<Rightarrow> payload chan) \<Rightarrow> ('r \<Rightarrow> message chan) \<Rightarrow> ('o \<Rightarrow> reply slot)
    \<Rightarrow> ('t, 'r, 'o, 'w) conn \<Rightarrow> 'w ref_conn" where
  "conn_view vt vr vo c =
     \<lparr>tx_chan = vt (tx_chan c), rx_chan = vr (rx_chan c), slots = vo \<circ> slots c,
      ws = ws c, terminal_error = terminal_error c\<rparr>"

lemma reference_simps [simp]:
  "tx_ops (reference R) = chan_ops" "rx_ops (reference R) = chan_ops"
  "os_ops (reference R) = slot_ops" "ws_ops (reference R) = ws_ops R"
  "sleep_elapsed (reference R) = sleep_elapsed R"
  by (simp_all add: reference_def)

lemma conn_view_simps [simp]:
  "tx_chan (conn_view vt vr vo c) = vt (tx_chan c)"
  "rx_chan (conn_view vt vr vo c) = vr (rx_chan c)"
  "slots (conn_view vt vr vo c) = vo \<circ> slots c"
  "ws (conn_view vt vr vo c) = ws c"
  "terminal_error (conn_view vt vr vo c) = terminal_error c"
  by (simp_all add: conn_view_def)

lemma conn_view_updates:
  "conn_view vt vr vo (c\<lparr>tx_chan := t\<rparr>) = (conn_view vt vr vo c)\<lparr>tx_chan := vt t\<rparr>"
  "conn_view vt vr vo (c\<lparr>rx_chan := r\<rparr>) = (conn_view vt vr vo c)\<lparr>rx_chan := vr r\<rparr>"
  "conn_view vt vr vo (c\<lparr>slots := sl\<rparr>) = (conn_view vt vr vo c)\<lparr>slots := vo \<circ> sl\<rparr>"
  "conn_view vt vr vo (c\<lparr>ws := w\<rparr>) = (conn_view vt vr vo c)\<lparr>ws := w\<rparr>"
  "conn_view vt vr vo (c\<lparr>terminal_error := e\<rparr>) = (conn_view vt vr vo c)\<lparr>terminal_error := e\<rparr>"
  by (simp_all add: conn_view_def)

section \<open>The assumptions on a runtime\<close>

text \<open>
  The channels and one-shots behave as documented. A \<open>sleep\<close> is never over early, and is over once
  its duration has passed by at least the millisecond of the timer's resolution.
\<close>

locale tokio =
  tx: mpsc "tx_ops R" vt + rx: mpsc_solo "rx_ops R" vr + os: oneshot "os_ops R" vo
  for R :: "('t, 'r, 'o, 'w) runtime"
    and vt :: "'t \<Rightarrow> payload chan" and vr :: "'r \<Rightarrow> message chan" and vo :: "'o \<Rightarrow> reply slot" +
  assumes sleep_not_early: "sleep_elapsed R started d now \<Longrightarrow> started + d \<le> now"
    and sleep_over: "started + d < now \<Longrightarrow> sleep_elapsed R started d now"
begin

lemma slots_update: "vo \<circ> (sl(i := s)) = (vo \<circ> sl)(i := vo s)"
  by auto

lemmas commute = conn_view_updates slots_update

lemma view_take_terminal_error_opt:
  "take_terminal_error_opt (conn_view vt vr vo c) = map_prod (conn_view vt vr vo) id (take_terminal_error_opt c)"
  by (simp add: take_terminal_error_opt_def commute)

lemma view_take_terminal_error:
  "take_terminal_error (conn_view vt vr vo c) = map_prod (conn_view vt vr vo) id (take_terminal_error c)"
  by (simp add: take_terminal_error_def view_take_terminal_error_opt split_beta)

lemma take_terminal_error_eq:
  "take_terminal_error c = (c\<lparr>terminal_error := None\<rparr>,
     case terminal_error c of Some err \<Rightarrow> err | None \<Rightarrow> WebsocketClosed)"
  for c :: "('t, 'r, 'o, 'w) conn"
  by (simp add: take_terminal_error_def take_terminal_error_opt_def)

lemma view_respond:
  "respond (reference R) i res (conn_view vt vr vo c) = map_prod (conn_view vt vr vo) id (respond R i res c)"
  by (cases "os_send (os_ops R) (slots c i) res")
    (simp add: respond_def os.os_send_eq commute)

lemma view_send_socket_message:
  "send_socket_message (reference R) pm (conn_view vt vr vo c)
     = map_prod (conn_view vt vr vo) id (send_socket_message R pm c)"
proof -
  have respond: "respond (reference R) i res ((conn_view vt vr vo c)\<lparr>ws := w\<rparr>)
      = map_prod (conn_view vt vr vo) id (respond R i res (c\<lparr>ws := w\<rparr>))" for i res w
    using view_respond [of i res "c\<lparr>ws := w\<rparr>"] by (simp add: commute)
  show ?thesis
    by (auto simp: send_socket_message_def respond commute Let_def split_beta
        split: option.splits)
qed

lemma view_handle_incoming:
  "handle_incoming (reference R) item (conn_view vt vr vo c)
     = map_prod (conn_view vt vr vo) id (handle_incoming R item c)"
  by (auto simp: handle_incoming_def commute Let_def split_beta
      split: option.splits sum.splits message.splits)

lemma view_send_keepalive:
  "send_keepalive (reference R) m (conn_view vt vr vo c)
     = map_prod (conn_view vt vr vo) id (send_keepalive R m c)"
  by (simp add: send_keepalive_def commute Let_def split_beta)

lemma view_deliver_fast:
  "deliver_fast (reference R) frame (conn_view vt vr vo c)
     = map_prod (conn_view vt vr vo) id (deliver_fast R frame c)"
  by (cases "ch_try_send (rx_ops R) (rx_chan c) frame")
    (simp add: deliver_fast_def rx.try_send_eq commute)

lemma view_backpressure_arm:
  "backpressure_arm (reference R) cfg started now a frame (conn_view vt vr vo c)
     = map_option (map_prod (conn_view vt vr vo) id) (backpressure_arm R cfg started now a frame c)"
proof (cases a)
  case RecvArm
  show ?thesis
  proof (cases "ch_recv (tx_ops R) (tx_chan c)")
    case Pending
    with tx.recv_Pending [of "tx_chan c"] show ?thesis
      by (simp add: RecvArm backpressure_arm_def)
  next
    case (Ready p)
    obtain t x where p: "p = (t, x)" by (cases p)
    then show ?thesis
      by (simp add: RecvArm backpressure_arm_def Ready p tx.recv_Ready [OF Ready [unfolded p]]
          commute)
  qed
next
  case ReserveArm
  show ?thesis
  proof (cases "ch_reserve (rx_ops R) (rx_chan c)")
    case Pending
    with rx.reserve_Pending [of "rx_chan c"] show ?thesis
      by (simp add: ReserveArm backpressure_arm_def)
  next
    case (Ready p)
    obtain r x where p: "p = (r, x)" by (cases p)
    show ?thesis
      by (cases x) (simp_all add: ReserveArm backpressure_arm_def Ready p
          rx.reserve_Ready [OF Ready [unfolded p]] commute rx.view_permit_send)
  qed
qed (simp_all add: backpressure_arm_def split: option.splits)

lemma view_select_arm:
  "select_arm (reference R) cfg started now a (conn_view vt vr vo c)
     = map_option (map_prod (conn_view vt vr vo) id) (select_arm R cfg started now a c)"
proof (cases a)
  case RecvArm
  show ?thesis
  proof (cases "ch_recv (tx_ops R) (tx_chan c)")
    case Pending
    with tx.recv_Pending [of "tx_chan c"] show ?thesis
      by (simp add: RecvArm select_arm_def)
  next
    case (Ready p)
    obtain t x where p: "p = (t, x)" by (cases p)
    then show ?thesis
      by (simp add: RecvArm select_arm_def Ready p tx.recv_Ready [OF Ready [unfolded p]]
          commute)
  qed
next
  case NextArm
  then show ?thesis by (auto simp: select_arm_def commute split: poll.splits)
qed (simp_all add: select_arm_def split: option.splits)

lemma view_handler_step:
  "handler_step (reference R) cfg j (conn_view vt vr vo c)
     = map_prod (conn_view vt vr vo) id (handler_step R cfg j c)"
  by (cases j) (simp_all add: handler_step_def view_send_socket_message view_send_keepalive
      view_handle_incoming view_deliver_fast Let_def split_beta split: incoming.split sum.split)

lemma view_work_step:
  "work_step (reference R) cfg k (conn_view vt vr vo c)
     = map_option (map_prod (conn_view vt vr vo) id) (work_step R cfg k c)"
  by (cases k) (simp_all add: work_step_def view_handler_step)

lemma view_loop_step:
  "loop_step (reference R) cfg started now a k (conn_view vt vr vo c)
     = map_option (map_prod (conn_view vt vr vo) id) (loop_step R cfg started now a k c)"
  by (cases k) (simp_all add: loop_step_def view_select_arm view_backpressure_arm)

lemma view_drop_payloads:
  "vo \<circ> drop_payloads (os_ops R) ps sl = drop_payloads slot_ops ps (vo \<circ> sl)"
  by (induction ps arbitrary: sl)
    (auto simp: os.view_os_drop_tx slots_update split: option.splits)

lemma view_exit_step:
  "exit_step (reference R) k (conn_view vt vr vo c)
     = map_option (map_prod (conn_view vt vr vo) id) (exit_step R k c)"
proof (cases k)
  case (Exited st)
  then show ?thesis
    by (cases st) (simp_all add: exit_step_def record_terminal_def commute)
next
  case (Recorded st)
  then show ?thesis by (simp add: exit_step_def drop_sender_def commute rx.view_drop_tx)
next
  case (SenderDropped st)
  then show ?thesis
    by (cases "ch_drop_rx (tx_ops R) (tx_chan c)")
      (simp add: exit_step_def drop_receiver_def tx.drop_rx commute view_drop_payloads)
qed (simp_all add: exit_step_def)

text \<open>The handles' side.\<close>

lemma view_send_confirmed:
  assumes "send_confirmed R i m c = Ready (c', r)"
  shows "send_confirmed (reference R) i m (conn_view vt vr vo c) = Ready (conn_view vt vr vo c', r)"
  using assms
  by (auto simp: send_confirmed_def Let_def take_terminal_error_eq commute os.view_os_new
      take_terminal_error_def take_terminal_error_opt_def
      split: poll.splits prod.splits sum.splits dest!: tx.view_send)

lemma view_send_close:
  assumes "send_close R i c = Ready (c', r)"
  shows "send_close (reference R) i (conn_view vt vr vo c) = Ready (conn_view vt vr vo c', r)"
  using assms
  by (auto simp: send_close_def Let_def commute os.view_os_new
      split: poll.splits prod.splits sum.splits dest!: tx.view_send)

lemma view_send_unconfirmed:
  assumes "send_unconfirmed R m c = Ready (c', r)"
  shows "send_unconfirmed (reference R) m (conn_view vt vr vo c) = Ready (conn_view vt vr vo c', r)"
  using assms
  by (auto simp: send_unconfirmed_def Let_def commute
      take_terminal_error_def take_terminal_error_opt_def
      split: poll.splits prod.splits sum.splits dest!: tx.view_send)

lemma view_await_response:
  assumes "await_response R i c = Ready (c', r)"
  shows "await_response (reference R) i (conn_view vt vr vo c) = Ready (conn_view vt vr vo c', r)"
  using assms
  by (auto simp: await_response_def commute
      split: poll.splits prod.splits dest!: os.os_recv_Ready)

lemma view_recv_raw:
  assumes "recv_raw R c = Ready (c', r)"
  shows "recv_raw (reference R) (conn_view vt vr vo c) = Ready (conn_view vt vr vo c', r)"
  using assms
  by (auto simp: recv_raw_def Let_def commute
      take_terminal_error_def take_terminal_error_opt_def
      split: poll.splits prod.splits option.splits dest!: rx.recv_Ready)

lemma view_poll_recv_raw:
  assumes "poll_recv_raw R c = Ready (c', r)"
  shows "poll_recv_raw (reference R) (conn_view vt vr vo c) = Ready (conn_view vt vr vo c', r)"
  using assms
  by (auto simp: poll_recv_raw_def Let_def commute take_terminal_error_opt_def
      split: poll.splits prod.splits option.splits dest!: rx.recv_Ready)

end

text \<open>
  The reference runtime keeps the assumptions, for every transport and with a timer that is over
  exactly when its duration has passed.
\<close>

definition reference_runtime :: "'w transport \<Rightarrow> 'w ref_runtime" where
  "reference_runtime T =
     \<lparr>tx_ops = chan_ops, rx_ops = chan_ops, os_ops = slot_ops, ws_ops = T,
      sleep_elapsed = (\<lambda>started d now. started + d \<le> now)\<rparr>"

lemma reference_runtime_simps [simp]:
  "tx_ops (reference_runtime T) = chan_ops" "rx_ops (reference_runtime T) = chan_ops"
  "os_ops (reference_runtime T) = slot_ops" "ws_ops (reference_runtime T) = T"
  "sleep_elapsed (reference_runtime T) started d now \<longleftrightarrow> started + d \<le> now"
  by (simp_all add: reference_runtime_def)

interpretation ref: tokio "reference_runtime T" id id id for T
  by unfold_locales (simp_all add: map_ident_simps)

lemma reference_runtime_tokio: "tokio (reference_runtime T) id id id"
  by unfold_locales

end
