(* ===== verification/System.thy ===== *)
theory System
  imports Loop_Refinement
begin

text \<open>
  One connection as a transition system: the background task, the handles that talk to it through
  the channels, the network and the clock. A step is one \<open>action\<close>: an arm of the loop that wins, the
  completion of its handler, a stage of the exit, a completed (part of a) call of a handle, the passing of time, or the arbitrary
  evolution of the socket. \<open>exec\<close> says what the action does, \<open>None\<close> when it cannot happen now.

  Three fields only record history for the statements: the payloads that were queued, the frames
  that were handed to the consumer, and the terminal errors that were taken. The socket state is
  paired with the record of the wire of \<open>Transport\<close>.
\<close>

section \<open>States\<close>

datatype call = NotStarted | Awaiting | Done call_outcome | Cancelled

record ('t, 'r, 'o, 'w) sys =
  conn :: "('t, 'r, 'o, 'w \<times> wire_event list) conn"
  task :: task
  clock :: nat
  sleep_started :: nat
  calls :: "nat \<Rightarrow> call"
  tx_handles :: nat
  rx_handle :: bool
  queued :: "payload list"
  delivered :: "message list"
  taken :: "error list"

type_synonym 'w ref_sys = "(payload chan, message chan, reply slot, 'w) sys"

definition logged_runtime ::
  "('t, 'r, 'o, 'w) runtime \<Rightarrow> ('t, 'r, 'o, 'w \<times> wire_event list) runtime" where
  "logged_runtime R =
     \<lparr>tx_ops = tx_ops R, rx_ops = rx_ops R, os_ops = os_ops R,
      ws_ops = logged (ws_ops R), sleep_elapsed = sleep_elapsed R\<rparr>"

abbreviation wire :: "('t, 'r, 'o, 'w) sys \<Rightarrow> wire_event list" where
  "wire s \<equiv> snd (ws (conn s))"

text \<open>
  The state \<open>connect_with_codec\<close> sets up for the loop: two channels of the given capacity (creating
  a channel of capacity zero panics), an empty slot, and the socket after the handshake.
\<close>

definition init_conn ::
  "('t, 'r, 'o, 'w) runtime \<Rightarrow> nat \<Rightarrow> 'w \<Rightarrow> ('t, 'r, 'o, 'w) conn option" where
  "init_conn R channel_size w =
     (case ch_new (tx_ops R) channel_size of
        None \<Rightarrow> None
      | Some t \<Rightarrow>
          (case ch_new (rx_ops R) channel_size of
             None \<Rightarrow> None
           | Some r \<Rightarrow>
               Some \<lparr>tx_chan = t, rx_chan = r, slots = (\<lambda>_. os_new (os_ops R)),
                     ws = w, terminal_error = None\<rparr>))"

definition init_sys ::
  "('t, 'r, 'o, 'w) runtime \<Rightarrow> nat \<Rightarrow> 'w \<Rightarrow> ('t, 'r, 'o, 'w) sys option" where
  "init_sys R channel_size w =
     map_option
       (\<lambda>c. \<lparr>conn = c, task = AtSelect, clock = 0, sleep_started = 0, calls = (\<lambda>_. NotStarted),
             tx_handles = 1, rx_handle = True, queued = [], delivered = [], taken = []\<rparr>)
       (init_conn (logged_runtime R) channel_size (w, []))"

section \<open>Actions\<close>

datatype 'w action =
    Loop arm
  | Work
  | Exit
  | Tick nat
  | Network 'w
  | SendConfirmed nat message
  | SendClose nat
  | Await nat
  | Cancel nat
  | SendUnconfirmed message
  | Recv
  | PollRecv
  | Join
  | CloneTx
  | DropTx
  | DropRx

text \<open>
  What an operation that consults the slot of the terminal error finds there, and hands out. \<open>Join\<close> is
  the end of \<open>close_connection\<close>: the task is over and its error is taken.
\<close>

definition drain :: "('t, 'r, 'o, 'w) conn \<Rightarrow> error list" where
  "drain c = (case terminal_error c of Some e \<Rightarrow> [e] | None \<Rightarrow> [])"

text \<open>
  Starting a confirmed call (\<open>send_confirmed\<close> or \<open>send_close\<close>): it is over if the queue is closed,
  otherwise its payload is queued and it awaits the answer. Of the two, \<open>send_confirmed\<close> consults the
  slot of the terminal error.
\<close>

definition start_call ::
  "nat \<Rightarrow> message \<Rightarrow> bool \<Rightarrow> (('t, 'r, 'o, 'w \<times> wire_event list) conn \<times> reply option) poll
    \<Rightarrow> ('t, 'r, 'o, 'w) sys \<Rightarrow> ('t, 'r, 'o, 'w) sys option" where
  "start_call i m consults p s =
     (if calls s i = NotStarted \<and> 0 < tx_handles s
      then (case p of
              Pending \<Rightarrow> None
            | Ready (c, None) \<Rightarrow>
                Some (s\<lparr>conn := c, calls := (calls s)(i := Awaiting),
                        queued := queued s @ [\<lparr>payload_message = m, response_tx = Some i\<rparr>]\<rparr>)
            | Ready (c, Some r) \<Rightarrow>
                Some (s\<lparr>conn := c, calls := (calls s)(i := Done (Returned r)),
                        taken := taken s @ (if consults then drain (conn s) else [])\<rparr>))
      else None)"

fun exec ::
  "('t, 'r, 'o, 'w) runtime \<Rightarrow> loop_config \<Rightarrow> 'w action
    \<Rightarrow> ('t, 'r, 'o, 'w) sys \<Rightarrow> ('t, 'r, 'o, 'w) sys option" where
  "exec R cfg (Loop a) s =
     (case loop_step (logged_runtime R) cfg (sleep_started s) (clock s) a (task s) (conn s) of
        None \<Rightarrow> None
      | Some (c, k) \<Rightarrow> Some (s\<lparr>conn := c, task := k, sleep_started := clock s\<rparr>))"
| "exec R cfg Work s =
     (case work_step (logged_runtime R) cfg (task s) (conn s) of
        None \<Rightarrow> None
      | Some (c, k) \<Rightarrow> Some (s\<lparr>conn := c, task := k, sleep_started := clock s\<rparr>))"
| "exec R cfg Exit s =
     (case exit_step (logged_runtime R) (task s) (conn s) of
        None \<Rightarrow> None
      | Some (c, k) \<Rightarrow> Some (s\<lparr>conn := c, task := k\<rparr>))"
| "exec R cfg (Tick d) s = Some (s\<lparr>clock := clock s + d\<rparr>)"
| "exec R cfg (Network w) s = Some (s\<lparr>conn := (conn s)\<lparr>ws := (w, wire s)\<rparr>\<rparr>)"
| "exec R cfg (SendConfirmed i m) s =
     start_call i m True (send_confirmed (logged_runtime R) i m (conn s)) s"
| "exec R cfg (SendClose i) s =
     start_call i close_message False (send_close (logged_runtime R) i (conn s)) s"
| "exec R cfg (Await i) s =
     (if calls s i = Awaiting
      then (case await_response (logged_runtime R) i (conn s) of
              Pending \<Rightarrow> None
            | Ready (c, out) \<Rightarrow> Some (s\<lparr>conn := c, calls := (calls s)(i := Done out)\<rparr>))
      else None)"
| "exec R cfg (Cancel i) s =
     (if calls s i = Awaiting
      then Some (s\<lparr>conn := (conn s)\<lparr>slots := (slots (conn s))(i := os_drop_rx (os_ops R) (slots (conn s) i))\<rparr>,
                   calls := (calls s)(i := Cancelled)\<rparr>)
      else None)"
| "exec R cfg (SendUnconfirmed m) s =
     (if 0 < tx_handles s
      then (case send_unconfirmed (logged_runtime R) m (conn s) of
              Pending \<Rightarrow> None
            | Ready (c, Inr u) \<Rightarrow>
                Some (s\<lparr>conn := c,
                        queued := queued s @ [\<lparr>payload_message = m, response_tx = None\<rparr>]\<rparr>)
            | Ready (c, Inl e) \<Rightarrow> Some (s\<lparr>conn := c, taken := taken s @ drain (conn s)\<rparr>))
      else None)"
| "exec R cfg Recv s =
     (if rx_handle s
      then (case recv_raw (logged_runtime R) (conn s) of
              Pending \<Rightarrow> None
            | Ready (c, Inr m) \<Rightarrow> Some (s\<lparr>conn := c, delivered := delivered s @ [m]\<rparr>)
            | Ready (c, Inl e) \<Rightarrow> Some (s\<lparr>conn := c, taken := taken s @ drain (conn s)\<rparr>))
      else None)"
| "exec R cfg PollRecv s =
     (if rx_handle s
      then (case poll_recv_raw (logged_runtime R) (conn s) of
              Pending \<Rightarrow> None
            | Ready (c, Some (Inr m)) \<Rightarrow> Some (s\<lparr>conn := c, delivered := delivered s @ [m]\<rparr>)
            | Ready (c, _) \<Rightarrow> Some (s\<lparr>conn := c, taken := taken s @ drain (conn s)\<rparr>))
      else None)"
| "exec R cfg Join s =
     (case task s of
        Finished st \<Rightarrow> Some (s\<lparr>conn := fst (take_terminal_error_opt (conn s)), taken := taken s @ drain (conn s)\<rparr>)
      | _ \<Rightarrow> None)"
| "exec R cfg CloneTx s =
     (if 0 < tx_handles s
      then Some (s\<lparr>conn := (conn s)\<lparr>tx_chan := ch_clone_tx (tx_ops R) (tx_chan (conn s))\<rparr>,
                   tx_handles := Suc (tx_handles s)\<rparr>)
      else None)"
| "exec R cfg DropTx s =
     (if 0 < tx_handles s
      then Some (s\<lparr>conn := (conn s)\<lparr>tx_chan := ch_drop_tx (tx_ops R) (tx_chan (conn s))\<rparr>,
                   tx_handles := tx_handles s - 1\<rparr>)
      else None)"
| "exec R cfg DropRx s =
     (if rx_handle s
      then Some (s\<lparr>conn := (conn s)\<lparr>rx_chan := fst (ch_drop_rx (rx_ops R) (rx_chan (conn s)))\<rparr>,
                   rx_handle := False\<rparr>)
      else None)"

text \<open>A run is a list of actions; the reachable states are those some run leads to.\<close>

fun run ::
  "('t, 'r, 'o, 'w) runtime \<Rightarrow> loop_config \<Rightarrow> 'w action list
    \<Rightarrow> ('t, 'r, 'o, 'w) sys \<Rightarrow> ('t, 'r, 'o, 'w) sys option" where
  "run R cfg [] s = Some s"
| "run R cfg (a # as) s =
     (case exec R cfg a s of None \<Rightarrow> None | Some s' \<Rightarrow> run R cfg as s')"

inductive reachable ::
  "('t, 'r, 'o, 'w) runtime \<Rightarrow> loop_config \<Rightarrow> nat \<Rightarrow> ('t, 'r, 'o, 'w) sys \<Rightarrow> bool"
  for R cfg channel_size where
  start: "init_sys R channel_size w = Some s \<Longrightarrow> reachable R cfg channel_size s"
| step: "reachable R cfg channel_size s \<Longrightarrow> exec R cfg a s = Some s' \<Longrightarrow> reachable R cfg channel_size s'"

lemma run_append:
  "run R cfg (as @ bs) s = (case run R cfg as s of None \<Rightarrow> None | Some s' \<Rightarrow> run R cfg bs s')"
  by (induction as arbitrary: s) (auto split: option.splits)

lemma run_reachable:
  "reachable R cfg n s \<Longrightarrow> run R cfg as s = Some s' \<Longrightarrow> reachable R cfg n s'"
  by (induction as arbitrary: s) (auto split: option.splits intro: reachable.step)

lemma init_run_reachable:
  "init_sys R n w = Some s \<Longrightarrow> run R cfg as s = Some s' \<Longrightarrow> reachable R cfg n s'"
  by (blast intro: run_reachable reachable.start)

section \<open>Refinement to the reference channels\<close>

definition sys_view ::
  "('t \<Rightarrow> payload chan) \<Rightarrow> ('r \<Rightarrow> message chan) \<Rightarrow> ('o \<Rightarrow> reply slot)
    \<Rightarrow> ('t, 'r, 'o, 'w) sys \<Rightarrow> 'w ref_sys" where
  "sys_view vt vr vo s =
     \<lparr>conn = conn_view vt vr vo (conn s), task = task s, clock = clock s,
      sleep_started = sleep_started s, calls = calls s, tx_handles = tx_handles s,
      rx_handle = rx_handle s, queued = queued s, delivered = delivered s, taken = taken s\<rparr>"

lemma sys_view_simps [simp]:
  "conn (sys_view vt vr vo s) = conn_view vt vr vo (conn s)"
  "task (sys_view vt vr vo s) = task s" "clock (sys_view vt vr vo s) = clock s"
  "sleep_started (sys_view vt vr vo s) = sleep_started s" "calls (sys_view vt vr vo s) = calls s"
  "tx_handles (sys_view vt vr vo s) = tx_handles s" "rx_handle (sys_view vt vr vo s) = rx_handle s"
  "queued (sys_view vt vr vo s) = queued s" "delivered (sys_view vt vr vo s) = delivered s"
  "taken (sys_view vt vr vo s) = taken s"
  by (simp_all add: sys_view_def)

lemma sys_eqI:
  fixes s s' :: "('t, 'r, 'o, 'w) sys"
  assumes "conn s = conn s'" "task s = task s'" "clock s = clock s'"
    "sleep_started s = sleep_started s'" "calls s = calls s'" "tx_handles s = tx_handles s'"
    "rx_handle s = rx_handle s'" "queued s = queued s'" "delivered s = delivered s'"
    "taken s = taken s'"
  shows "s = s'"
  using assms by simp

lemma logged_runtime_simps [simp]:
  "tx_ops (logged_runtime R) = tx_ops R" "rx_ops (logged_runtime R) = rx_ops R"
  "os_ops (logged_runtime R) = os_ops R" "ws_ops (logged_runtime R) = logged (ws_ops R)"
  "sleep_elapsed (logged_runtime R) = sleep_elapsed R"
  by (simp_all add: logged_runtime_def)

lemma reference_logged: "logged_runtime (reference R) = reference (logged_runtime R)"
  by (simp add: logged_runtime_def reference_def)

lemma drain_view [simp]: "drain (conn_view vt vr vo c) = drain c"
  by (simp add: drain_def)

context tokio
begin

lemma tokio_logged: "tokio (logged_runtime R) vt vr vo"
  by unfold_locales
    (auto intro: sleep_not_early sleep_over tx.view_new tx.view_send tx.view_recv tx.view_clone_tx
      tx.view_drop_tx tx.view_drop_rx rx.view_new rx.view_send rx.view_recv rx.view_clone_tx
      rx.view_drop_tx rx.view_drop_rx rx.view_try_send rx.view_reserve rx.view_permit_send
      os.view_os_new os.view_os_send os.view_os_drop_tx os.view_os_drop_rx os.view_os_recv)

lemmas logged_views =
  tokio.view_loop_step [OF tokio_logged] tokio.view_work_step [OF tokio_logged]
  tokio.view_exit_step [OF tokio_logged]

lemma view_start_call:
  assumes "start_call i m consults p s = Some s'"
    and "\<And>c r. p = Ready (c, r) \<Longrightarrow> p' = Ready (conn_view vt vr vo c, r)"
  shows "start_call i m consults p' (sys_view vt vr vo s) = Some (sys_view vt vr vo s')"
  using assms
  by (auto simp: start_call_def sys_view_def split: if_splits poll.splits option.splits)

lemma exec_view:
  assumes "exec R cfg a s = Some s'"
  shows "exec (reference R) cfg a (sys_view vt vr vo s) = Some (sys_view vt vr vo s')"
proof (cases a)
  case (SendConfirmed i m)
  with assms show ?thesis
    by (auto simp: reference_logged intro!: view_start_call
        tokio.view_send_confirmed [OF tokio_logged])
next
  case (SendClose i)
  with assms show ?thesis
    by (auto simp: reference_logged intro!: view_start_call
        tokio.view_send_close [OF tokio_logged])
next
  case (Await i)
  with assms show ?thesis
    by (auto simp: reference_logged sys_view_def split: if_splits poll.splits
        dest!: tokio.view_await_response [OF tokio_logged])
next
  case (SendUnconfirmed m)
  with assms show ?thesis
    by (auto simp: reference_logged sys_view_def split: if_splits poll.splits sum.splits
        dest!: tokio.view_send_unconfirmed [OF tokio_logged])
next
  case Recv
  with assms show ?thesis
    by (auto simp: reference_logged sys_view_def split: if_splits poll.splits sum.splits
        dest!: tokio.view_recv_raw [OF tokio_logged])
next
  case PollRecv
  with assms show ?thesis
    by (auto simp: reference_logged sys_view_def split: if_splits poll.splits sum.splits option.splits
        dest!: tokio.view_poll_recv_raw [OF tokio_logged])
next
  case DropRx
  with assms rx.view_drop_rx [of "rx_chan (conn s)"] show ?thesis
    by (cases "ch_drop_rx (rx_ops R) (rx_chan (conn s))")
      (auto simp: sys_view_def commute rx.drop_rx split: if_splits)
qed (use assms in \<open>auto simp: reference_logged logged_views sys_view_def commute tx.view_clone_tx
      tx.view_drop_tx os.view_os_drop_rx take_terminal_error_opt_def split: option.splits if_splits task.splits\<close>)

lemma init_view:
  assumes "init_sys R n w = Some s"
  shows "init_sys (reference R) n w = Some (sys_view vt vr vo s)"
proof -
  from assms obtain t r where new: "ch_new (tx_ops R) n = Some t" "ch_new (rx_ops R) n = Some r"
    and s: "conn s = \<lparr>tx_chan = t, rx_chan = r, slots = (\<lambda>_. os_new (os_ops R)),
                     ws = (w, []), terminal_error = None\<rparr>"
      "s = \<lparr>conn = conn s, task = AtSelect, clock = 0, sleep_started = 0, calls = (\<lambda>_. NotStarted),
            tx_handles = 1, rx_handle = True, queued = [], delivered = [], taken = []\<rparr>"
    by (auto simp: init_sys_def init_conn_def split: option.splits)
  have "chan_new n = Some (vt t)" "chan_new n = Some (vr r)"
    using tx.view_new [of n] rx.view_new [of n] new by simp_all
  moreover have "sys_view vt vr vo s = \<lparr>conn = conn_view vt vr vo (conn s), task = AtSelect,
      clock = 0, sleep_started = 0, calls = (\<lambda>_. NotStarted), tx_handles = 1, rx_handle = True,
      queued = [], delivered = [], taken = []\<rparr>"
    by (subst s(2)) (simp add: sys_view_def)
  ultimately show ?thesis
    by (simp add: init_sys_def init_conn_def s(1) conn_view_def comp_def os.view_os_new)
qed

lemma reachable_view:
  "reachable R cfg n s \<Longrightarrow> reachable (reference R) cfg n (sys_view vt vr vo s)"
  by (induction rule: reachable.induct)
    (blast intro: reachable.start init_view, blast intro: reachable.step exec_view)

end

end
