(* ===== verification/Loop_Spec.thy ===== *)
theory Loop_Spec
  imports System
begin

text \<open>
  What one step of the loop does, as two step relations with one rule per outcome: \<open>loop_spec\<close> for an
  arm that wins, \<open>work_spec\<close> for a handler that completes. The relations know the channels and
  one-shots as lists and flags, leave the results of the socket operations open, and name the new
  state in full; \<open>loop_step_spec\<close> and \<open>work_step_spec\<close> prove that the code on the reference channels
  only takes these steps. The invariants of the system are proved over these relations, by cases on
  their rules.
\<close>

section \<open>Tasks\<close>

text \<open>
  What the task itself has in hand: a data frame read off the stream and not yet in the channel, and
  a payload taken off the queue and not yet offered to the socket.
\<close>

fun frame_list :: "message option \<Rightarrow> message list" where
  "frame_list None = []"
| "frame_list (Some f) = [f]"

fun job_frames :: "job \<Rightarrow> message list" where
  "job_frames (SendJob pm h) = frame_list h"
| "job_frames (TimerJob h) = frame_list h"
| "job_frames (ReadJob (Some (Inr m))) = (if is_data m then [m] else [])"
| "job_frames (ReadJob _) = []"

fun held :: "task \<Rightarrow> message list" where
  "held (Holding f) = [f]"
| "held (Busy j) = job_frames j"
| "held _ = []"

fun inflight :: "task \<Rightarrow> payload list" where
  "inflight (Busy (SendJob (Some p) h)) = [p]"
| "inflight _ = []"

text \<open>
  The task waits at one of the two \<open>select!\<close>, or runs the handler of an arm; in both cases it has not
  left its main loop.
\<close>

fun selecting :: "task \<Rightarrow> bool" where
  "selecting AtSelect = True"
| "selecting (Holding _) = True"
| "selecting _ = False"

fun active :: "task \<Rightarrow> bool" where
  "active (Busy _) = True"
| "active k = selecting k"

fun waiting :: "message option \<Rightarrow> task" where
  "waiting None = AtSelect"
| "waiting (Some f) = Holding f"

lemma waiting_simps [simp]:
  "selecting (waiting h)" "active (waiting h)" "held (waiting h) = frame_list h" "inflight (waiting h) = []"
  "waiting h = AtSelect \<longleftrightarrow> h = None" "waiting h = Holding f \<longleftrightarrow> h = Some f"
  "AtSelect = waiting h \<longleftrightarrow> h = None" "Holding f = waiting h \<longleftrightarrow> h = Some f"
  by (cases h; auto)+

lemma waiting_distinct [simp]:
  "waiting h \<noteq> Busy j" "waiting h \<noteq> Exited st" "waiting h \<noteq> Recorded st" "waiting h \<noteq> SenderDropped st"
  "waiting h \<noteq> Finished st" "waiting h \<noteq> Crashed"
  by (cases h; simp)+

lemmas waiting_distinct_sym [simp] = waiting_distinct [symmetric]

lemma selecting_waiting: "selecting k \<longleftrightarrow> (\<exists>h. k = waiting h)"
  by (cases k) (auto intro: exI [where x = None] exI [where x = "Some f" for f])

lemma selecting_active: "selecting k \<Longrightarrow> active k"
  by (cases k) auto

fun sender_dropped :: "task \<Rightarrow> bool" where
  "sender_dropped (SenderDropped _) = True"
| "sender_dropped (Finished _) = True"
| "sender_dropped _ = False"

fun finished :: "task \<Rightarrow> bool" where
  "finished (Finished _) = True"
| "finished _ = False"

text \<open>The state the main loop was left with, once it has been recorded.\<close>

fun recorded_state :: "task \<Rightarrow> loop_state option" where
  "recorded_state (Recorded st) = Some st"
| "recorded_state (SenderDropped st) = Some st"
| "recorded_state (Finished st) = Some st"
| "recorded_state _ = None"

section \<open>The rules\<close>

type_synonym 'w logged_conn = "('w \<times> wire_event list) ref_conn"

abbreviation on_wire :: "'w \<Rightarrow> wire_event \<Rightarrow> 'w logged_conn \<Rightarrow> 'w logged_conn" where
  "on_wire w ev c \<equiv> c\<lparr>ws := (w, snd (ws c) @ [ev])\<rparr>"

text \<open>The task after an operation of the socket: it goes on, or leaves with the given state.\<close>

definition unless_err :: "(unit, ws_error) result \<Rightarrow> (ws_error \<Rightarrow> loop_state) \<Rightarrow> task \<Rightarrow> task" where
  "unless_err res st k = (case res of Inr u \<Rightarrow> k | Inl e \<Rightarrow> Exited (st e))"

definition keepalive_frame :: "loop_config \<Rightarrow> message" where
  "keepalive_frame cfg = (case cfg_message cfg of Some m \<Rightarrow> m | None \<Rightarrow> Ping [])"

inductive loop_spec ::
  "loop_config \<Rightarrow> arm \<Rightarrow> task \<Rightarrow> 'w logged_conn \<Rightarrow> task \<Rightarrow> 'w logged_conn \<Rightarrow> bool" for cfg where
  take_payload:
    "\<lbrakk>k = waiting h; buf (tx_chan c) = p # ps; c' = c\<lparr>tx_chan := (tx_chan c)\<lparr>buf := ps\<rparr>\<rparr>\<rbrakk>
     \<Longrightarrow> loop_spec cfg RecvArm k c (Busy (SendJob (Some p) h)) c'"
| handles_gone:
    "\<lbrakk>k = waiting h; buf (tx_chan c) = []; senders (tx_chan c) = 0\<rbrakk>
     \<Longrightarrow> loop_spec cfg RecvArm k c (Busy (SendJob None h)) c"
| timer:
    "\<lbrakk>k = waiting h; cfg_interval cfg = Some d\<rbrakk> \<Longrightarrow> loop_spec cfg SleepArm k c (Busy (TimerJob h)) c"
| take_item:
    "c' = on_wire w (Received x) c \<Longrightarrow> loop_spec cfg NextArm AtSelect c (Busy (ReadJob x)) c'"
| deliver_held:
    "\<lbrakk>rx_alive (rx_chan c); has_room (rx_chan c);
      c' = c\<lparr>rx_chan := (rx_chan c)\<lparr>buf := buf (rx_chan c) @ [f]\<rparr>\<rparr>\<rbrakk>
     \<Longrightarrow> loop_spec cfg ReserveArm (Holding f) c AtSelect c'"
| held_closed:
    "\<not> rx_alive (rx_chan c)
     \<Longrightarrow> loop_spec cfg ReserveArm (Holding f) c (Exited (Error SocketeerDroppedWithoutClosing)) c"

inductive work_spec ::
  "loop_config \<Rightarrow> job \<Rightarrow> 'w logged_conn \<Rightarrow> task \<Rightarrow> 'w logged_conn \<Rightarrow> bool" for cfg where
  send_plain:
    "\<lbrakk>response_tx p = None; c' = on_wire w (Sent (payload_message p) res) c;
      k' = unless_err res (\<lambda>_. Error WebsocketClosed) (waiting h)\<rbrakk>
     \<Longrightarrow> work_spec cfg (SendJob (Some p) h) c k' c'"
| send_answered:
    "\<lbrakk>response_tx p = Some i; slot_rx (slots c i);
      c' = on_wire w (Sent (payload_message p) res)
             (c\<lparr>slots := (slots c)(i := (slots c i)\<lparr>answer := Some (map_err error_from res), slot_tx := False\<rparr>)\<rparr>);
      k' = unless_err res (\<lambda>_. Error WebsocketClosed) (waiting h)\<rbrakk>
     \<Longrightarrow> work_spec cfg (SendJob (Some p) h) c k' c'"
| send_cancelled:
    "\<lbrakk>response_tx p = Some i; \<not> slot_rx (slots c i);
      c' = on_wire w (Sent (payload_message p) res)
             (c\<lparr>slots := (slots c)(i := (slots c i)\<lparr>slot_tx := False\<rparr>)\<rparr>)\<rbrakk>
     \<Longrightarrow> work_spec cfg (SendJob (Some p) h) c (Exited (Error SocketeerDroppedWithoutClosing)) c'"
| send_nothing:
    "work_spec cfg (SendJob None h) c (Exited (Error SocketeerDroppedWithoutClosing)) c"
| keepalive:
    "\<lbrakk>c' = on_wire w (Sent (keepalive_frame cfg) res) c;
      k' = unless_err res (\<lambda>e. Error (error_from e)) (waiting h)\<rbrakk>
     \<Longrightarrow> work_spec cfg (TimerJob h) c k' c'"
| read_ping:
    "\<lbrakk>c' = on_wire w (Sent (Pong pong_bytes) res) c;
      k' = unless_err res (\<lambda>e. Error (error_from e)) AtSelect\<rbrakk>
     \<Longrightarrow> work_spec cfg (ReadJob (Some (Inr (Ping b)))) c k' c'"
| read_close:
    "\<lbrakk>c' = on_wire w (SinkClosed res) c; k' = unless_err res (\<lambda>e. Error (error_from e)) (Exited Closed)\<rbrakk>
     \<Longrightarrow> work_spec cfg (ReadJob (Some (Inr (Close f)))) c k' c'"
| read_pong: "work_spec cfg (ReadJob (Some (Inr (Pong b)))) c AtSelect c"
| read_frame: "work_spec cfg (ReadJob (Some (Inr (Frame b)))) c AtSelect c"
| read_error: "work_spec cfg (ReadJob (Some (Inl e))) c (Exited (Error (WebsocketError e))) c"
| read_end: "work_spec cfg (ReadJob None) c (Exited (Error WebsocketClosed)) c"
| read_data:
    "\<lbrakk>is_data m; rx_alive (rx_chan c); has_room (rx_chan c);
      c' = c\<lparr>rx_chan := (rx_chan c)\<lparr>buf := buf (rx_chan c) @ [m]\<rparr>\<rparr>\<rbrakk>
     \<Longrightarrow> work_spec cfg (ReadJob (Some (Inr m))) c AtSelect c'"
| read_full:
    "\<lbrakk>is_data m; rx_alive (rx_chan c); \<not> has_room (rx_chan c)\<rbrakk>
     \<Longrightarrow> work_spec cfg (ReadJob (Some (Inr m))) c (Holding m) c"
| read_rx_gone:
    "\<lbrakk>is_data m; \<not> rx_alive (rx_chan c)\<rbrakk>
     \<Longrightarrow> work_spec cfg (ReadJob (Some (Inr m))) c (Exited (Error SocketeerDroppedWithoutClosing)) c"

inductive_cases loop_spec_RecvE: "loop_spec cfg RecvArm k c k' c'"
inductive_cases loop_spec_SleepE: "loop_spec cfg SleepArm k c k' c'"
inductive_cases loop_spec_NextE: "loop_spec cfg NextArm k c k' c'"
inductive_cases loop_spec_ReserveE: "loop_spec cfg ReserveArm k c k' c'"
inductive_cases work_spec_SendE: "work_spec cfg (SendJob (Some p) h) c k' c'"
inductive_cases work_spec_GoneE: "work_spec cfg (SendJob None h) c k' c'"
inductive_cases work_spec_TimerE: "work_spec cfg (TimerJob h) c k' c'"
inductive_cases work_spec_ReadE: "work_spec cfg (ReadJob x) c k' c'"

section \<open>The code takes only these steps\<close>

lemma logged_ops:
  "ws_send (logged T) p m = (p', r) \<longleftrightarrow>
     (\<exists>w'. ws_send T (fst p) m = (w', r) \<and> p' = (w', snd p @ [Sent m r]))"
  "ws_close (logged T) p = (p', r) \<longleftrightarrow>
     (\<exists>w'. ws_close T (fst p) = (w', r) \<and> p' = (w', snd p @ [SinkClosed r]))"
  "ws_next (logged T) p = Ready (p', x) \<longleftrightarrow>
     (\<exists>w'. ws_next T (fst p) = Ready (w', x) \<and> p' = (w', snd p @ [Received x]))"
  "ws_next (logged T) p = Pending \<longleftrightarrow> ws_next T (fst p) = Pending"
  by (cases p; auto simp: logged_def split_beta map_poll_eq_Ready)+

lemma send_socket_message_cases:
  assumes "send_socket_message (reference (logged_runtime R)) (Some p) c = (c', st)"
  obtains
    (plain) w res where "response_tx p = None"
      "c' = on_wire w (Sent (payload_message p) res) c"
      "st = (case res of Inr u \<Rightarrow> Running | Inl e \<Rightarrow> Error WebsocketClosed)"
  | (answered) w res i where "response_tx p = Some i" "slot_rx (slots c i)"
      "c' = on_wire w (Sent (payload_message p) res)
        (c\<lparr>slots := (slots c)(i := (slots c i)\<lparr>answer := Some (map_err error_from res), slot_tx := False\<rparr>)\<rparr>)"
      "st = (case res of Inr u \<Rightarrow> Running | Inl e \<Rightarrow> Error WebsocketClosed)"
  | (cancelled) w res i where "response_tx p = Some i" "\<not> slot_rx (slots c i)"
      "c' = on_wire w (Sent (payload_message p) res)
        (c\<lparr>slots := (slots c)(i := (slots c i)\<lparr>slot_tx := False\<rparr>)\<rparr>)"
      "st = Error SocketeerDroppedWithoutClosing"
proof -
  obtain w res where w: "ws_send (logged (ws_ops R)) (ws c) (payload_message p)
      = ((w, snd (ws c) @ [Sent (payload_message p) res]), res)"
    by (metis surj_pair logged_ops(1))
  show thesis
  proof (cases "response_tx p")
    case None
    with assms w show thesis
      by (intro plain [of w res]) (auto simp: send_socket_message_def split: if_splits sum.splits)
  next
    case (Some i)
    show thesis
    proof (cases "slot_rx (slots c i)")
      case True
      with assms w Some show thesis
        by (intro answered [of i w res])
          (auto simp: send_socket_message_def respond_def slot_send_def Let_def split: if_splits sum.splits)
    next
      case False
      with assms w Some show thesis
        by (intro cancelled [of i w res])
          (auto simp: send_socket_message_def respond_def slot_send_def Let_def split: if_splits sum.splits)
    qed
  qed
qed

lemma resume_case: "resume h st = (case st of Running \<Rightarrow> waiting h | _ \<Rightarrow> Exited st)"
  by (cases h; cases st) auto

lemma after_state_case: "after_state st = (case st of Running \<Rightarrow> AtSelect | _ \<Rightarrow> Exited st)"
  by (cases st) auto

lemma send_job_spec:
  assumes "send_socket_message (reference (logged_runtime R)) pm c = (c', st)"
  shows "work_spec cfg (SendJob pm h) c (resume h st) c'"
proof (cases pm)
  case None
  with assms show ?thesis
    by (auto simp: send_socket_message_def resume_case intro: work_spec.send_nothing)
next
  case (Some p)
  with assms have "send_socket_message (reference (logged_runtime R)) (Some p) c = (c', st)"
    by simp
  then show ?thesis
  proof (cases rule: send_socket_message_cases)
    case (plain w res)
    with Some show ?thesis
      by (auto intro!: work_spec.send_plain simp: unless_err_def resume_case split: sum.splits)
  next
    case (answered w res i)
    with Some show ?thesis
      by (auto intro!: work_spec.send_answered simp: unless_err_def resume_case split: sum.splits)
  next
    case (cancelled w res i)
    with Some show ?thesis
      by (auto intro!: work_spec.send_cancelled simp: resume_case)
  qed
qed

lemma timer_job_spec:
  assumes "send_keepalive (reference (logged_runtime R)) (cfg_message cfg) c = (c', st)"
  shows "work_spec cfg (TimerJob h) c (resume h st) c'"
proof -
  obtain w res where w: "ws_send (logged (ws_ops R)) (ws c) (keepalive_frame cfg)
      = ((w, snd (ws c) @ [Sent (keepalive_frame cfg) res]), res)"
    by (metis surj_pair logged_ops(1))
  with assms have "c' = on_wire w (Sent (keepalive_frame cfg) res) c"
    "st = (case map_err error_from res of Inr u \<Rightarrow> Running | Inl e \<Rightarrow> Error e)"
    by (auto simp: send_keepalive_def keepalive_frame_def Let_def)
  then show ?thesis
    by (auto intro!: work_spec.keepalive [where w = w and res = res] simp: unless_err_def resume_case
        split: sum.splits)
qed

lemma handle_incoming_spec:
  assumes "handle_incoming (reference (logged_runtime R)) item c = (c', State st)"
  shows "work_spec cfg (ReadJob item) c (after_state st) c'"
proof (cases item)
  case None
  with assms show ?thesis by (auto simp: handle_incoming_def intro: work_spec.read_end)
next
  case (Some x)
  show ?thesis
  proof (cases x)
    case (Inl e)
    with assms Some show ?thesis by (auto simp: handle_incoming_def intro: work_spec.read_error)
  next
    case (Inr m)
    show ?thesis
    proof (cases m)
      case (Ping b)
      obtain w res where w: "ws_send (logged (ws_ops R)) (ws c) (Pong pong_bytes)
          = ((w, snd (ws c) @ [Sent (Pong pong_bytes) res]), res)"
        by (metis surj_pair logged_ops(1))
      with assms Some Inr Ping show ?thesis
        by (auto simp: handle_incoming_def unless_err_def
            intro!: work_spec.read_ping [where w = w and b = b and res = res] split: sum.splits)
    next
      case (Close f)
      obtain w res where w: "ws_close (logged (ws_ops R)) (ws c)
          = ((w, snd (ws c) @ [SinkClosed res]), res)"
        by (metis surj_pair logged_ops(2))
      with assms Some Inr Close show ?thesis
        by (auto simp: handle_incoming_def unless_err_def
            intro!: work_spec.read_close [where w = w and f = f and res = res] split: sum.splits)
    qed (use assms Some Inr in \<open>auto simp: handle_incoming_def intro: work_spec.read_pong work_spec.read_frame\<close>)
  qed
qed

lemma handle_incoming_Data:
  assumes "handle_incoming R item c = (c', Data frame)"
  shows "item = Some (Inr frame) \<and> is_data frame \<and> c' = c"
  using assms by (auto simp: handle_incoming_def Let_def split: option.splits sum.splits message.splits prod.splits)

lemma deliver_fast_spec:
  assumes "deliver_fast (reference (logged_runtime R)) m c = (c', r)" and "is_data m"
  shows "work_spec cfg (ReadJob (Some (Inr m))) c (case r of Inr st \<Rightarrow> after_state st | Inl f \<Rightarrow> Holding f) c'"
  using assms
  by (auto simp: deliver_fast_def chan_try_send_def split: if_splits
      intro!: work_spec.read_rx_gone work_spec.read_data work_spec.read_full)

lemma handler_step_spec:
  assumes "handler_step (reference (logged_runtime R)) cfg j c = (c', k')"
  shows "work_spec cfg j c k' c'"
proof (cases j)
  case (SendJob pm h)
  with assms show ?thesis by (auto simp: handler_step_def intro: send_job_spec split: prod.splits)
next
  case (TimerJob h)
  with assms show ?thesis by (auto simp: handler_step_def intro: timer_job_spec split: prod.splits)
next
  case (ReadJob item)
  obtain c1 inc where inc: "handle_incoming (reference (logged_runtime R)) item c = (c1, inc)"
    by (cases "handle_incoming (reference (logged_runtime R)) item c")
  show ?thesis
  proof (cases inc)
    case (State st)
    with inc assms ReadJob show ?thesis by (auto simp: handler_step_def intro: handle_incoming_spec)
  next
    case (Data frame)
    with inc handle_incoming_Data have data: "item = Some (Inr frame)" "is_data frame" "c1 = c"
      by blast+
    obtain r where r: "deliver_fast (reference (logged_runtime R)) frame c = (c', r)"
      and k': "k' = (case r of Inr st \<Rightarrow> after_state st | Inl f \<Rightarrow> Holding f)"
      using assms inc Data data ReadJob by (auto simp: handler_step_def split: prod.splits sum.splits)
    show ?thesis unfolding k' ReadJob data(1) by (rule deliver_fast_spec [OF r data(2)])
  qed
qed

lemma work_step_spec:
  assumes "work_step (reference (logged_runtime R)) cfg k c = Some (c', k')"
  shows "\<exists>j. k = Busy j \<and> work_spec cfg j c k' c'"
  using assms by (cases k) (auto simp: work_step_def intro: handler_step_spec)

lemma select_arm_spec:
  assumes "select_arm (reference (logged_runtime R)) cfg started now a c = Some (c', k')"
  shows "loop_spec cfg a AtSelect c k' c'"
proof (cases a)
  case RecvArm
  with assms show ?thesis
    by (auto simp: select_arm_def chan_recv_def split: list.splits if_splits
        intro!: loop_spec.take_payload loop_spec.handles_gone)
next
  case SleepArm
  with assms show ?thesis
    by (auto simp: select_arm_def split: option.splits if_splits intro!: loop_spec.timer)
next
  case NextArm
  with assms show ?thesis
    by (auto simp: select_arm_def logged_ops split: poll.splits intro!: loop_spec.take_item)
next
  case ReserveArm
  with assms show ?thesis by (simp add: select_arm_def)
qed

lemma backpressure_arm_spec:
  assumes "backpressure_arm (reference (logged_runtime R)) cfg started now a f c = Some (c', k')"
  shows "loop_spec cfg a (Holding f) c k' c'"
proof (cases a)
  case RecvArm
  with assms show ?thesis
    by (auto simp: backpressure_arm_def chan_recv_def split: list.splits if_splits
        intro!: loop_spec.take_payload loop_spec.handles_gone)
next
  case SleepArm
  with assms show ?thesis
    by (auto simp: backpressure_arm_def split: option.splits if_splits intro!: loop_spec.timer)
next
  case ReserveArm
  have "(rx_chan c)\<lparr>reserved := reserved (rx_chan c), buf := xs\<rparr> = (rx_chan c)\<lparr>buf := xs\<rparr>" for xs
    by simp
  with ReserveArm assms show ?thesis
    by (auto simp: backpressure_arm_def chan_reserve_def chan_permit_send_def split: if_splits
        intro!: loop_spec.held_closed loop_spec.deliver_held)
next
  case NextArm
  with assms show ?thesis by (simp add: backpressure_arm_def)
qed

lemma loop_step_spec:
  assumes "loop_step (reference (logged_runtime R)) cfg started now a k c = Some (c', k')"
  shows "loop_spec cfg a k c k' c'"
  using assms
  by (cases k) (auto simp: loop_step_def intro: select_arm_spec backpressure_arm_spec)

end
