(* ===== verification/Sys_Spec.thy ===== *)
theory Sys_Spec
  imports Loop_Spec
begin

text \<open>
  The steps of the whole connection on the reference channels, as a relation with one rule per
  outcome. \<open>exec_spec\<close> proves that \<open>exec\<close> only takes these steps, so an invariant is proved by one
  case analysis over the rules.
\<close>

inductive sys_spec :: "loop_config \<Rightarrow> 'w ref_sys \<Rightarrow> 'w ref_sys \<Rightarrow> bool" for cfg where
  loop:
    "\<lbrakk>loop_spec cfg a (task s) (conn s) k' c'; s' = s\<lparr>conn := c', task := k', sleep_started := clock s\<rparr>\<rbrakk>
     \<Longrightarrow> sys_spec cfg s s'"
| work:
    "\<lbrakk>task s = Busy j; work_spec cfg j (conn s) k' c';
      s' = s\<lparr>conn := c', task := k', sleep_started := clock s\<rparr>\<rbrakk>
     \<Longrightarrow> sys_spec cfg s s'"
| record_error:
    "\<lbrakk>task s = Exited (Error e);
      s' = s\<lparr>conn := (conn s)\<lparr>terminal_error := Some e\<rparr>, task := Recorded (Error e)\<rparr>\<rbrakk>
     \<Longrightarrow> sys_spec cfg s s'"
| record_closed:
    "\<lbrakk>task s = Exited Closed; s' = s\<lparr>task := Recorded Closed\<rparr>\<rbrakk> \<Longrightarrow> sys_spec cfg s s'"
| crash:
    "\<lbrakk>task s = Exited Running; s' = s\<lparr>task := Crashed\<rparr>\<rbrakk> \<Longrightarrow> sys_spec cfg s s'"
| sender_drop:
    "\<lbrakk>task s = Recorded st;
      s' = s\<lparr>conn := (conn s)\<lparr>rx_chan := (rx_chan (conn s))\<lparr>senders := senders (rx_chan (conn s)) - 1\<rparr>\<rparr>,
             task := SenderDropped st\<rparr>\<rbrakk>
     \<Longrightarrow> sys_spec cfg s s'"
| receiver_drop:
    "\<lbrakk>task s = SenderDropped st;
      s' = s\<lparr>conn := (conn s)\<lparr>tx_chan := (tx_chan (conn s))\<lparr>buf := [], rx_alive := False\<rparr>,
               slots := drop_payloads slot_ops (buf (tx_chan (conn s))) (slots (conn s))\<rparr>,
             task := Finished st\<rparr>\<rbrakk>
     \<Longrightarrow> sys_spec cfg s s'"
| tick: "s' = s\<lparr>clock := clock s + d\<rparr> \<Longrightarrow> sys_spec cfg s s'"
| network: "s' = s\<lparr>conn := (conn s)\<lparr>ws := (w, wire s)\<rparr>\<rparr> \<Longrightarrow> sys_spec cfg s s'"
| call_queued:
    "\<lbrakk>calls s i = NotStarted; 0 < tx_handles s; rx_alive (tx_chan (conn s)); has_room (tx_chan (conn s));
      p = \<lparr>payload_message = m, response_tx = Some i\<rparr>;
      s' = s\<lparr>conn := (conn s)\<lparr>slots := (slots (conn s))(i := slot_new),
               tx_chan := (tx_chan (conn s))\<lparr>buf := buf (tx_chan (conn s)) @ [p]\<rparr>\<rparr>,
             calls := (calls s)(i := Awaiting), queued := queued s @ [p]\<rparr>\<rbrakk>
     \<Longrightarrow> sys_spec cfg s s'"
| call_refused:
    "\<lbrakk>calls s i = NotStarted; 0 < tx_handles s; \<not> rx_alive (tx_chan (conn s));
      s' = s\<lparr>conn := (conn s)\<lparr>slots := (slots (conn s))(i := slot_new), terminal_error := None\<rparr>,
             calls := (calls s)(i := Done (Returned (Err (snd (take_terminal_error (conn s)))))), taken := taken s @ drain (conn s)\<rparr>\<rbrakk>
     \<Longrightarrow> sys_spec cfg s s'"
| close_refused:
    "\<lbrakk>calls s i = NotStarted; 0 < tx_handles s; \<not> rx_alive (tx_chan (conn s));
      s' = s\<lparr>conn := (conn s)\<lparr>slots := (slots (conn s))(i := slot_new)\<rparr>,
             calls := (calls s)(i := Done (Returned (Err WebsocketClosed)))\<rparr>\<rbrakk>
     \<Longrightarrow> sys_spec cfg s s'"
| call_answered:
    "\<lbrakk>calls s i = Awaiting; answer (slots (conn s) i) = Some r;
      s' = s\<lparr>conn := (conn s)\<lparr>slots := (slots (conn s))
                 (i := (slots (conn s) i)\<lparr>answer := None, slot_rx := False\<rparr>)\<rparr>,
             calls := (calls s)(i := Done (Returned r))\<rparr>\<rbrakk>
     \<Longrightarrow> sys_spec cfg s s'"
| call_panicked:
    "\<lbrakk>calls s i = Awaiting; answer (slots (conn s) i) = None; \<not> slot_tx (slots (conn s) i);
      s' = s\<lparr>conn := (conn s)\<lparr>slots := (slots (conn s))(i := (slots (conn s) i)\<lparr>slot_rx := False\<rparr>)\<rparr>,
             calls := (calls s)(i := Done Panicked)\<rparr>\<rbrakk>
     \<Longrightarrow> sys_spec cfg s s'"
| call_cancelled:
    "\<lbrakk>calls s i = Awaiting;
      s' = s\<lparr>conn := (conn s)\<lparr>slots := (slots (conn s))(i := (slots (conn s) i)\<lparr>slot_rx := False\<rparr>)\<rparr>,
             calls := (calls s)(i := Cancelled)\<rparr>\<rbrakk>
     \<Longrightarrow> sys_spec cfg s s'"
| plain_queued:
    "\<lbrakk>0 < tx_handles s; rx_alive (tx_chan (conn s)); has_room (tx_chan (conn s));
      p = \<lparr>payload_message = m, response_tx = None\<rparr>;
      s' = s\<lparr>conn := (conn s)\<lparr>tx_chan := (tx_chan (conn s))\<lparr>buf := buf (tx_chan (conn s)) @ [p]\<rparr>\<rparr>,
             queued := queued s @ [p]\<rparr>\<rbrakk>
     \<Longrightarrow> sys_spec cfg s s'"
| plain_refused:
    "\<lbrakk>0 < tx_handles s; \<not> rx_alive (tx_chan (conn s));
      s' = s\<lparr>conn := (conn s)\<lparr>terminal_error := None\<rparr>, taken := taken s @ drain (conn s)\<rparr>\<rbrakk>
     \<Longrightarrow> sys_spec cfg s s'"
| recv_frame:
    "\<lbrakk>rx_handle s; buf (rx_chan (conn s)) = m # ms;
      s' = s\<lparr>conn := (conn s)\<lparr>rx_chan := (rx_chan (conn s))\<lparr>buf := ms\<rparr>\<rparr>,
             delivered := delivered s @ [m]\<rparr>\<rbrakk>
     \<Longrightarrow> sys_spec cfg s s'"
| recv_end:
    "\<lbrakk>rx_handle s; buf (rx_chan (conn s)) = []; senders (rx_chan (conn s)) = 0;
      s' = s\<lparr>conn := (conn s)\<lparr>terminal_error := None\<rparr>, taken := taken s @ drain (conn s)\<rparr>\<rbrakk>
     \<Longrightarrow> sys_spec cfg s s'"
| joined:
    "\<lbrakk>finished (task s);
      s' = s\<lparr>conn := (conn s)\<lparr>terminal_error := None\<rparr>, taken := taken s @ drain (conn s)\<rparr>\<rbrakk>
     \<Longrightarrow> sys_spec cfg s s'"
| tx_cloned:
    "\<lbrakk>0 < tx_handles s;
      s' = s\<lparr>conn := (conn s)\<lparr>tx_chan := (tx_chan (conn s))\<lparr>senders := Suc (senders (tx_chan (conn s)))\<rparr>\<rparr>,
             tx_handles := Suc (tx_handles s)\<rparr>\<rbrakk>
     \<Longrightarrow> sys_spec cfg s s'"
| tx_dropped:
    "\<lbrakk>0 < tx_handles s;
      s' = s\<lparr>conn := (conn s)\<lparr>tx_chan := (tx_chan (conn s))\<lparr>senders := senders (tx_chan (conn s)) - 1\<rparr>\<rparr>,
             tx_handles := tx_handles s - 1\<rparr>\<rbrakk>
     \<Longrightarrow> sys_spec cfg s s'"
| rx_dropped:
    "\<lbrakk>rx_handle s;
      s' = s\<lparr>conn := (conn s)\<lparr>rx_chan := (rx_chan (conn s))\<lparr>buf := [], rx_alive := False\<rparr>\<rparr>,
             rx_handle := False\<rparr>\<rbrakk>
     \<Longrightarrow> sys_spec cfg s s'"

lemma exec_spec:
  assumes "exec (reference R) cfg a s = Some s'"
  shows "sys_spec cfg s s'"
proof (cases a)
  case (Loop arm)
  with assms show ?thesis
    by (auto simp: reference_logged split: option.splits prod.splits
        intro!: sys_spec.loop loop_step_spec)
next
  case Work
  with assms show ?thesis
    by (auto simp: reference_logged split: option.splits prod.splits
        intro: sys_spec.work dest!: work_step_spec)
next
  case Exit
  show ?thesis
  proof (cases "task s")
    case (Exited st)
    with Exit assms show ?thesis
      by (cases st) (auto simp: exit_step_def record_terminal_def
          intro: sys_spec.record_error sys_spec.record_closed sys_spec.crash)
  qed (use Exit assms in \<open>auto simp: exit_step_def drop_sender_def drop_receiver_def
      chan_drop_tx_def chan_drop_rx_def reference_logged
      intro: sys_spec.sender_drop sys_spec.receiver_drop\<close>)
next
  case (SendConfirmed i m)
  with assms show ?thesis
    by (auto simp: start_call_def send_confirmed_def chan_send_def Let_def
        take_terminal_error_def take_terminal_error_opt_def reference_logged
        split: if_splits intro: sys_spec.call_queued sys_spec.call_refused)
next
  case (SendClose i)
  with assms show ?thesis
    by (auto simp: start_call_def send_close_def chan_send_def Let_def reference_logged
        split: if_splits intro: sys_spec.call_queued sys_spec.close_refused)
next
  case (Await i)
  with assms show ?thesis
    by (auto simp: await_response_def slot_recv_def reference_logged
        split: if_splits option.splits intro: sys_spec.call_answered sys_spec.call_panicked)
next
  case (Cancel i)
  with assms show ?thesis
    by (auto simp: slot_drop_rx_def split: if_splits intro: sys_spec.call_cancelled)
next
  case (SendUnconfirmed m)
  with assms show ?thesis
    by (auto simp: send_unconfirmed_def chan_send_def Let_def reference_logged
        take_terminal_error_def take_terminal_error_opt_def
        split: if_splits intro: sys_spec.plain_queued sys_spec.plain_refused)
next
  case Recv
  with assms show ?thesis
    by (auto simp: recv_raw_def chan_recv_def Let_def reference_logged
        take_terminal_error_def take_terminal_error_opt_def
        split: if_splits list.splits intro: sys_spec.recv_frame sys_spec.recv_end)
next
  case PollRecv
  with assms show ?thesis
    by (auto simp: poll_recv_raw_def chan_recv_def Let_def reference_logged
        take_terminal_error_opt_def
        split: if_splits list.splits option.splits intro: sys_spec.recv_frame sys_spec.recv_end)
next
  case DropRx
  with assms show ?thesis
    by (auto simp: chan_drop_rx_def split: if_splits intro: sys_spec.rx_dropped)
qed (use assms in \<open>auto simp: chan_clone_tx_def chan_drop_tx_def take_terminal_error_opt_def split: if_splits task.splits
      intro: sys_spec.joined sys_spec.tick sys_spec.network sys_spec.tx_cloned sys_spec.tx_dropped\<close>)

text \<open>Reachable states of the reference system, by rule induction over the relation.\<close>

lemma init_sys_reference:
  assumes "init_sys (reference R) n w = Some s"
  shows "0 < n \<and> s = \<lparr>conn = \<lparr>tx_chan = \<lparr>buf = [], cap = n, reserved = 0, senders = 1, rx_alive = True\<rparr>,
      rx_chan = \<lparr>buf = [], cap = n, reserved = 0, senders = 1, rx_alive = True\<rparr>,
      slots = (\<lambda>_. slot_new), ws = (w, []), terminal_error = None\<rparr>,
    task = AtSelect, clock = 0, sleep_started = 0, calls = (\<lambda>_. NotStarted),
    tx_handles = 1, rx_handle = True, queued = [], delivered = [], taken = []\<rparr>"
  using assms by (auto simp: init_sys_def init_conn_def chan_new_def split: if_splits)

lemma reachable_induct_spec [consumes 1, case_names init step]:
  assumes "reachable (reference R) cfg n s"
    and "\<And>w s. \<lbrakk>init_sys (reference R) n w = Some s\<rbrakk> \<Longrightarrow> P s"
    and "\<And>s s'. \<lbrakk>reachable (reference R) cfg n s; P s; sys_spec cfg s s'\<rbrakk> \<Longrightarrow> P s'"
  shows "P s"
  using assms(1) by (induction rule: reachable.induct) (auto intro: assms(2,3) exec_spec)

end
