(* ===== verification/Invariants.thy ===== *)
theory Invariants
  imports Sys_Spec
begin

text \<open>
  Invariants of a connection on the reference channels: the shape of the channels, the inbound
  path (nothing lost, duplicated or reordered), the terminal error (recorded before anyone can see
  the channels closed, taken at most once), and the answered pings. Each is kept by every step of
  \<open>sys_spec\<close> and so holds in every reachable state. The outbound path has a theory of its own.
\<close>

section \<open>Shape of the channels\<close>

definition shape_inv :: "nat \<Rightarrow> 'w ref_sys \<Rightarrow> bool" where
  "shape_inv n s \<longleftrightarrow>
     0 < n
     \<and> cap (tx_chan (conn s)) = n \<and> cap (rx_chan (conn s)) = n
     \<and> reserved (tx_chan (conn s)) = 0 \<and> reserved (rx_chan (conn s)) = 0
     \<and> length (buf (tx_chan (conn s))) \<le> n \<and> length (buf (rx_chan (conn s))) \<le> n
     \<and> senders (tx_chan (conn s)) = tx_handles s
     \<and> senders (rx_chan (conn s)) = (if sender_dropped (task s) then 0 else 1)
     \<and> (rx_alive (tx_chan (conn s)) \<longleftrightarrow> \<not> finished (task s))
     \<and> (rx_alive (rx_chan (conn s)) \<longleftrightarrow> rx_handle s)
     \<and> (finished (task s) \<longrightarrow> buf (tx_chan (conn s)) = [])
     \<and> (\<not> rx_handle s \<longrightarrow> buf (rx_chan (conn s)) = [])"

lemma task_cases_simps [simp]:
  "inflight (unless_err res st k) = (if res = Inr () then inflight k else [])"
  "\<not> sender_dropped (unless_err res st k) \<longleftrightarrow> \<not> (res = Inr () \<and> sender_dropped k)"
  "finished (unless_err res st k) \<longleftrightarrow> res = Inr () \<and> finished k"
  "recorded_state (unless_err res st k) = (if res = Inr () then recorded_state k else None)"
  "held (unless_err res st k) = (if res = Inr () then held k else [])"
  "active (unless_err res st k) \<longleftrightarrow> res = Inr () \<and> active k"
  by (auto simp: unless_err_def split: sum.splits)

lemma active_facts [simp]:
  "active k \<Longrightarrow> \<not> sender_dropped k" "active k \<Longrightarrow> \<not> finished k" "active k \<Longrightarrow> recorded_state k = None"
  by (cases k; simp)+

lemma shape_inv_loop:
  assumes "loop_spec cfg a (task s) (conn s) k' c'" and "shape_inv n s"
  shows "shape_inv n (s\<lparr>conn := c', task := k', sleep_started := t\<rparr>)"
  using assms(1)
  by cases (use assms(2) in \<open>auto simp: shape_inv_def has_room_def\<close>)

lemma shape_inv_work:
  assumes "work_spec cfg j (conn s) k' c'" and "task s = Busy j" and "shape_inv n s"
  shows "shape_inv n (s\<lparr>conn := c', task := k', sleep_started := t\<rparr>)"
  using assms(1)
  by cases (use assms(2,3) in \<open>auto simp: shape_inv_def has_room_def\<close>)

lemma shape_inv_step: "sys_spec cfg s s' \<Longrightarrow> shape_inv n s \<Longrightarrow> shape_inv n s'"
proof (induction rule: sys_spec.induct)
  case (loop a s k' c' s')
  then show ?case using shape_inv_loop by blast
next
  case (work s j k' c' s')
  then show ?case using shape_inv_work by blast
qed (auto simp: shape_inv_def has_room_def)

lemma reachable_shape:
  assumes "reachable (reference R) cfg n s"
  shows "shape_inv n s"
  using assms
proof (induction rule: reachable_induct_spec)
  case (init w s)
  then show ?case by (auto dest!: init_sys_reference simp: shape_inv_def)
next
  case (step s s')
  then show ?case by (blast intro: shape_inv_step)
qed

lemma inactive_inflight: "\<not> active k \<Longrightarrow> inflight k = []"
  by (cases k) auto

lemma finished_inflight: "finished k \<Longrightarrow> inflight k = []"
  by (cases k) auto

section \<open>The inbound path\<close>

text \<open>
  Data frames are read off the stream in the order in which they are handed to the consumer, then
  those still queued, then the one the task has in hand. A frame read but given up (\<open>lost\<close>) exists only once the
  loop has left, and there is at most one.
\<close>

definition inbound_inv :: "'w ref_sys \<Rightarrow> bool" where
  "inbound_inv s \<longleftrightarrow>
     (\<exists>rest. data_frames (wire s) = delivered s @ rest
        \<and> (rx_handle s \<longrightarrow>
             (\<exists>lost. rest = buf (rx_chan (conn s)) @ held (task s) @ lost
                \<and> length lost \<le> 1 \<and> (active (task s) \<longrightarrow> lost = []))))"

lemma inbound_invI:
  "data_frames (wire s) = delivered s @ buf (rx_chan (conn s)) @ held (task s) @ lost
   \<Longrightarrow> length lost \<le> 1 \<Longrightarrow> (active (task s) \<Longrightarrow> lost = []) \<Longrightarrow> inbound_inv s"
  unfolding inbound_inv_def by blast

lemma inbound_inv_gone:
  "data_frames (wire s) = delivered s @ rest \<Longrightarrow> \<not> rx_handle s \<Longrightarrow> inbound_inv s"
  unfolding inbound_inv_def by blast

lemma inbound_invE:
  assumes "inbound_inv s"
  obtains (here) lost where "rx_handle s"
      "data_frames (wire s) = delivered s @ buf (rx_chan (conn s)) @ held (task s) @ lost"
      "length lost \<le> 1" "active (task s) \<Longrightarrow> lost = []"
  | (gone) rest where "\<not> rx_handle s" "data_frames (wire s) = delivered s @ rest"
  using assms unfolding inbound_inv_def by blast

lemma data_of_unfolds [simp]:
  "data_of (Sent m r) = []" "data_of (SinkClosed r) = []" "data_of (Received None) = []"
  "data_of (Received (Some (Inl e))) = []"
  "data_of (Received (Some (Inr m))) = (if is_data m then [m] else [])"
  by simp_all

lemma frame_list_length: "length (frame_list h) \<le> 1"
  by (cases h) auto

lemma job_frames_length: "length (job_frames j) \<le> 1"
  by (induction j rule: job_frames.induct) (auto simp: frame_list_length [simplified])

lemma held_length: "length (held k) \<le> 1"
  by (cases k) (auto simp: job_frames_length [simplified])

lemma held_inactive: "\<not> active k \<Longrightarrow> held k = []"
  by (cases k) auto

lemma loop_selecting: "loop_spec cfg a k c k' c' \<Longrightarrow> selecting k"
  by (cases rule: loop_spec.cases) auto

lemma loop_active: "loop_spec cfg a k c k' c' \<Longrightarrow> active k"
  by (rule selecting_active [OF loop_selecting])

lemma data_of_Received: "data_of (Received x) = job_frames (ReadJob x)"
  by (cases "ReadJob x" rule: job_frames.cases) auto

text \<open>
  What a step of the task does to the inbound path: the frames read are those queued and in hand
  before, plus at most the one that is new.
\<close>

definition inbound_step :: "task \<Rightarrow> 'w logged_conn \<Rightarrow> task \<Rightarrow> 'w logged_conn \<Rightarrow> bool" where
  "inbound_step k c k' c' \<longleftrightarrow>
     (\<exists>new lost. data_frames (snd (ws c')) = data_frames (snd (ws c)) @ new
        \<and> buf (rx_chan c) @ held k @ new = buf (rx_chan c') @ held k' @ lost
        \<and> length lost \<le> 1 \<and> (active k' \<longrightarrow> lost = []))"

lemma inbound_stepI:
  assumes "data_frames (snd (ws c')) = data_frames (snd (ws c)) @ new"
    and "buf (rx_chan c) @ held k @ new = buf (rx_chan c') @ held k'"
  shows "inbound_step k c k' c'"
  unfolding inbound_step_def using assms by (intro exI [where x = new] exI [where x = "[]"]) simp

lemma inbound_step_same:
  assumes "data_frames (snd (ws c')) = data_frames (snd (ws c))" and "rx_chan c' = rx_chan c"
    and "held k' = held k \<or> held k' = [] \<and> \<not> active k'"
  shows "inbound_step k c k' c'"
  using assms held_length [of k] unfolding inbound_step_def
  by (auto intro: exI [where x = "[]"] exI [where x = "held k"])

lemma loop_inbound: "loop_spec cfg a k c k' c' \<Longrightarrow> inbound_step k c k' c'"
proof (induction rule: loop_spec.induct)
  case (take_item c' w x c)
  then show ?case
    by (intro inbound_stepI [where new = "job_frames (ReadJob x)"]) (simp_all add: data_of_Received del: job_frames.simps)
qed (auto intro: inbound_step_same inbound_stepI)

lemma work_inbound: "work_spec cfg j c k' c' \<Longrightarrow> inbound_step (Busy j) c k' c'"
proof (induction rule: work_spec.induct)
  case (read_data m c c')
  then show ?case by (intro inbound_stepI [where new = "[]"]) simp_all
qed (auto intro!: inbound_step_same split: if_splits)

lemma inbound_inv_task:
  assumes "inbound_step (task s) (conn s) k' c'" and "active (task s)" and "inbound_inv s"
  shows "inbound_inv (s\<lparr>conn := c', task := k', sleep_started := t\<rparr>)"
  using assms(3)
proof (cases rule: inbound_invE)
  case (here lost)
  with assms(1,2) show ?thesis by (auto simp: inbound_inv_def inbound_step_def)
next
  case (gone rest)
  with assms(1) show ?thesis by (auto simp: inbound_inv_def inbound_step_def)
qed

lemma inbound_inv_step: "sys_spec cfg s s' \<Longrightarrow> inbound_inv s \<Longrightarrow> inbound_inv s'"
proof (induction rule: sys_spec.induct)
  case (loop a s k' c' s')
  then show ?case using inbound_inv_task [OF loop_inbound loop_active] by blast
next
  case (work s j k' c' s')
  then show ?case using inbound_inv_task work_inbound by (metis active.simps(1))
qed (auto simp: inbound_inv_def)

lemma reachable_inbound:
  assumes "reachable (reference R) cfg n s"
  shows "inbound_inv s"
  using assms
proof (induction rule: reachable_induct_spec)
  case (init w s)
  then show ?case by (auto dest!: init_sys_reference simp: inbound_inv_def)
next
  case (step s s')
  then show ?case by (blast intro: inbound_inv_step)
qed

section \<open>The terminal error\<close>

text \<open>
  Nothing is recorded or taken before the loop has left. Afterwards the cause it left with is in the
  slot until it is taken, once; a graceful close leaves nothing to take. The \<open>unreachable!\<close> after
  the main loop is not reached.
\<close>

definition terminal_inv :: "'w ref_sys \<Rightarrow> bool" where
  "terminal_inv s \<longleftrightarrow>
     task s \<noteq> Crashed \<and> task s \<noteq> Exited Running
     \<and> (case recorded_state (task s) of
          None \<Rightarrow> terminal_error (conn s) = None \<and> taken s = []
        | Some Running \<Rightarrow> False
        | Some Closed \<Rightarrow> terminal_error (conn s) = None \<and> taken s = []
        | Some (Error e) \<Rightarrow> taken s @ drain (conn s) = [e])"

lemma drain_simps [simp]:
  "drain (c\<lparr>terminal_error := None\<rparr>) = []" "drain (c\<lparr>terminal_error := Some e\<rparr>) = [e]"
  "drain (c\<lparr>tx_chan := t\<rparr>) = drain c" "drain (c\<lparr>rx_chan := r\<rparr>) = drain c"
  "drain (c\<lparr>slots := sl\<rparr>) = drain c" "drain (c\<lparr>ws := w\<rparr>) = drain c"
  by (simp_all add: drain_def)

lemma unless_err_not:
  "unless_err res st k = Exited Running \<Longrightarrow> k \<noteq> Exited Running \<Longrightarrow> (\<And>e. st e \<noteq> Running) \<Longrightarrow> False"
  "unless_err res st k = Crashed \<Longrightarrow> k \<noteq> Crashed \<Longrightarrow> False"
  by (auto simp: unless_err_def split: sum.splits)

lemma loop_terminal:
  assumes "loop_spec cfg a k c k' c'"
  shows "recorded_state k' = None" and "terminal_error c' = terminal_error c"
    and "k' \<noteq> Crashed" and "k' \<noteq> Exited Running"
  using assms by (cases; auto dest!: unless_err_not)+

lemma work_terminal:
  assumes "work_spec cfg j c k' c'"
  shows "recorded_state k' = None" and "terminal_error c' = terminal_error c"
    and "k' \<noteq> Crashed" and "k' \<noteq> Exited Running"
  using assms by (cases; auto dest!: unless_err_not)+

lemma dropped_recorded:
  "sender_dropped k \<Longrightarrow> \<exists>st. recorded_state k = Some st"
  "finished k \<Longrightarrow> \<exists>st. recorded_state k = Some st"
  by (cases k; simp)+

lemma closed_recorded:
  assumes "shape_inv n s" and "\<not> rx_alive (tx_chan (conn s)) \<or> senders (rx_chan (conn s)) = 0"
  shows "recorded_state (task s) \<noteq> None"
  using assms by (auto simp: shape_inv_def dest: dropped_recorded split: if_splits)

lemma terminal_inv_taken:
  assumes "terminal_inv s" and "recorded_state (task s) \<noteq> None"
    and "task s' = task s" "terminal_error (conn s') = None" "taken s' = taken s @ drain (conn s)"
  shows "terminal_inv s'"
  using assms by (auto simp: terminal_inv_def drain_def split: loop_state.splits option.splits)

lemma terminal_inv_step: "sys_spec cfg s s' \<Longrightarrow> terminal_inv s \<Longrightarrow> shape_inv n s \<Longrightarrow> terminal_inv s'"
proof (induction rule: sys_spec.induct)
  case (loop a s k' c' s')
  then show ?case
    using loop_terminal [OF loop.hyps(1)] loop_active [OF loop.hyps(1)]
    by (simp add: terminal_inv_def)
next
  case (work s j k' c' s')
  then show ?case
    using work_terminal [OF work.hyps(2)] by (simp add: terminal_inv_def)
next
  case (call_refused s i s')
  then show ?case using closed_recorded [of n s] terminal_inv_taken [of s s'] by simp
next
  case (plain_refused s s')
  then show ?case using closed_recorded [of n s] terminal_inv_taken [of s s'] by simp
next
  case (recv_end s s')
  then show ?case using closed_recorded [of n s] terminal_inv_taken [of s s'] by simp
next
  case (joined s s')
  with dropped_recorded(2) [OF joined.hyps(1)] show ?case using terminal_inv_taken [of s s'] by auto
qed (auto simp: terminal_inv_def split: option.splits loop_state.splits)

lemma reachable_terminal:
  assumes "reachable (reference R) cfg n s"
  shows "terminal_inv s"
  using assms
proof (induction rule: reachable_induct_spec)
  case (init w s)
  then show ?case by (auto dest!: init_sys_reference simp: terminal_inv_def)
next
  case (step s s')
  then show ?case by (blast intro: terminal_inv_step reachable_shape)
qed

section \<open>Pings and the timer\<close>

text \<open>Every ping read off the stream is answered by the very next operation on the socket.\<close>

definition pings_answered :: "wire_event list \<Rightarrow> bool" where
  "pings_answered l \<longleftrightarrow>
     (\<forall>k < length l. \<forall>b. l ! k = Received (Some (Inr (Ping b)))
        \<longrightarrow> Suc k < length l \<and> (\<exists>r. l ! Suc k = Sent (Pong pong_bytes) r))"

lemma pings_answered_Nil: "pings_answered []"
  by (simp add: pings_answered_def)

lemma pings_answered_snoc:
  assumes "pings_answered l" and "\<And>b. ev \<noteq> Received (Some (Inr (Ping b)))"
  shows "pings_answered (l @ [ev])"
  unfolding pings_answered_def
proof (intro allI impI)
  fix k b
  assume k: "k < length (l @ [ev])" and ping: "(l @ [ev]) ! k = Received (Some (Inr (Ping b)))"
  with assms(2) have "k < length l"
    by (cases "k = length l") auto
  with ping assms(1) have "Suc k < length l \<and> (\<exists>r. l ! Suc k = Sent (Pong pong_bytes) r)"
    by (simp add: pings_answered_def nth_append)
  then show "Suc k < length (l @ [ev]) \<and> (\<exists>r. (l @ [ev]) ! Suc k = Sent (Pong pong_bytes) r)"
    by (auto simp: nth_append)
qed

text \<open>
  The ping whose pong is being sent is the last event; whatever the loop does then is the answer.
\<close>

fun pending_ping :: "task \<Rightarrow> wire_event list" where
  "pending_ping (Busy (ReadJob (Some (Inr (Ping b))))) = [Received (Some (Inr (Ping b)))]"
| "pending_ping _ = []"

lemma pending_ping_simps [simp]:
  "pending_ping (waiting h) = []" "pending_ping (unless_err res st k) = (if res = Inr () then pending_ping k else [])"
  by (cases h; simp) (auto simp: unless_err_def split: sum.splits)

definition pings_inv :: "task \<Rightarrow> wire_event list \<Rightarrow> bool" where
  "pings_inv k l \<longleftrightarrow> (\<exists>old. l = old @ pending_ping k \<and> pings_answered old)"

lemma pings_inv_idle: "pending_ping k = [] \<Longrightarrow> pings_inv k l \<longleftrightarrow> pings_answered l"
  by (simp add: pings_inv_def)

lemma pings_answered_pong:
  assumes "pings_answered l"
  shows "pings_answered (l @ [Received (Some (Inr (Ping b))), Sent (Pong pong_bytes) r])"
  unfolding pings_answered_def
proof (intro allI impI)
  let ?l = "l @ [Received (Some (Inr (Ping b))), Sent (Pong pong_bytes) r]"
  fix k b'
  assume k: "k < length ?l" and ping: "?l ! k = Received (Some (Inr (Ping b')))"
  then consider "k < length l" | "k = length l" | "k = Suc (length l)" by fastforce
  then show "Suc k < length ?l \<and> (\<exists>r. ?l ! Suc k = Sent (Pong pong_bytes) r)"
  proof cases
    case 1
    with ping assms have "Suc k < length l \<and> (\<exists>r. l ! Suc k = Sent (Pong pong_bytes) r)"
      by (simp add: pings_answered_def nth_append)
    then show ?thesis by (auto simp: nth_append)
  qed (use ping in \<open>auto simp: nth_append\<close>)
qed

lemma pings_inv_loop:
  assumes "loop_spec cfg a k c k' c'" and "pings_inv k (snd (ws c))"
  shows "pings_inv k' (snd (ws c'))"
  using assms(1)
proof (cases rule: loop_spec.cases)
  case (take_item w x)
  with assms(2) have before: "pings_answered (snd (ws c))" by (simp add: pings_inv_def)
  show ?thesis
  proof (cases "\<exists>b. x = Some (Inr (Ping b))")
    case True
    with take_item before show ?thesis by (auto simp: pings_inv_def)
  next
    case False
    then have "pending_ping (Busy (ReadJob x)) = []"
      by (cases "Busy (ReadJob x)" rule: pending_ping.cases) auto
    with take_item before False show ?thesis by (auto simp: pings_inv_idle intro!: pings_answered_snoc)
  qed
qed (use assms(2) in \<open>auto simp: pings_inv_def\<close>)

lemma pings_inv_work:
  assumes "work_spec cfg j c k' c'" and "pings_inv (Busy j) (snd (ws c))"
  shows "pings_inv k' (snd (ws c'))"
  using assms(1)
proof (cases rule: work_spec.cases)
  case (read_ping w res b)
  with assms(2) show ?thesis by (auto simp: pings_inv_def dest: pings_answered_pong)
next
  case (read_data m)
  with assms(2) show ?thesis by (cases m) (auto simp: pings_inv_def)
next
  case (read_full m)
  with assms(2) show ?thesis by (cases m) (auto simp: pings_inv_def)
next
  case (read_rx_gone m)
  with assms(2) show ?thesis by (cases m) (auto simp: pings_inv_def)
qed (use assms(2) in \<open>auto simp: pings_inv_def intro!: pings_answered_snoc\<close>)

definition ping_inv :: "'w ref_sys \<Rightarrow> bool" where
  "ping_inv s \<longleftrightarrow> pings_inv (task s) (wire s) \<and> sleep_started s \<le> clock s"

lemma ping_inv_step: "sys_spec cfg s s' \<Longrightarrow> ping_inv s \<Longrightarrow> ping_inv s'"
  by (induction rule: sys_spec.induct) (auto simp: ping_inv_def pings_inv_idle intro: pings_inv_loop pings_inv_work)

lemma reachable_ping:
  assumes "reachable (reference R) cfg n s"
  shows "ping_inv s"
  using assms
proof (induction rule: reachable_induct_spec)
  case (init w s)
  then show ?case by (auto dest!: init_sys_reference simp: ping_inv_def pings_inv_idle pings_answered_Nil)
next
  case (step s s')
  then show ?case by (blast intro: ping_inv_step)
qed

end
