(* ===== verification/Outbound.thy ===== *)
theory Outbound
  imports Invariants
begin

text \<open>
  The outbound path: every queued payload is, in the order of the queue, first offered to the socket
  (with an outcome), being offered by the task, still queued, or dropped with the queue when the loop
  ended. What the socket
  was offered is an interleaving of these payloads with the loop's own control frames. The answer a
  confirmed call gets is the outcome of its own payload.
\<close>

section \<open>The invariant\<close>

definition ids :: "payload list \<Rightarrow> nat list" where
  "ids ps = concat (map (\<lambda>p. case response_tx p of Some i \<Rightarrow> [i] | None \<Rightarrow> []) ps)"

lemma ids_simps [simp]:
  "ids [] = []" "ids (p # ps) = (case response_tx p of Some i \<Rightarrow> i # ids ps | None \<Rightarrow> ids ps)"
  "ids (ps @ qs) = ids ps @ ids qs"
  by (auto simp: ids_def split: option.split)

lemma ids_set: "i \<in> set (ids ps) \<longleftrightarrow> (\<exists>p \<in> set ps. response_tx p = Some i)"
  by (induction ps) (auto split: option.splits)

definition control_frames :: "loop_config \<Rightarrow> message set" where
  "control_frames cfg = {Pong pong_bytes, keepalive_frame cfg}"

text \<open>The outcome of call \<open>i\<close>'s payload, in the list of payloads offered to the socket.\<close>

definition outcome_of :: "(payload \<times> (unit, ws_error) result) list \<Rightarrow> nat \<Rightarrow> reply \<Rightarrow> bool" where
  "outcome_of outs i r \<longleftrightarrow>
     (\<exists>p res. (p, res) \<in> set outs \<and> response_tx p = Some i \<and> r = map_err error_from res)"

lemma outcome_of_snoc:
  "outcome_of (outs @ [(p, res)]) i r \<longleftrightarrow>
     outcome_of outs i r \<or> (response_tx p = Some i \<and> r = map_err error_from res)"
  by (auto simp: outcome_of_def)

definition sent_pairs ::
  "(payload \<times> (unit, ws_error) result) list \<Rightarrow> (message \<times> (unit, ws_error) result) list" where
  "sent_pairs outs = map (\<lambda>(p, res). (payload_message p, res)) outs"

lemma sent_pairs_snoc [simp]:
  "sent_pairs [] = []"
  "sent_pairs (outs @ [(p, res)]) = sent_pairs outs @ [(payload_message p, res)]"
  by (simp_all add: sent_pairs_def)

text \<open>The payloads not offered yet: the one the task has taken off the queue, and those in it.\<close>

abbreviation unsent :: "'w ref_sys \<Rightarrow> payload list" where
  "unsent s \<equiv> inflight (task s) @ buf (tx_chan (conn s))"

text \<open>The wire: what was queued went out in order, interleaved with control frames only.\<close>

definition wire_rel ::
  "loop_config \<Rightarrow> 'w ref_sys \<Rightarrow> (payload \<times> (unit, ws_error) result) list
    \<Rightarrow> (message \<times> (unit, ws_error) result) list \<Rightarrow> payload list \<Rightarrow> bool" where
  "wire_rel cfg s outs ctrl dropped \<longleftrightarrow>
     queued s = map fst outs @ unsent s @ dropped
     \<and> (dropped \<noteq> [] \<longrightarrow> finished (task s))
     \<and> sends (wire s) \<in> shuffles (sent_pairs outs) ctrl
     \<and> fst ` set ctrl \<subseteq> control_frames cfg"

text \<open>
  One call: its stage, its one-shot, whether its payload is still queued, was dropped, was queued at
  all, and what outcome it had if it was offered to the socket.
\<close>

definition call_rel ::
  "call \<Rightarrow> reply slot \<Rightarrow> bool \<Rightarrow> bool \<Rightarrow> bool \<Rightarrow> (reply \<Rightarrow> bool) \<Rightarrow> bool" where
  "call_rel k sl pending drp known outcome \<longleftrightarrow>
     (k = NotStarted \<longrightarrow> \<not> known)
     \<and> (pending \<longrightarrow> (k = Awaiting \<or> k = Cancelled) \<and> slot_tx sl \<and> answer sl = None)
     \<and> (k = Awaiting \<longrightarrow>
            slot_rx sl \<and> (pending \<or> answer sl \<noteq> None \<or> \<not> slot_tx sl \<and> drp))
     \<and> (k = Cancelled \<longrightarrow> \<not> slot_rx sl)
     \<and> (\<forall>r. answer sl = Some r \<longrightarrow> outcome r)
     \<and> (\<forall>r. k = Done (Returned r) \<longrightarrow> outcome r \<or> is_err r \<and> \<not> known)
     \<and> (k = Done Panicked \<longrightarrow> drp)"

definition calls_rel ::
  "'w ref_sys \<Rightarrow> (payload \<times> (unit, ws_error) result) list \<Rightarrow> payload list \<Rightarrow> bool" where
  "calls_rel s outs dropped \<longleftrightarrow>
     distinct (ids (queued s))
     \<and> (\<forall>i. call_rel (calls s i) (slots (conn s) i) (i \<in> set (ids (unsent s)))
              (i \<in> set (ids dropped)) (i \<in> set (ids (queued s))) (outcome_of outs i))"

definition outbound_inv :: "loop_config \<Rightarrow> 'w ref_sys \<Rightarrow> bool" where
  "outbound_inv cfg s \<longleftrightarrow>
     (\<exists>outs ctrl dropped. wire_rel cfg s outs ctrl dropped \<and> calls_rel s outs dropped)"

section \<open>The steps of the loop\<close>

definition settle :: "payload \<Rightarrow> (unit, ws_error) result \<Rightarrow> (nat \<Rightarrow> reply slot) \<Rightarrow> (nat \<Rightarrow> reply slot)" where
  "settle p res sl =
     (case response_tx p of
        None \<Rightarrow> sl
      | Some i \<Rightarrow> sl(i := if slot_rx (sl i)
                          then (sl i)\<lparr>answer := Some (map_err error_from res), slot_tx := False\<rparr>
                          else (sl i)\<lparr>slot_tx := False\<rparr>))"

lemma loop_outbound:
  assumes "loop_spec cfg a k c k' c'"
  shows "inflight k' @ buf (tx_chan c') = inflight k @ buf (tx_chan c)" and "slots c' = slots c"
    and "sends (snd (ws c')) = sends (snd (ws c))"
  using assms by (cases rule: loop_spec.cases; simp)+

lemma work_outbound:
  assumes "work_spec cfg j c k' c'"
  obtains
    (quiet) "inflight (Busy j) = []" "inflight k' = []" "tx_chan c' = tx_chan c" "slots c' = slots c"
      "sends (snd (ws c')) = sends (snd (ws c))"
  | (control) m res where "inflight (Busy j) = []" "inflight k' = []" "tx_chan c' = tx_chan c" "slots c' = slots c"
      "sends (snd (ws c')) = sends (snd (ws c)) @ [(m, res)]" "m \<in> control_frames cfg"
  | (payload) p res where "inflight (Busy j) = [p]" "inflight k' = []" "tx_chan c' = tx_chan c"
      "slots c' = settle p res (slots c)"
      "sends (snd (ws c')) = sends (snd (ws c)) @ [(payload_message p, res)]"
  using assms
proof (cases rule: work_spec.cases)
  case (send_plain p w res h)
  then show thesis by (intro payload [of p res]) (auto simp: settle_def)
next
  case (send_answered p i w res h)
  then show thesis by (intro payload [of p res]) (auto simp: settle_def)
next
  case (send_cancelled p i w res h)
  then show thesis by (intro payload [of p res]) (auto simp: settle_def)
next
  case (keepalive w res h)
  then show thesis by (intro control [of "keepalive_frame cfg" res]) (auto simp: control_frames_def)
next
  case (read_ping w res b)
  then show thesis by (intro control [of "Pong pong_bytes" res]) (auto simp: control_frames_def)
qed (auto intro: quiet)

lemma wire_rel_payload:
  assumes "wire_rel cfg s outs ctrl []" and "inflight (task s) = [p]" and "inflight k' = []"
    and "tx_chan c' = tx_chan (conn s)" and "sends (snd (ws c')) = sends (wire s) @ [(payload_message p, res)]"
  shows "wire_rel cfg (s\<lparr>conn := c', task := k', sleep_started := t\<rparr>) (outs @ [(p, res)]) ctrl []"
  using assms by (auto simp: wire_rel_def intro: shuffles_snoc_left)

lemma call_rel_settled:
  assumes "call_rel k sl True False known out" and "out' = (\<lambda>r. out r \<or> r = map_err error_from res)"
  shows "call_rel k (if slot_rx sl then sl\<lparr>answer := Some (map_err error_from res), slot_tx := False\<rparr>
                     else sl\<lparr>slot_tx := False\<rparr>) False False known out'"
  using assms by (auto simp: call_rel_def)

lemma calls_rel_payload:
  assumes rel: "calls_rel s outs []" and "wire_rel cfg s outs ctrl []"
    and task: "inflight (task s) = [p]" "inflight k' = []" "tx_chan c' = tx_chan (conn s)"
    and slots: "slots c' = settle p res (slots (conn s))"
  shows "calls_rel (s\<lparr>conn := c', task := k', sleep_started := t\<rparr>) (outs @ [(p, res)]) []"
proof -
  let ?ps = "buf (tx_chan (conn s))"
  have "distinct (ids (p # ?ps))"
    using assms by (simp add: calls_rel_def wire_rel_def)
  then have own: "response_tx p = Some i \<Longrightarrow> i \<notin> set (ids ?ps)" for i
    by simp
  have call: "call_rel (calls s i) (slots (conn s) i) (i \<in> set (ids (p # ?ps))) False
      (i \<in> set (ids (queued s))) (outcome_of outs i)" for i
    using rel task by (simp add: calls_rel_def)
  have "call_rel (calls s i) (slots c' i) (i \<in> set (ids ?ps)) False
      (i \<in> set (ids (queued s))) (outcome_of (outs @ [(p, res)]) i)" for i
  proof (cases "response_tx p = Some i")
    case True
    then have pending: "call_rel (calls s i) (slots (conn s) i) True False
        (i \<in> set (ids (queued s))) (outcome_of outs i)"
      using call [of i] by simp
    from True have "outcome_of (outs @ [(p, res)]) i = (\<lambda>r. outcome_of outs i r \<or> r = map_err error_from res)"
      by (simp add: outcome_of_snoc fun_eq_iff)
    with call_rel_settled [OF pending this] True own [of i] show ?thesis
      by (simp add: slots settle_def)
  next
    case False
    then have "outcome_of (outs @ [(p, res)]) i = outcome_of outs i"
      by (simp add: outcome_of_snoc fun_eq_iff)
    with False call [of i] show ?thesis
      by (auto simp: slots settle_def split: option.splits)
  qed
  with rel task show ?thesis by (simp add: calls_rel_def)
qed

lemma outbound_inv_work:
  assumes spec: "work_spec cfg j (conn s) k' c'" and task: "task s = Busy j" and "outbound_inv cfg s"
  shows "outbound_inv cfg (s\<lparr>conn := c', task := k', sleep_started := t\<rparr>)"
proof -
  from assms(3) obtain outs ctrl dropped where w: "wire_rel cfg s outs ctrl dropped"
    and c: "calls_rel s outs dropped"
    by (auto simp: outbound_inv_def)
  from w have [simp]: "dropped = []"
    using task by (auto simp: wire_rel_def)
  from spec show ?thesis
  proof (cases rule: work_outbound)
    case quiet
    with w c task have "wire_rel cfg (s\<lparr>conn := c', task := k', sleep_started := t\<rparr>) outs ctrl []"
      "calls_rel (s\<lparr>conn := c', task := k', sleep_started := t\<rparr>) outs []"
      by (simp_all add: wire_rel_def calls_rel_def)
    then show ?thesis unfolding outbound_inv_def by blast
  next
    case (control m res)
    with w c task have "wire_rel cfg (s\<lparr>conn := c', task := k', sleep_started := t\<rparr>) outs (ctrl @ [(m, res)]) []"
      "calls_rel (s\<lparr>conn := c', task := k', sleep_started := t\<rparr>) outs []"
      by (auto simp: wire_rel_def calls_rel_def intro: shuffles_snoc_right)
    then show ?thesis unfolding outbound_inv_def by blast
  next
    case (payload p res)
    from w c have "wire_rel cfg s outs ctrl []" "calls_rel s outs []" by simp_all
    with payload task have "wire_rel cfg (s\<lparr>conn := c', task := k', sleep_started := t\<rparr>) (outs @ [(p, res)]) ctrl []"
      "calls_rel (s\<lparr>conn := c', task := k', sleep_started := t\<rparr>) (outs @ [(p, res)]) []"
      by (simp_all add: wire_rel_payload calls_rel_payload)
    then show ?thesis unfolding outbound_inv_def by blast
  qed
qed

section \<open>The other steps\<close>

lemma drop_payloads_other:
  "i \<notin> set (ids ps) \<Longrightarrow> drop_payloads slot_ops ps sl i = sl i"
  by (induction ps arbitrary: sl) (auto split: option.splits)

lemma drop_payloads_kept:
  "answer (drop_payloads slot_ops ps sl i) = answer (sl i)"
  "slot_rx (drop_payloads slot_ops ps sl i) = slot_rx (sl i)"
  "\<not> slot_tx (sl i) \<Longrightarrow> \<not> slot_tx (drop_payloads slot_ops ps sl i)"
  by (induction ps arbitrary: sl; auto simp: slot_drop_tx_def split: option.splits)+

lemma drop_payloads_tx: "slot_tx (drop_payloads slot_ops ps sl i) \<Longrightarrow> slot_tx (sl i)"
  using drop_payloads_kept(3) by blast

lemma drop_payloads_drops: "i \<in> set (ids ps) \<Longrightarrow> \<not> slot_tx (drop_payloads slot_ops ps sl i)"
proof (induction ps arbitrary: sl)
  case (Cons p ps)
  show ?case
  proof (cases "response_tx p = Some i")
    case True
    then show ?thesis by (simp add: drop_payloads_kept(3) slot_drop_tx_def)
  next
    case False
    with Cons show ?thesis by (auto split: option.splits)
  qed
qed simp

lemmas drop_payloads_fields = drop_payloads_kept drop_payloads_drops

text \<open>A step that leaves the send channel, the calls and their one-shots alone.\<close>

lemma outbound_frame:
  assumes "outbound_inv cfg s"
    and "queued s' = queued s" "unsent s' = unsent s"
    and "slots (conn s') = slots (conn s)" "calls s' = calls s" "sends (wire s') = sends (wire s)"
    and "finished (task s) \<longrightarrow> finished (task s')"
  shows "outbound_inv cfg s'"
proof -
  from assms(1) obtain outs ctrl dropped where "wire_rel cfg s outs ctrl dropped" "calls_rel s outs dropped"
    by (auto simp: outbound_inv_def)
  with assms(2-) have "wire_rel cfg s' outs ctrl dropped" "calls_rel s' outs dropped"
    by (simp_all only: wire_rel_def calls_rel_def) auto
  then show ?thesis unfolding outbound_inv_def by blast
qed

text \<open>A step of one call.\<close>

lemma outbound_call:
  assumes "outbound_inv cfg s"
    and "\<And>pending drp known out. \<lbrakk>call_rel (calls s i) (slots (conn s) i) pending drp known out; \<And>r. out r \<Longrightarrow> known\<rbrakk>
           \<Longrightarrow> call_rel (calls s' i) (slots (conn s') i) pending drp known out"
    and "\<And>j. j \<noteq> i \<Longrightarrow> calls s' j = calls s j \<and> slots (conn s') j = slots (conn s) j"
    and "queued s' = queued s" "buf (tx_chan (conn s')) = buf (tx_chan (conn s))"
    and "sends (wire s') = sends (wire s)" "task s' = task s"
  shows "outbound_inv cfg s'"
proof -
  from assms(1) obtain outs ctrl dropped where rel: "wire_rel cfg s outs ctrl dropped" "calls_rel s outs dropped"
    by (auto simp: outbound_inv_def)
  then have known: "outcome_of outs j r \<Longrightarrow> j \<in> set (ids (queued s))" for j r
    by (force simp: outcome_of_def wire_rel_def ids_set)
  have "call_rel (calls s' j) (slots (conn s') j) (j \<in> set (ids (unsent s)))
      (j \<in> set (ids dropped)) (j \<in> set (ids (queued s))) (outcome_of outs j)" for j
    using assms(2) [OF _ known] assms(3) [of j] rel(2) by (cases "j = i") (auto simp: calls_rel_def)
  with rel(2) assms have "calls_rel s' outs dropped" by (simp add: calls_rel_def)
  moreover from rel(1) assms have "wire_rel cfg s' outs ctrl dropped" by (simp add: wire_rel_def)
  ultimately show ?thesis unfolding outbound_inv_def by blast
qed

lemma call_rel_dropped:
  assumes "call_rel k sl pend False known out"
    and "answer sl' = answer sl" "slot_rx sl' = slot_rx sl" "slot_tx sl' \<longrightarrow> slot_tx sl"
    and "pend \<longrightarrow> \<not> slot_tx sl'"
  shows "call_rel k sl' False pend known out"
  using assms by (auto simp: call_rel_def)

lemma outbound_inv_step:
  "sys_spec cfg s s' \<Longrightarrow> outbound_inv cfg s \<Longrightarrow> shape_inv n s \<Longrightarrow> outbound_inv cfg s'"
proof (induction rule: sys_spec.induct)
  case (loop a s k' c' s')
  with loop_outbound [OF loop.hyps(1)] active_facts(2) [OF loop_active [OF loop.hyps(1)]]
  show ?case by (intro outbound_frame [where s = s and s' = s']) simp_all
next
  case (work s j k' c' s')
  then show ?case using outbound_inv_work by blast
next
  case (receiver_drop s st s')
  then obtain outs ctrl dropped where rel: "wire_rel cfg s outs ctrl dropped" "calls_rel s outs dropped"
    by (auto simp: outbound_inv_def)
  with receiver_drop(1) have [simp]: "dropped = []" by (auto simp: wire_rel_def)
  from rel receiver_drop have "wire_rel cfg s' outs ctrl (buf (tx_chan (conn s)))"
    by (auto simp: wire_rel_def)
  moreover from rel(2) receiver_drop(1,2) have "calls_rel s' outs (buf (tx_chan (conn s)))"
    by (auto simp: calls_rel_def drop_payloads_fields intro!: call_rel_dropped
        dest: drop_payloads_tx)
  ultimately show ?case unfolding outbound_inv_def by blast
next
  case (call_queued s i p m s')
  then obtain outs ctrl dropped where rel: "wire_rel cfg s outs ctrl dropped" "calls_rel s outs dropped"
    by (auto simp: outbound_inv_def)
  with call_queued have [simp]: "dropped = []" by (auto simp: wire_rel_def shape_inv_def)
  from rel(2) call_queued(1) have fresh: "i \<notin> set (ids (queued s))"
    unfolding calls_rel_def call_rel_def by blast
  with rel(1) have "\<not> outcome_of outs i r" for r
    by (force simp: outcome_of_def wire_rel_def ids_set)
  then have "call_rel Awaiting slot_new True False True (outcome_of outs i)"
    by (simp add: call_rel_def slot_new_def)
  with rel(2) call_queued fresh have "calls_rel s' outs []"
    by (auto simp: calls_rel_def)
  moreover from rel call_queued have "wire_rel cfg s' outs ctrl []"
    by (auto simp: wire_rel_def)
  ultimately show ?case unfolding outbound_inv_def by blast
next
  case (plain_queued s p m s')
  then obtain outs ctrl dropped where rel: "wire_rel cfg s outs ctrl dropped" "calls_rel s outs dropped"
    by (auto simp: outbound_inv_def)
  with plain_queued have "dropped = []" by (auto simp: wire_rel_def shape_inv_def)
  with rel plain_queued have "wire_rel cfg s' outs ctrl []" "calls_rel s' outs []"
    by (auto simp: wire_rel_def calls_rel_def)
  then show ?case unfolding outbound_inv_def by blast
next
  case (call_refused s i s')
  show ?case
    by (rule outbound_call [OF call_refused(5), where i = i])
      (use call_refused in \<open>auto simp: call_rel_def slot_new_def\<close>)
next
  case (close_refused s i s')
  show ?case
    by (rule outbound_call [OF close_refused(5), where i = i])
      (use close_refused in \<open>auto simp: call_rel_def slot_new_def\<close>)
next
  case (call_answered s i r s')
  show ?case
    by (rule outbound_call [OF call_answered(4), where i = i])
      (use call_answered in \<open>auto simp: call_rel_def\<close>)
next
  case (call_panicked s i s')
  show ?case
    by (rule outbound_call [OF call_panicked(5), where i = i])
      (use call_panicked in \<open>auto simp: call_rel_def\<close>)
next
  case (call_cancelled s i s')
  show ?case
    by (rule outbound_call [OF call_cancelled(3), where i = i])
      (use call_cancelled in \<open>auto simp: call_rel_def\<close>)
qed (auto elim!: outbound_frame)

lemma reachable_outbound:
  assumes "reachable (reference R) cfg n s"
  shows "outbound_inv cfg s"
  using assms
proof (induction rule: reachable_induct_spec)
  case (init w s)
  then show ?case
    by (auto dest!: init_sys_reference simp: outbound_inv_def wire_rel_def calls_rel_def call_rel_def
        slot_new_def outcome_of_def)
next
  case (step s s')
  then show ?case by (blast intro: outbound_inv_step reachable_shape)
qed

end
