(* ===== verification/Examples.thy ===== *)
theory Examples
  imports Outbound
begin

text \<open>
  Concrete runs: the reference runtime over the scripted transport. \<open>demo\<close> sets a connection up
  with the given capacity, inbox and socket outcomes and runs a list of actions; the facts
  \<open>eval_simps\<close> evaluate it in the simplifier.
\<close>

definition demo ::
  "loop_config \<Rightarrow> nat \<Rightarrow> ws_item list \<Rightarrow> (unit, ws_error) result list \<Rightarrow> script action list
    \<Rightarrow> script ref_sys option" where
  "demo cfg n inb outc as =
     (case init_sys (reference_runtime scripted) n \<lparr>inbox = inb, outcomes = outc\<rparr> of
        None \<Rightarrow> None
      | Some s \<Rightarrow> run (reference_runtime scripted) cfg as s)"

lemma demo_reachable:
  "demo cfg n inb outc as = Some s \<Longrightarrow> reachable (reference_runtime scripted) cfg n s"
  by (auto simp: demo_def intro: init_run_reachable split: option.splits)

definition no_keepalive :: loop_config where
  "no_keepalive = \<lparr>cfg_interval = None, cfg_message = None\<rparr>"

definition default_keepalive :: loop_config where
  "default_keepalive = \<lparr>cfg_interval = Some 2000, cfg_message = None\<rparr>"

lemmas eval_simps = demo_def init_sys_def init_conn_def chan_new_def start_call_def drain_def
  op_defs chan_simps scripted_def next_outcome_def logged_def Let_def no_keepalive_def
  default_keepalive_def error_from_def pong_bytes_def close_message_def

lemma demo_panic:
  "\<exists>s. demo no_keepalive 1 [Some (Ok (Close None))] []
        [SendConfirmed 0 (Text ''m''), Loop NextArm, Work, Exit, Exit, Exit, Await 0] = Some s
      \<and> calls s 0 = Done Panicked"
  by (simp add: eval_simps)

end
