(* ===== verification/Service.thy ===== *)
theory Service
  imports Examples
begin

text \<open>
  A connection as its users see it: two queues, a status and the traffic on the socket, as a machine
  whose steps are atomic. There is no channel, no one-shot, no held frame and no hand-over between the
  loop's arms and its handlers. Every step of a connection is one step of this machine or none.
\<close>

section \<open>The machine\<close>

text \<open>The standing of a confirmed call, and the status of the connection with the cause it ends with.\<close>

datatype standing = Unasked | Waiting | Told reply | Unanswered | Withdrawn

datatype status = Open | Leaving "error option" | Over | Ended

record service =
  status :: status
  producers :: nat
  consumer :: bool
  to_send :: "payload list"
  to_read :: "message list"
  reading :: "ws_item option"
  callers :: "nat \<Rightarrow> standing"
  cause :: "error option"
  received :: "message list"
  reported :: "error list"
  traffic :: "wire_event list"

definition fresh_service :: service where
  "fresh_service =
     \<lparr>status = Open, producers = 1, consumer = True, to_send = [], to_read = [], reading = None,
      callers = (\<lambda>_. Unasked), cause = None, received = [], reported = [], traffic = []\<rparr>"

text \<open>The answer to the caller of a payload, and what a failed operation of the socket leaves behind.\<close>

definition tell :: "payload \<Rightarrow> reply \<Rightarrow> (nat \<Rightarrow> standing) \<Rightarrow> nat \<Rightarrow> standing" where
  "tell p r cs i = (if response_tx p = Some i \<and> cs i = Waiting then Told r else cs i)"

definition withdrawn :: "payload \<Rightarrow> (nat \<Rightarrow> standing) \<Rightarrow> bool" where
  "withdrawn p cs \<longleftrightarrow> (\<exists>i. response_tx p = Some i \<and> cs i = Withdrawn)"

definition left_with :: "(unit, ws_error) result \<Rightarrow> (ws_error \<Rightarrow> error) \<Rightarrow> status" where
  "left_with res f = (case res of Inr u \<Rightarrow> Open | Inl e \<Rightarrow> Leaving (Some (f e)))"

definition first_cause :: "error option \<Rightarrow> error" where
  "first_cause c = (case c of Some e \<Rightarrow> e | None \<Rightarrow> WebsocketClosed)"

definition listed :: "error option \<Rightarrow> error list" where
  "listed c = (case c of Some e \<Rightarrow> [e] | None \<Rightarrow> [])"

text \<open>A frame that was not handed over may be lost, but only when the connection is left.\<close>

definition may_lose :: "status \<Rightarrow> message list \<Rightarrow> message list \<Rightarrow> bool" where
  "may_lose st ms ms' \<longleftrightarrow> ms' = ms \<or> st \<noteq> Open \<and> ms' = butlast ms"

inductive service_step :: "loop_config \<Rightarrow> nat \<Rightarrow> service \<Rightarrow> service \<Rightarrow> bool" for cfg n where
  \<comment> \<open>the users of the send queue\<close>
  ask:
    "\<lbrakk>status t \<noteq> Ended; 0 < producers t; length (to_send t) \<le> n; callers t i = Unasked;
      t' = t\<lparr>to_send := to_send t @ [\<lparr>payload_message = m, response_tx = Some i\<rparr>], callers := (callers t)(i := Waiting)\<rparr>\<rbrakk>
     \<Longrightarrow> service_step cfg n t t'"
| ask_late:
    "\<lbrakk>status t = Ended; 0 < producers t; callers t i = Unasked;
      t' = t\<lparr>callers := (callers t)(i := Told (Err (first_cause (cause t)))), cause := None, reported := reported t @ listed (cause t)\<rparr>\<rbrakk>
     \<Longrightarrow> service_step cfg n t t'"
| close_late:
    "\<lbrakk>status t = Ended; 0 < producers t; callers t i = Unasked;
      t' = t\<lparr>callers := (callers t)(i := Told (Err WebsocketClosed))\<rparr>\<rbrakk>
     \<Longrightarrow> service_step cfg n t t'"
| post:
    "\<lbrakk>status t \<noteq> Ended; 0 < producers t; length (to_send t) \<le> n;
      t' = t\<lparr>to_send := to_send t @ [\<lparr>payload_message = m, response_tx = None\<rparr>]\<rparr>\<rbrakk>
     \<Longrightarrow> service_step cfg n t t'"
| post_late:
    "\<lbrakk>status t = Ended; 0 < producers t; t' = t\<lparr>cause := None, reported := reported t @ listed (cause t)\<rparr>\<rbrakk>
     \<Longrightarrow> service_step cfg n t t'"
| withdraw:
    "\<lbrakk>callers t i = Waiting \<or> callers t i = Told r \<or> callers t i = Unanswered;
      t' = t\<lparr>callers := (callers t)(i := Withdrawn)\<rparr>\<rbrakk>
     \<Longrightarrow> service_step cfg n t t'"
| more_producers: "\<lbrakk>0 < producers t; t' = t\<lparr>producers := Suc (producers t)\<rparr>\<rbrakk> \<Longrightarrow> service_step cfg n t t'"
| less_producers: "\<lbrakk>0 < producers t; t' = t\<lparr>producers := producers t - 1\<rparr>\<rbrakk> \<Longrightarrow> service_step cfg n t t'"
  \<comment> \<open>the consumer\<close>
| receive:
    "\<lbrakk>consumer t; to_read t = m # ms; t' = t\<lparr>to_read := ms, received := received t @ [m]\<rparr>\<rbrakk>
     \<Longrightarrow> service_step cfg n t t'"
| receive_end:
    "\<lbrakk>consumer t; to_read t = []; status t = Over \<or> status t = Ended;
      t' = t\<lparr>cause := None, reported := reported t @ listed (cause t)\<rparr>\<rbrakk>
     \<Longrightarrow> service_step cfg n t t'"
| join: "\<lbrakk>status t = Ended; t' = t\<lparr>cause := None, reported := reported t @ listed (cause t)\<rparr>\<rbrakk> \<Longrightarrow> service_step cfg n t t'"
| no_consumer: "\<lbrakk>consumer t; t' = t\<lparr>consumer := False, to_read := []\<rparr>\<rbrakk> \<Longrightarrow> service_step cfg n t t'"
  \<comment> \<open>the connection itself\<close>
| put:
    "\<lbrakk>status t = Open; reading t = None; to_send t = p # ps; may_lose st (to_read t) ms;
      st = (if withdrawn p (callers t) then Leaving (Some SocketeerDroppedWithoutClosing) else left_with res (\<lambda>_. WebsocketClosed));
      t' = t\<lparr>status := st, to_send := ps, to_read := ms, callers := tell p (map_err error_from res) (callers t),
             traffic := traffic t @ [Sent (payload_message p) res]\<rparr>\<rbrakk>
     \<Longrightarrow> service_step cfg n t t'"
| keep_alive:
    "\<lbrakk>status t = Open; reading t = None; cfg_interval cfg \<noteq> None; may_lose st (to_read t) ms; st = left_with res error_from;
      t' = t\<lparr>status := st, to_read := ms, traffic := traffic t @ [Sent (keepalive_frame cfg) res]\<rparr>\<rbrakk>
     \<Longrightarrow> service_step cfg n t t'"
| read:
    "\<lbrakk>status t = Open; reading t = None; length (to_read t) \<le> n;
      t' = t\<lparr>reading := Some x, traffic := traffic t @ [Received x]\<rparr>\<rbrakk>
     \<Longrightarrow> service_step cfg n t t'"
| pong:
    "\<lbrakk>status t = Open; reading t = Some (Some (Ok (Ping b)));
      t' = t\<lparr>status := left_with res error_from, reading := None, traffic := traffic t @ [Sent (Pong pong_bytes) res]\<rparr>\<rbrakk>
     \<Longrightarrow> service_step cfg n t t'"
| close_back:
    "\<lbrakk>status t = Open; reading t = Some (Some (Ok (Close f)));
      t' = t\<lparr>status := Leaving (case res of Inr u \<Rightarrow> None | Inl e \<Rightarrow> Some (error_from e)), reading := None,
             traffic := traffic t @ [SinkClosed res]\<rparr>\<rbrakk>
     \<Longrightarrow> service_step cfg n t t'"
| pass_over:
    "\<lbrakk>status t = Open; reading t = Some (Some (Ok (Pong b))) \<or> reading t = Some (Some (Ok (Frame b))); t' = t\<lparr>reading := None\<rparr>\<rbrakk>
     \<Longrightarrow> service_step cfg n t t'"
| keep:
    "\<lbrakk>status t = Open; consumer t; reading t = Some (Some (Ok m)); is_data m; length (to_read t) \<le> n;
      t' = t\<lparr>reading := None, to_read := to_read t @ [m]\<rparr>\<rbrakk>
     \<Longrightarrow> service_step cfg n t t'"
| keep_for_nobody:
    "\<lbrakk>status t = Open; \<not> consumer t; reading t = Some (Some (Ok m)); is_data m;
      t' = t\<lparr>status := Leaving (Some SocketeerDroppedWithoutClosing), reading := None\<rparr>\<rbrakk>
     \<Longrightarrow> service_step cfg n t t'"
| fail:
    "\<lbrakk>status t = Open; reading t = Some (Some (Err e)); t' = t\<lparr>status := Leaving (Some (WebsocketError e)), reading := None\<rparr>\<rbrakk>
     \<Longrightarrow> service_step cfg n t t'"
| run_out:
    "\<lbrakk>status t = Open; reading t = Some None; t' = t\<lparr>status := Leaving (Some WebsocketClosed), reading := None\<rparr>\<rbrakk>
     \<Longrightarrow> service_step cfg n t t'"
| abandon:
    "\<lbrakk>status t = Open; reading t = None; producers t = 0 \<and> to_send t = [] \<or> \<not> consumer t;
      may_lose (Leaving c) (to_read t) ms; c = Some SocketeerDroppedWithoutClosing; t' = t\<lparr>status := Leaving c, to_read := ms\<rparr>\<rbrakk>
     \<Longrightarrow> service_step cfg n t t'"
| leave: "\<lbrakk>status t = Leaving c; t' = t\<lparr>status := Over, cause := c\<rparr>\<rbrakk> \<Longrightarrow> service_step cfg n t t'"
| stop:
    "\<lbrakk>status t = Over;
      t' = t\<lparr>status := Ended, to_send := [],
             callers := (\<lambda>i. if i \<in> set (ids (to_send t)) \<and> callers t i = Waiting then Unanswered else callers t i)\<rparr>\<rbrakk>
     \<Longrightarrow> service_step cfg n t t'"

section \<open>A connection seen as a service\<close>

fun kept :: "task \<Rightarrow> message list" where
  "kept (Holding f) = [f]"
| "kept (Busy (SendJob p h)) = frame_list h"
| "kept (Busy (TimerJob h)) = frame_list h"
| "kept _ = []"

fun item_read :: "task \<Rightarrow> ws_item option" where
  "item_read (Busy (ReadJob x)) = Some x"
| "item_read _ = None"

fun cause_of :: "loop_state \<Rightarrow> error option" where
  "cause_of (Error e) = Some e"
| "cause_of _ = None"

fun status_of :: "task \<Rightarrow> status" where
  "status_of (Exited st) = Leaving (cause_of st)"
| "status_of (Recorded st) = Leaving (cause_of st)"
| "status_of (SenderDropped st) = Over"
| "status_of (Finished st) = Ended"
| "status_of Crashed = Ended"
| "status_of _ = Open"

definition standing_of :: "call \<Rightarrow> reply slot \<Rightarrow> standing" where
  "standing_of k sl =
     (case k of
        NotStarted \<Rightarrow> Unasked
      | Awaiting \<Rightarrow> (case answer sl of Some r \<Rightarrow> Told r | None \<Rightarrow> if slot_tx sl then Waiting else Unanswered)
      | Cancelled \<Rightarrow> Withdrawn
      | Done (Returned r) \<Rightarrow> Told r
      | Done Panicked \<Rightarrow> Unanswered)"

definition service_of :: "'w ref_sys \<Rightarrow> service" where
  "service_of s =
     \<lparr>status = status_of (task s), producers = tx_handles s, consumer = rx_handle s,
      to_send = unsent s, to_read = (if rx_handle s then buf (rx_chan (conn s)) @ kept (task s) else []),
      reading = item_read (task s), callers = (\<lambda>i. standing_of (calls s i) (slots (conn s) i)),
      cause = (if sender_dropped (task s) then terminal_error (conn s) else None),
      received = delivered s, reported = taken s, traffic = wire s\<rparr>"


text \<open>Before the sender is dropped nothing is taken, a closed send queue stays closed and empty, and the
  timer's handler runs only where an interval is set.\<close>

definition quiet_inv :: "loop_config \<Rightarrow> 'w ref_sys \<Rightarrow> bool" where
  "quiet_inv cfg s \<longleftrightarrow>
     (\<not> sender_dropped (task s) \<longrightarrow> taken s = [])
     \<and> (\<forall>h. task s = Busy (SendJob None h) \<longrightarrow> tx_handles s = 0 \<and> buf (tx_chan (conn s)) = [])
     \<and> (\<forall>h. task s = Busy (TimerJob h) \<longrightarrow> cfg_interval cfg \<noteq> None)"

lemma loop_quiet:
  assumes "loop_spec cfg a k c k' c'"
  shows "\<not> sender_dropped k'" and "k' = Busy (SendJob None h) \<Longrightarrow> senders (tx_chan c) = 0 \<and> buf (tx_chan c) = [] \<and> c' = c"
    and "k' = Busy (TimerJob h) \<Longrightarrow> cfg_interval cfg \<noteq> None"
  using assms by (cases; simp)+

lemma work_quiet:
  assumes "work_spec cfg j c k' c'"
  shows "\<not> sender_dropped k'" and "k' \<noteq> Busy j'"
  using assms by (cases; auto simp: unless_err_def split: sum.splits)+

lemma finished_dropped: "finished k \<Longrightarrow> sender_dropped k"
  by (cases k) auto

lemma quiet_inv_step: "sys_spec cfg s s' \<Longrightarrow> quiet_inv cfg s \<Longrightarrow> shape_inv n s \<Longrightarrow> quiet_inv cfg s'"
proof (induction rule: sys_spec.induct)
  case (loop a s k' c' s')
  then show ?case
    using loop_quiet [OF loop.hyps(1)] loop_active [OF loop.hyps(1)] by (auto simp: quiet_inv_def shape_inv_def)
next
  case (work s j k' c' s')
  then show ?case using work_quiet [OF work.hyps(2)] by (auto simp: quiet_inv_def)
qed (auto simp: quiet_inv_def shape_inv_def dest: finished_dropped split: if_splits)

lemma reachable_quiet: "reachable (reference R) cfg n s \<Longrightarrow> quiet_inv cfg s"
proof (induction rule: reachable_induct_spec)
  case (init w s)
  then show ?case by (auto dest!: init_sys_reference simp: quiet_inv_def)
next
  case (step s s')
  then show ?case by (blast intro: quiet_inv_step reachable_shape)
qed

text \<open>What the invariants say of the call a payload belongs to.\<close>

lemma pending_standing:
  assumes "outbound_inv cfg s" and "i \<in> set (ids (unsent s))"
  shows "slot_rx (slots (conn s) i) \<longleftrightarrow> standing_of (calls s i) (slots (conn s) i) \<noteq> Withdrawn"
    and "slot_tx (slots (conn s) i)" and "answer (slots (conn s) i) = None"
    and "calls s i = Awaiting \<or> calls s i = Cancelled"
proof -
  from assms(1) obtain outs dropped where "calls_rel s outs dropped" by (auto simp: outbound_inv_def)
  with assms(2) have "call_rel (calls s i) (slots (conn s) i) True (i \<in> set (ids dropped))
      (i \<in> set (ids (queued s))) (outcome_of outs i)"
    unfolding calls_rel_def by metis
  then show "slot_rx (slots (conn s) i) \<longleftrightarrow> standing_of (calls s i) (slots (conn s) i) \<noteq> Withdrawn"
    "slot_tx (slots (conn s) i)" "answer (slots (conn s) i) = None" "calls s i = Awaiting \<or> calls s i = Cancelled"
    by (auto simp: call_rel_def standing_of_def)
qed


section \<open>Every step is a step of the service, or none\<close>

lemma service_of_simps [simp]:
  "status (service_of s) = status_of (task s)" "producers (service_of s) = tx_handles s"
  "consumer (service_of s) = rx_handle s" "to_send (service_of s) = unsent s"
  "to_read (service_of s) = (if rx_handle s then buf (rx_chan (conn s)) @ kept (task s) else [])"
  "reading (service_of s) = item_read (task s)"
  "callers (service_of s) = (\<lambda>i. standing_of (calls s i) (slots (conn s) i))"
  "cause (service_of s) = (if sender_dropped (task s) then terminal_error (conn s) else None)"
  "received (service_of s) = delivered s" "reported (service_of s) = taken s" "traffic (service_of s) = wire s"
  by (simp_all add: service_of_def)

lemma waiting_service [simp]:
  "status_of (waiting h) = Open" "kept (waiting h) = frame_list h" "item_read (waiting h) = None"
  "status_of (unless_err res st k) = (case res of Inr u \<Rightarrow> status_of k | Inl e \<Rightarrow> Leaving (cause_of (st e)))"
  "kept (unless_err res st k) = (if res = Inr () then kept k else [])"
  "item_read (unless_err res st k) = (if res = Inr () then item_read k else None)"
  "sender_dropped (unless_err res st k) \<longleftrightarrow> res = Inr () \<and> sender_dropped k"
  by (cases h; simp)+ (auto simp: unless_err_def split: sum.splits)

definition service_stutters :: "loop_config \<Rightarrow> nat \<Rightarrow> 'w ref_sys \<Rightarrow> 'w ref_sys \<Rightarrow> bool" where
  "service_stutters cfg n s s' \<longleftrightarrow> service_step cfg n (service_of s) (service_of s') \<or> service_of s' = service_of s"

lemma service_stuttersI: "service_step cfg n (service_of s) (service_of s') \<Longrightarrow> service_stutters cfg n s s'"
  by (simp add: service_stutters_def)

lemma service_loop:
  assumes "loop_spec cfg a (task s) (conn s) k' c'" and "shape_inv n s"
  shows "service_stutters cfg n s (s\<lparr>conn := c', task := k', sleep_started := t\<rparr>)"
  using assms(1)
proof (cases rule: loop_spec.cases)
  case (take_item w x)
  with assms(2) show ?thesis
    by (intro service_stuttersI service_step.read [where x = x]) (auto simp: service_of_def shape_inv_def)
next
  case (held_closed f)
  with assms(2) show ?thesis
    by (intro service_stuttersI service_step.abandon [where c = "Some SocketeerDroppedWithoutClosing" and ms = "[]"])
      (auto simp: service_of_def shape_inv_def may_lose_def)
qed (use assms(2) in \<open>auto simp: service_stutters_def service_of_def shape_inv_def\<close>)


text \<open>
  The payload in hand: its own call is told the outcome if it still waits, and no other call changes.
\<close>

lemma service_settle:
  assumes "outbound_inv cfg s" and "task s = Busy (SendJob (Some p) h)"
  shows "(\<lambda>i. standing_of (calls s i) (settle p res (slots (conn s)) i))
       = tell p (map_err error_from res) (\<lambda>i. standing_of (calls s i) (slots (conn s) i))"
proof (rule ext)
  fix i
  show "standing_of (calls s i) (settle p res (slots (conn s)) i)
      = tell p (map_err error_from res) (\<lambda>i. standing_of (calls s i) (slots (conn s) i)) i"
  proof (cases "response_tx p = Some i")
    case True
    with assms(2) have pending: "i \<in> set (ids (unsent s))" by simp
    from True pending_standing [OF assms(1) pending] show ?thesis by (auto simp: standing_of_def settle_def tell_def)
  next
    case False
    then show ?thesis by (auto simp: settle_def tell_def split: option.splits)
  qed
qed

lemma service_withdrawn:
  assumes "outbound_inv cfg s" and "task s = Busy (SendJob (Some p) h)" and "response_tx p = Some i"
  shows "withdrawn p (\<lambda>i. standing_of (calls s i) (slots (conn s) i)) \<longleftrightarrow> \<not> slot_rx (slots (conn s) i)"
  using pending_standing(1) [OF assms(1), of i] assms(2,3) by (auto simp: withdrawn_def)

lemma service_put:
  assumes "outbound_inv cfg s" and "task s = Busy (SendJob (Some p) h)"
    and "tx_chan c' = tx_chan (conn s)" "rx_chan c' = rx_chan (conn s)" "terminal_error c' = terminal_error (conn s)"
    and "slots c' = settle p res (slots (conn s))" "snd (ws c') = wire s @ [Sent (payload_message p) res]"
    and "k' = (if withdrawn p (callers (service_of s)) then Exited (Error SocketeerDroppedWithoutClosing)
               else unless_err res (\<lambda>_. Error WebsocketClosed) (waiting h))"
  shows "service_step cfg n (service_of s) (service_of (s\<lparr>conn := c', task := k', sleep_started := t\<rparr>))"
proof (rule service_step.put)
  let ?s' = "s\<lparr>conn := c', task := k', sleep_started := t\<rparr>"
  show "may_lose (status_of k') (to_read (service_of s)) (to_read (service_of ?s'))"
    using assms(2,4,8) by (cases h) (auto simp: may_lose_def split: sum.splits)
  show "service_of ?s' = (service_of s)\<lparr>status := status_of k', to_send := buf (tx_chan (conn s)),
      to_read := to_read (service_of ?s'), callers := tell p (map_err error_from res) (callers (service_of s)),
      traffic := traffic (service_of s) @ [Sent (payload_message p) res]\<rparr>"
    using assms service_settle [OF assms(1,2), of res] by (auto simp: service_of_def)
  show "status_of k' = (if withdrawn p (callers (service_of s)) then Leaving (Some SocketeerDroppedWithoutClosing)
      else left_with res (\<lambda>_. WebsocketClosed))"
    using assms(8) by (auto simp: left_with_def split: sum.splits)
qed (use assms(2) in \<open>simp_all add: service_of_def\<close>)

lemma may_lose_frame:
  "may_lose st ms ms" "st \<noteq> Open \<Longrightarrow> may_lose st (ms @ frame_list h) ms"
  "st \<noteq> Open \<Longrightarrow> may_lose st (frame_list h) []"
  by (cases h; simp add: may_lose_def)+

lemma service_work:
  assumes "work_spec cfg j (conn s) k' c'" and "task s = Busy j"
    and "shape_inv n s" "outbound_inv cfg s" "quiet_inv cfg s"
  shows "service_stutters cfg n s (s\<lparr>conn := c', task := k', sleep_started := t\<rparr>)"
  using assms(1)
proof (cases rule: work_spec.cases)
  case (send_plain p w res h)
  with assms(2,4) show ?thesis
    by (auto simp: service_stutters_def settle_def withdrawn_def intro!: disjI1 service_put [where res = res])
next
  case (send_answered p i w res h)
  with assms(2,4) service_withdrawn [OF assms(4), of p h i] show ?thesis
    by (auto simp: service_stutters_def settle_def intro!: disjI1 service_put [where res = res])
next
  case (send_cancelled p i w res h)
  with assms(2,4) service_withdrawn [OF assms(4), of p h i] show ?thesis
    by (auto simp: service_stutters_def settle_def intro!: disjI1 service_put [where res = res])
next
  case (send_nothing h)
  with assms(2,3,5) show ?thesis
    by (auto simp: service_stutters_def service_of_def shape_inv_def quiet_inv_def may_lose_frame
        intro!: disjI1 service_step.abandon [where c = "Some SocketeerDroppedWithoutClosing"
          and ms = "if rx_handle s then buf (rx_chan (conn s)) else []"])
next
  case (keepalive w res h)
  with assms(2,5) show ?thesis
    by (intro service_stuttersI service_step.keep_alive [where st = "status_of k'" and res = res
          and ms = "if rx_handle s then buf (rx_chan (conn s)) @ kept k' else []"])
      (auto simp: service_of_def quiet_inv_def may_lose_frame left_with_def split: sum.splits)
next
  case (read_ping w res b)
  with assms(2,3) show ?thesis
    by (intro service_stuttersI service_step.pong [where res = res])
      (auto simp: service_of_def shape_inv_def left_with_def split: sum.splits)
next
  case (read_close w res f)
  with assms(2,3) show ?thesis
    by (intro service_stuttersI service_step.close_back [where res = res])
      (auto simp: service_of_def shape_inv_def left_with_def split: sum.splits)
next
  case (read_pong b)
  with assms(2,3) show ?thesis
    by (intro service_stuttersI service_step.pass_over) (auto simp: service_of_def shape_inv_def)
next
  case (read_frame b)
  with assms(2,3) show ?thesis
    by (intro service_stuttersI service_step.pass_over) (auto simp: service_of_def shape_inv_def)
next
  case (read_error e)
  with assms(2,3) show ?thesis
    by (intro service_stuttersI service_step.fail [where e = e])
      (auto simp: service_of_def shape_inv_def left_with_def split: sum.splits)
next
  case (read_end)
  with assms(2,3) show ?thesis
    by (intro service_stuttersI service_step.run_out)
      (auto simp: service_of_def shape_inv_def left_with_def split: sum.splits)
next
  case (read_data m)
  with assms(2,3) show ?thesis
    by (intro service_stuttersI service_step.keep [where m = m])
      (auto simp: service_of_def shape_inv_def left_with_def split: sum.splits)
next
  case (read_full m)
  with assms(2,3) show ?thesis
    by (intro service_stuttersI service_step.keep [where m = m])
      (auto simp: service_of_def shape_inv_def left_with_def split: sum.splits)
next
  case (read_rx_gone m)
  with assms(2,3) show ?thesis
    by (intro service_stuttersI service_step.keep_for_nobody [where m = m])
      (auto simp: service_of_def shape_inv_def left_with_def split: sum.splits)
qed


lemma first_cause_taken: "snd (take_terminal_error c) = first_cause (terminal_error c)"
  by (simp add: first_cause_def take_terminal_error_def take_terminal_error_opt_def split: option.splits)

lemma drain_listed: "drain c = listed (terminal_error c)"
  by (simp add: drain_def listed_def split: option.splits)

lemma alive_status:
  assumes "shape_inv n s" and "terminal_inv s"
  shows "rx_alive (tx_chan (conn s)) \<longleftrightarrow> status_of (task s) \<noteq> Ended"
    and "senders (rx_chan (conn s)) = 0 \<longleftrightarrow> status_of (task s) = Over \<or> status_of (task s) = Ended"
  using assms by (cases "task s"; simp add: shape_inv_def terminal_inv_def)+

lemma ended_cause:
  assumes "terminal_inv s" and "status_of (task s) = Over \<or> status_of (task s) = Ended"
  shows "cause (service_of s) = terminal_error (conn s)"
  using assms by (cases "task s") (auto simp: terminal_inv_def)

lemma over_kept: "status_of k = Over \<or> status_of k = Ended \<Longrightarrow> kept k = []"
  by (cases k rule: status_of.cases) auto

lemma inflight_length: "length (inflight k) \<le> 1"
  by (cases k rule: inflight.cases) auto

lemma service_sys:
  assumes "sys_spec cfg s s'" and inv: "shape_inv n s" "outbound_inv cfg s" "quiet_inv cfg s" "terminal_inv s"
  shows "service_stutters cfg n s s'"
  using assms(1)
proof (cases rule: sys_spec.cases)
  case (loop a k' c')
  with inv show ?thesis by (simp add: service_loop)
next
  case (work j k' c')
  with inv show ?thesis by (simp add: service_work)
next
  case (crash)
  with inv show ?thesis by (simp add: terminal_inv_def)
next
  case (sender_drop st)
  with inv have "terminal_error (conn s) = cause_of st" by (cases st) (auto simp: terminal_inv_def quiet_inv_def drain_def split: option.splits)
  with sender_drop show ?thesis
    by (intro service_stuttersI service_step.leave [where c = "cause_of st"]) (auto simp: service_of_def)
next
  case (receiver_drop st)
  have "standing_of (calls s i) (drop_payloads slot_ops (buf (tx_chan (conn s))) (slots (conn s)) i)
      = (if i \<in> set (ids (buf (tx_chan (conn s)))) \<and> standing_of (calls s i) (slots (conn s) i) = Waiting
         then Unanswered else standing_of (calls s i) (slots (conn s) i))" for i
    using pending_standing [OF inv(2), of i]
    by (cases "i \<in> set (ids (buf (tx_chan (conn s))))")
      (auto simp: standing_of_def drop_payloads_fields drop_payloads_other)
  with receiver_drop show ?thesis
    by (intro service_stuttersI service_step.stop) (auto simp: service_of_def)
next
  case (call_queued i p m)
  with inv inflight_length [of "task s"] alive_status [OF inv(1,4)]
  show ?thesis
    by (intro service_stuttersI service_step.ask [where m = m and i = i])
      (auto simp: service_of_def standing_of_def slot_new_def shape_inv_def has_room_def fun_eq_iff)
next
  case (plain_queued p m)
  with inv inflight_length [of "task s"] alive_status [OF inv(1,4)]
  show ?thesis
    by (intro service_stuttersI service_step.post [where m = m])
      (auto simp: service_of_def shape_inv_def has_room_def)
next
  case (call_refused i)
  with inv alive_status [OF inv(1,4)] ended_cause [OF inv(4)]
  show ?thesis
    by (intro service_stuttersI service_step.ask_late [where i = i])
      (auto simp: service_of_def standing_of_def first_cause_taken drain_listed fun_eq_iff)
next
  case (close_refused i)
  with alive_status [OF inv(1,4)] show ?thesis
    by (intro service_stuttersI service_step.close_late [where i = i]) (auto simp: service_of_def standing_of_def fun_eq_iff)
next
  case (plain_refused)
  with alive_status [OF inv(1,4)] ended_cause [OF inv(4)]
  show ?thesis
    by (intro service_stuttersI service_step.post_late) (auto simp: service_of_def drain_listed)
next
  case (recv_end)
  with alive_status [OF inv(1,4)] ended_cause [OF inv(4)] over_kept [of "task s"]
  show ?thesis
    by (intro service_stuttersI service_step.receive_end) (auto simp: service_of_def drain_listed)
next
  case (joined)
  then show ?thesis
    by (cases "task s") (auto simp: service_of_def drain_listed intro!: service_stuttersI service_step.join)
next
  case (call_answered i r)
  then have "service_of s' = service_of s" by (auto simp: service_of_def standing_of_def fun_eq_iff)
  then show ?thesis by (simp add: service_stutters_def)
next
  case (call_panicked i)
  then have "service_of s' = service_of s" by (auto simp: service_of_def standing_of_def fun_eq_iff)
  then show ?thesis by (simp add: service_stutters_def)
next
  case (call_cancelled i)
  then obtain r where "callers (service_of s) i = Waiting \<or> callers (service_of s) i = Told r \<or> callers (service_of s) i = Unanswered"
    by (cases "answer (slots (conn s) i)") (auto simp: standing_of_def)
  with call_cancelled show ?thesis
    by (intro service_stuttersI service_step.withdraw [where i = i]) (auto simp: service_of_def standing_of_def fun_eq_iff)
next
  case (recv_frame m ms)
  then show ?thesis
    by (intro service_stuttersI service_step.receive [where m = m and ms = "ms @ kept (task s)"]) (auto simp: service_of_def)
next
  case (tx_cloned)
  then show ?thesis
    by (intro service_stuttersI service_step.more_producers) (auto simp: service_of_def)
next
  case (tx_dropped)
  then show ?thesis
    by (intro service_stuttersI service_step.less_producers) (auto simp: service_of_def)
next
  case (rx_dropped)
  then show ?thesis
    by (intro service_stuttersI service_step.no_consumer) (auto simp: service_of_def)
qed (auto simp: service_stutters_def service_of_def)


section \<open>The refinement\<close>

lemma service_init: "init_sys (reference R) n w = Some s \<Longrightarrow> service_of s = fresh_service"
  by (auto dest!: init_sys_reference simp: service_of_def fresh_service_def standing_of_def)

lemma service_exec:
  assumes r: "reachable (reference R) cfg n s" and "exec (reference R) cfg a s = Some s'"
  shows "service_stutters cfg n s s'"
  using service_sys [OF exec_spec [OF assms(2)] reachable_shape [OF r] reachable_outbound [OF r]
      reachable_quiet [OF r] reachable_terminal [OF r]] .

text \<open>
  C16. A connection, over every runtime that keeps the documented channel behaviour, is the service: it
  starts as the fresh one, and each step of the loop, of a handle, of the network or of the clock is
  one atomic step of the service or changes nothing its users can see.
\<close>

theorem connection_is_service:
  assumes "tokio R vt vr vo"
  shows "(\<forall>w s. init_sys R n w = Some s \<longrightarrow> service_of (sys_view vt vr vo s) = fresh_service)
     \<and> (\<forall>s a s'. reachable R cfg n s \<and> exec R cfg a s = Some s' \<longrightarrow>
           service_step cfg n (service_of (sys_view vt vr vo s)) (service_of (sys_view vt vr vo s'))
           \<or> service_of (sys_view vt vr vo s') = service_of (sys_view vt vr vo s))"
proof (intro conjI allI impI)
  fix w s
  assume "init_sys R n w = Some s"
  then show "service_of (sys_view vt vr vo s) = fresh_service"
    by (rule service_init [OF tokio.init_view [OF assms]])
next
  fix s a s'
  assume "reachable R cfg n s \<and> exec R cfg a s = Some s'"
  then show "service_step cfg n (service_of (sys_view vt vr vo s)) (service_of (sys_view vt vr vo s'))
      \<or> service_of (sys_view vt vr vo s') = service_of (sys_view vt vr vo s)"
    using service_exec [OF tokio.reachable_view [OF assms] tokio.exec_view [OF assms], of cfg n s a s']
    by (simp add: service_stutters_def)
qed

lemma connection_is_service_witness:
  "\<exists>s s'. demo no_keepalive 2 [] [Err (WsError ''reset'')] [SendConfirmed 0 (Text ''a''), Loop RecvArm] = Some s
     \<and> exec (reference_runtime scripted) no_keepalive Work s = Some s'
     \<and> callers (service_of s) 0 = Waiting
     \<and> callers (service_of s') 0 = Told (Err (WebsocketError (WsError ''reset'')))
     \<and> status (service_of s') = Leaving (Some WebsocketClosed)
     \<and> service_step no_keepalive 2 (service_of s) (service_of s')"
proof -
  obtain s s' where s: "demo no_keepalive 2 [] [Err (WsError ''reset'')] [SendConfirmed 0 (Text ''a''), Loop RecvArm] = Some s"
    "exec (reference_runtime scripted) no_keepalive Work s = Some s'"
    "callers (service_of s) 0 = Waiting" "callers (service_of s') 0 = Told (Err (WebsocketError (WsError ''reset'')))"
    "status (service_of s') = Leaving (Some WebsocketClosed)"
    by (simp add: eval_simps standing_of_def)
  from s(3,4) have "callers (service_of s') 0 \<noteq> callers (service_of s) 0" by simp
  then have "service_of s' \<noteq> service_of s" by metis
  moreover have view: "sys_view id id id v = v" for v :: "script ref_sys" by (simp add: sys_view_def conn_view_def)
  from connection_is_service [OF reference_runtime_tokio, of scripted 2 no_keepalive] demo_reachable [OF s(1)] s(2)
  have "service_step no_keepalive 2 (service_of s) (service_of s') \<or> service_of s' = service_of s"
    unfolding view by blast
  ultimately have "service_step no_keepalive 2 (service_of s) (service_of s')" by blast
  with s show ?thesis by blast
qed

section \<open>What the service promises\<close>

text \<open>
  Invariants of the service alone. At most one payload and one frame are outside the queues; a caller
  waits only for a payload that has not gone out; the consumer gets the frames in the order in which
  they were read, all of them while the connection is open; the connection ends with one cause, which is told once.
\<close>

definition in_hand :: "service \<Rightarrow> message list" where
  "in_hand t = (case reading t of Some x \<Rightarrow> job_frames (ReadJob x) | None \<Rightarrow> [])"

definition orderly :: "nat \<Rightarrow> service \<Rightarrow> bool" where
  "orderly n t \<longleftrightarrow>
     length (to_send t) \<le> Suc n \<and> length (to_read t) \<le> Suc n
     \<and> (\<forall>i. callers t i = Waiting \<longrightarrow> i \<in> set (ids (to_send t)))
     \<and> (status t = Ended \<longrightarrow> to_send t = [])"

definition in_order :: "service \<Rightarrow> bool" where
  "in_order t \<longleftrightarrow>
     (\<not> consumer t \<longrightarrow> to_read t = [])
     \<and> (\<exists>rest. data_frames (traffic t) = received t @ to_read t @ rest)
     \<and> (status t = Open \<and> consumer t \<longrightarrow> data_frames (traffic t) = received t @ to_read t @ in_hand t)"

definition one_cause :: "service \<Rightarrow> bool" where
  "one_cause t \<longleftrightarrow>
     (status t \<noteq> Over \<and> status t \<noteq> Ended \<longrightarrow> cause t = None \<and> reported t = [])
     \<and> length (reported t @ listed (cause t)) \<le> 1"

lemma may_loseD: "may_lose st ms ms' \<Longrightarrow> \<exists>lost. ms = ms' @ lost \<and> (st = Open \<longrightarrow> lost = [])"
  by (cases ms rule: rev_cases) (auto simp: may_lose_def)

lemma left_with_simps [simp]: "left_with res f \<noteq> Over" "left_with res f \<noteq> Ended"
  by (simp_all add: left_with_def split: sum.splits)

lemma listed_simps [simp]: "listed None = []" "length (listed c) \<le> Suc 0"
  by (simp_all add: listed_def split: option.splits)

lemma orderly_step: "service_step cfg n t t' \<Longrightarrow> orderly n t \<Longrightarrow> orderly n t'"
proof (induction rule: service_step.induct)
  case (put t p ps st ms res t')
  then show ?case
    by (auto simp: orderly_def tell_def may_lose_def split: if_splits option.splits)
qed (auto simp: orderly_def may_lose_def split: if_splits)

lemma in_order_step: "service_step cfg n t t' \<Longrightarrow> in_order t \<Longrightarrow> in_order t'"
proof (induction rule: service_step.induct)
  case (read t x t')
  then show ?case
    by (auto simp: in_order_def in_hand_def data_of_Received simp del: job_frames.simps)
qed (auto simp: in_order_def in_hand_def dest!: may_loseD split: if_splits)

lemma one_cause_step: "service_step cfg n t t' \<Longrightarrow> one_cause t \<Longrightarrow> one_cause t'"
  by (induction rule: service_step.induct) (auto simp: one_cause_def split: if_splits)

theorem service_promises:
  assumes "(service_step cfg n)\<^sup>*\<^sup>* fresh_service t"
  shows "orderly n t \<and> in_order t \<and> one_cause t"
  using assms
proof (induction rule: rtranclp_induct)
  case base
  then show ?case by (simp add: fresh_service_def orderly_def in_order_def one_cause_def in_hand_def)
next
  case (step t t')
  then show ?case by (blast intro: orderly_step in_order_step one_cause_step)
qed

text \<open>So every reachable state of a connection keeps these promises, over every such runtime.\<close>

lemma reachable_service:
  assumes "tokio R vt vr vo" and "reachable R cfg n s"
  shows "(service_step cfg n)\<^sup>*\<^sup>* fresh_service (service_of (sys_view vt vr vo s))"
  using tokio.reachable_view [OF assms]
proof (induction rule: reachable.induct)
  case (start w s)
  then show ?case by (simp add: service_init)
next
  case (step s a s')
  then have "service_step cfg n (service_of s) (service_of s') \<or> service_of s' = service_of s"
    using service_exec [OF step.hyps] by (simp add: service_stutters_def)
  with step.IH show ?case by (auto intro: rtranclp.rtrancl_into_rtrancl)
qed

theorem connection_promises:
  assumes "tokio R vt vr vo" and "reachable R cfg n s"
  shows "orderly n (service_of (sys_view vt vr vo s)) \<and> in_order (service_of (sys_view vt vr vo s))
    \<and> one_cause (service_of (sys_view vt vr vo s))"
  by (rule service_promises [OF reachable_service [OF assms]])

end
