(* ===== verification/Queue_Channels.thy ===== *)
theory Queue_Channels
  imports Loop_Refinement
begin

text \<open>
  A second implementation of the channels, nearer to a real one: the queue is two lists, the front
  in order and the back reversed, so that neither sending nor receiving walks the queue. It keeps
  the contract of \<open>Channels\<close> under the view that joins the two lists, so every result about the
  reference channels holds on it as well.
\<close>

record 'a queue =
  front :: "'a list"
  rear :: "'a list"
  limit :: nat
  permits_out :: nat
  senders_alive :: nat
  receiver_alive :: bool

definition queue_view :: "'a queue \<Rightarrow> 'a chan" where
  "queue_view q =
     \<lparr>buf = front q @ rev (rear q), cap = limit q, reserved = permits_out q,
      senders = senders_alive q, rx_alive = receiver_alive q\<rparr>"

definition queue_room :: "'a queue \<Rightarrow> bool" where
  "queue_room q \<longleftrightarrow> permits_out q + (length (front q) + length (rear q)) < limit q"

definition queue_push :: "'a queue \<Rightarrow> 'a \<Rightarrow> 'a queue" where
  "queue_push q x = q\<lparr>rear := x # rear q\<rparr>"

text \<open>Taking the first element: the back list is turned over when the front is used up.\<close>

definition queue_pop :: "'a queue \<Rightarrow> ('a queue \<times> 'a) option" where
  "queue_pop q =
     (case front q of
        x # xs \<Rightarrow> Some (q\<lparr>front := xs\<rparr>, x)
      | [] \<Rightarrow> (case rev (rear q) of
                 x # xs \<Rightarrow> Some (q\<lparr>front := xs, rear := []\<rparr>, x)
               | [] \<Rightarrow> None))"

definition queue_ops :: "('a queue, 'a) mpsc_ops" where
  "queue_ops =
     \<lparr>ch_new = (\<lambda>n. if n = 0 then None
        else Some \<lparr>front = [], rear = [], limit = n, permits_out = 0, senders_alive = 1, receiver_alive = True\<rparr>),
      ch_send = (\<lambda>q x. if \<not> receiver_alive q then Ready (q, Err x)
        else if queue_room q then Ready (queue_push q x, Ok ()) else Pending),
      ch_try_send = (\<lambda>q x. if \<not> receiver_alive q then (q, Err (TrySendClosed x))
        else if queue_room q then (queue_push q x, Ok ()) else (q, Err (TrySendFull x))),
      ch_reserve = (\<lambda>q. if \<not> receiver_alive q then Ready (q, Err ())
        else if queue_room q then Ready (q\<lparr>permits_out := Suc (permits_out q)\<rparr>, Ok ()) else Pending),
      ch_permit_send = (\<lambda>q x. (queue_push q x)\<lparr>permits_out := permits_out q - 1\<rparr>),
      ch_recv = (\<lambda>q. case queue_pop q of
          Some (q', x) \<Rightarrow> Ready (q', Some x)
        | None \<Rightarrow> if senders_alive q = 0 then Ready (q, None) else Pending),
      ch_clone_tx = (\<lambda>q. q\<lparr>senders_alive := Suc (senders_alive q)\<rparr>),
      ch_drop_tx = (\<lambda>q. q\<lparr>senders_alive := senders_alive q - 1\<rparr>),
      ch_drop_rx = (\<lambda>q. (q\<lparr>front := [], rear := [], receiver_alive := False\<rparr>, front q @ rev (rear q)))\<rparr>"

lemma queue_ops_simps [simp]:
  "ch_new queue_ops n = (if n = 0 then None
     else Some \<lparr>front = [], rear = [], limit = n, permits_out = 0, senders_alive = 1, receiver_alive = True\<rparr>)"
  "ch_send queue_ops q x = (if \<not> receiver_alive q then Ready (q, Err x)
     else if queue_room q then Ready (queue_push q x, Ok ()) else Pending)"
  "ch_try_send queue_ops q x = (if \<not> receiver_alive q then (q, Err (TrySendClosed x))
     else if queue_room q then (queue_push q x, Ok ()) else (q, Err (TrySendFull x)))"
  "ch_reserve queue_ops q = (if \<not> receiver_alive q then Ready (q, Err ())
     else if queue_room q then Ready (q\<lparr>permits_out := Suc (permits_out q)\<rparr>, Ok ()) else Pending)"
  "ch_permit_send queue_ops q x = (queue_push q x)\<lparr>permits_out := permits_out q - 1\<rparr>"
  "ch_recv queue_ops q = (case queue_pop q of
       Some (q', y) \<Rightarrow> Ready (q', Some y)
     | None \<Rightarrow> if senders_alive q = 0 then Ready (q, None) else Pending)"
  "ch_clone_tx queue_ops q = q\<lparr>senders_alive := Suc (senders_alive q)\<rparr>"
  "ch_drop_tx queue_ops q = q\<lparr>senders_alive := senders_alive q - 1\<rparr>"
  "ch_drop_rx queue_ops q = (q\<lparr>front := [], rear := [], receiver_alive := False\<rparr>, front q @ rev (rear q))"
  by (simp_all add: queue_ops_def)

lemma queue_view_fields [simp]:
  "buf (queue_view q) = front q @ rev (rear q)" "cap (queue_view q) = limit q"
  "reserved (queue_view q) = permits_out q" "senders (queue_view q) = senders_alive q"
  "rx_alive (queue_view q) = receiver_alive q"
  by (simp_all add: queue_view_def)

lemma queue_view_eq:
  "queue_view q = c \<longleftrightarrow> front q @ rev (rear q) = buf c \<and> limit q = cap c \<and> permits_out q = reserved c
     \<and> senders_alive q = senders c \<and> receiver_alive q = rx_alive c"
  by (cases c) (auto simp: queue_view_def)

lemma queue_room_view [simp]: "has_room (queue_view q) = queue_room q"
  by (simp add: has_room_def queue_room_def)

lemma queue_pop_view:
  "(case buf (queue_view q) of [] \<Rightarrow> None | x # xs \<Rightarrow> Some ((queue_view q)\<lparr>buf := xs\<rparr>, x))
     = map_option (map_prod queue_view id) (queue_pop q)"
  by (auto simp: queue_pop_def queue_view_def split: list.splits)

lemma queue_recv_view:
  "map_poll (map_prod queue_view id) (ch_recv queue_ops q) = chan_recv (queue_view q)"
  using queue_pop_view [of q]
  by (auto simp: chan_recv_def split: list.splits option.splits)

interpretation queue: mpsc_solo queue_ops queue_view
proof (unfold_locales, goal_cases)
  case (1 n)
  then show ?case by (simp add: chan_new_def queue_view_def)
next
  case (2 c x c' r)
  then show ?case
    by (auto simp: chan_send_def queue_view_eq queue_push_def split: if_splits)
next
  case (3 c)
  then show ?case by (rule queue_recv_view)
qed (auto simp: chan_clone_tx_def chan_drop_tx_def chan_drop_rx_def chan_try_send_def chan_reserve_def
    chan_permit_send_def queue_view_eq queue_push_def)

text \<open>A runtime on these channels, and with a timer that is up to a millisecond late.\<close>

definition queue_runtime :: "'w transport \<Rightarrow> (payload queue, message queue, reply slot, 'w) runtime" where
  "queue_runtime T =
     \<lparr>tx_ops = queue_ops, rx_ops = queue_ops, os_ops = slot_ops, ws_ops = T,
      sleep_elapsed = (\<lambda>started d now. started + d < now)\<rparr>"

lemma queue_runtime_simps [simp]:
  "tx_ops (queue_runtime T) = queue_ops" "rx_ops (queue_runtime T) = queue_ops"
  "os_ops (queue_runtime T) = slot_ops" "ws_ops (queue_runtime T) = T"
  "sleep_elapsed (queue_runtime T) started d now \<longleftrightarrow> started + d < now"
  by (simp_all add: queue_runtime_def)

interpretation queued: tokio "queue_runtime T" queue_view queue_view id for T
  by unfold_locales
    (simp_all add: map_ident_simps queue.view_new queue.view_send queue.view_recv queue.view_clone_tx
      queue.view_drop_tx queue.view_drop_rx queue.view_try_send queue.view_reserve queue.view_permit_send
      del: queue_ops_simps)

lemma queue_runtime_tokio: "tokio (queue_runtime T) queue_view queue_view id"
  by unfold_locales

end
