(* ===== verification/Connection.thy ===== *)
theory Connection
  imports Examples Queue_Channels "HOL-Library.Sublist"
begin

text \<open>
  The properties of a connection that its user relies on, for every runtime that keeps \<open>tokio\<close>'s
  documentation (the locale \<open>tokio\<close>), every transport, every interleaving of the loop, the
  handles, the network and the clock. Each is an invariant of the reference system, pulled back
  along the view of the runtime's channels.
\<close>

section \<open>The invariants, for any runtime\<close>

context tokio
begin

abbreviation view :: "('t, 'r, 'o, 'w) sys \<Rightarrow> 'w ref_sys" where
  "view \<equiv> sys_view vt vr vo"

lemma view_shape: "reachable R cfg n s \<Longrightarrow> shape_inv n (view s)"
  using reachable_shape [OF reachable_view] .

lemma view_inbound: "reachable R cfg n s \<Longrightarrow> inbound_inv (view s)"
  using reachable_inbound [OF reachable_view] .

lemma view_terminal: "reachable R cfg n s \<Longrightarrow> terminal_inv (view s)"
  using reachable_terminal [OF reachable_view] .

lemma view_ping: "reachable R cfg n s \<Longrightarrow> ping_inv (view s)"
  using reachable_ping [OF reachable_view] .

lemma view_outbound: "reachable R cfg n s \<Longrightarrow> outbound_inv cfg (view s)"
  using reachable_outbound [OF reachable_view] .

lemma exec_sys_spec: "exec R cfg a s = Some s' \<Longrightarrow> sys_spec cfg (view s) (view s')"
  using exec_spec [OF exec_view] .

lemma run_view: "run R cfg as s = Some s' \<Longrightarrow> run (reference R) cfg as (view s) = Some (view s')"
proof (induction as arbitrary: s)
  case (Cons a as)
  then obtain t where t: "exec R cfg a s = Some t" "run R cfg as t = Some s'"
    by (auto split: option.splits)
  show ?case using exec_view [OF t(1)] Cons.IH [OF t(2)] by simp
qed simp

end

section \<open>The inbound path\<close>

text \<open>
  C1. Inbound delivery is lossless and in order: the data frames read off the stream are exactly
  the frames handed to the consumer, then those queued for it, then the one that the loop has in hand,
  in the order in which they arrived, as long as the receive half is alive. Once the loop has left, at
  most one further frame (held or just read when it left) is missing. After the receive half is
  gone the frames delivered before are still a prefix.
\<close>

theorem inbound_lossless:
  assumes "tokio R vt vr vo" and "reachable R cfg n s"
  shows "(rx_handle s \<longrightarrow>
      (\<exists>lost. data_frames (wire s) = delivered s @ buf (vr (rx_chan (conn s))) @ held (task s) @ lost
         \<and> length lost \<le> 1 \<and> (active (task s) \<longrightarrow> lost = [])))
    \<and> prefix (delivered s) (data_frames (wire s))"
  using tokio.view_inbound [OF assms]
  by (fastforce elim!: inbound_invE simp: prefix_def)

lemma inbound_lossless_witness:
  "\<exists>s. demo no_keepalive 1 [Some (Ok (Text ''a'')), Some (Ok (Ping [])), Some (Ok (Text ''b''))] []
        [Loop NextArm, Work, Loop NextArm, Work, Loop NextArm, Work, Recv] = Some s
     \<and> data_frames (wire s) = [Text ''a'', Text ''b''] \<and> delivered s = [Text ''a'']
     \<and> task s = Holding (Text ''b'') \<and> prefix (delivered s) (data_frames (wire s))"
proof -
  obtain s where s: "demo no_keepalive 1 [Some (Ok (Text ''a'')), Some (Ok (Ping [])), Some (Ok (Text ''b''))] []
        [Loop NextArm, Work, Loop NextArm, Work, Loop NextArm, Work, Recv] = Some s"
    "rx_handle s" "delivered s = [Text ''a'']" "task s = Holding (Text ''b'')" "buf (rx_chan (conn s)) = []"
    by (simp add: eval_simps)
  with inbound_lossless [OF reference_runtime_tokio demo_reachable [OF s(1)]] show ?thesis by auto
qed

text \<open>
  C10. Backpressure bounds memory: as long as the receive half is alive, the frames taken off the
  socket and not yet handed to the consumer never exceed the channel's capacity plus one (plus one
  more that is given up when the loop leaves), whatever the peer sends.
\<close>

theorem inbound_bounded:
  assumes "tokio R vt vr vo" and "reachable R cfg n s" and "rx_handle s"
  shows "length (data_frames (wire s)) \<le> length (delivered s) + n + 1"
proof -
  have shape: "length (buf (vr (rx_chan (conn s)))) \<le> n"
    using tokio.view_shape [OF assms(1,2)] by (simp add: shape_inv_def)
  from tokio.view_inbound [OF assms(1,2)] show ?thesis
  proof (cases rule: inbound_invE)
    case (here lost)
    then have "length (held (task s)) + length lost \<le> 1"
      using held_length [of "task s"] held_inactive [of "task s"] by (cases "active (task s)") auto
    with here shape show ?thesis by simp
  qed (use assms(3) in simp)
qed

lemma inbound_bounded_witness:
  "\<exists>s. demo no_keepalive 1 [Some (Ok (Text ''a'')), Some (Ok (Text ''b'')), Some (Ok (Text ''c''))] []
        [Loop NextArm, Work, Loop NextArm, Work] = Some s
     \<and> rx_handle s \<and> inbox (fst (ws (conn s))) = [Some (Ok (Text ''c''))]
     \<and> length (data_frames (wire s)) \<le> length (delivered s) + 1 + 1"
proof -
  obtain s where s: "demo no_keepalive 1 [Some (Ok (Text ''a'')), Some (Ok (Text ''b'')), Some (Ok (Text ''c''))] []
        [Loop NextArm, Work, Loop NextArm, Work] = Some s"
    "rx_handle s" "inbox (fst (ws (conn s))) = [Some (Ok (Text ''c''))]"
    by (simp add: eval_simps)
  with inbound_bounded [OF reference_runtime_tokio demo_reachable [OF s(1)] s(2)] show ?thesis by blast
qed

section \<open>Refinement\<close>

text \<open>
  Every run of the system on a real runtime is a run of the system on the reference channels,
  with the same actions, from the view of the first state to the view of the last: the task, the
  calls, the frames delivered, the terminal errors taken and the traffic on the wire are the same.
\<close>

theorem run_refines_reference:
  assumes "tokio R vt vr vo" and "init_sys R n w = Some s" and "run R cfg as s = Some s'"
  shows "init_sys (reference R) n w = Some (sys_view vt vr vo s)
    \<and> run (reference R) cfg as (sys_view vt vr vo s) = Some (sys_view vt vr vo s')"
  using tokio.init_view [OF assms(1,2)] tokio.run_view [OF assms(1,3)] by blast

lemma run_refines_reference_witness:
  "\<exists>s s'. init_sys (queue_runtime scripted) 1 \<lparr>inbox = [Some (Ok (Text ''a''))], outcomes = []\<rparr> = Some s
     \<and> run (queue_runtime scripted) no_keepalive [Loop NextArm, Work, Recv] s = Some s'
     \<and> delivered s' = [Text ''a'']
     \<and> run (reference (queue_runtime scripted)) no_keepalive [Loop NextArm, Work, Recv]
         (sys_view queue_view queue_view id s) = Some (sys_view queue_view queue_view id s')"
proof -
  obtain s s' where s: "init_sys (queue_runtime scripted) 1 \<lparr>inbox = [Some (Ok (Text ''a''))], outcomes = []\<rparr> = Some s"
    "run (queue_runtime scripted) no_keepalive [Loop NextArm, Work, Recv] s = Some s'" "delivered s' = [Text ''a'']"
    by (simp add: eval_simps queue_room_def queue_push_def queue_pop_def)
  from run_refines_reference [OF queue_runtime_tokio s(1,2)] s show ?thesis by blast
qed

text \<open>
  The other direction: only queueing may wait longer in a real runtime. Every other step the reference
  system can take, the real one can take too.
\<close>

fun queues :: "'w action \<Rightarrow> bool" where
  "queues (SendConfirmed _ _) = True"
| "queues (SendClose _) = True"
| "queues (SendUnconfirmed _) = True"
| "queues _ = False"

context tokio
begin

lemma exec_enabled:
  assumes "\<not> queues a" and "exec (reference R) cfg a (view s) = Some v"
  shows "exec R cfg a s \<noteq> None"
proof (cases a)
  case (Loop arm)
  with assms(2) tokio.view_loop_step [OF tokio_logged, of cfg "sleep_started s" "clock s" arm "task s" "conn s"]
  show ?thesis by (auto simp: reference_logged split: option.splits)
next
  case Work
  with assms(2) tokio.view_work_step [OF tokio_logged, of cfg "task s" "conn s"]
  show ?thesis by (auto simp: reference_logged split: option.splits)
next
  case Exit
  with assms(2) tokio.view_exit_step [OF tokio_logged, of "task s" "conn s"]
  show ?thesis by (auto simp: reference_logged split: option.splits)
next
  case (Await i)
  with assms(2) os.os_recv_Pending [of "slots (conn s) i"] show ?thesis
    by (auto simp: await_response_def reference_logged split: if_splits poll.splits)
next
  case Recv
  with assms(2) rx.recv_Pending [of "rx_chan (conn s)"] show ?thesis
    by (auto simp: recv_raw_def reference_logged Let_def split_beta split: if_splits poll.splits option.splits sum.splits)
next
  case PollRecv
  with assms(2) rx.recv_Pending [of "rx_chan (conn s)"] show ?thesis
    by (auto simp: poll_recv_raw_def reference_logged Let_def split_beta split: if_splits poll.splits option.splits sum.splits)
qed (use assms in \<open>auto split: if_splits task.splits\<close>)

lemma exec_reflect:
  assumes "\<not> queues a" and "exec (reference R) cfg a (view s) = Some v"
  shows "\<exists>s'. exec R cfg a s = Some s' \<and> view s' = v"
proof -
  from exec_enabled [OF assms] obtain s' where s': "exec R cfg a s = Some s'" by blast
  with exec_view [OF s'] assms(2) show ?thesis by simp
qed

lemma run_reflect:
  assumes "list_all (\<lambda>a. \<not> queues a) as" and "run (reference R) cfg as (view s) = Some v"
  shows "\<exists>s'. run R cfg as s = Some s' \<and> view s' = v"
  using assms
proof (induction as arbitrary: s)
  case (Cons a as)
  then obtain u where u: "exec (reference R) cfg a (view s) = Some u" "run (reference R) cfg as u = Some v"
    by (auto split: option.splits)
  from Cons.prems(1) exec_reflect [OF _ u(1)] obtain t where "exec R cfg a s = Some t" "view t = u" by auto
  with Cons u(2) show ?case by auto
qed simp

end

text \<open>
  Conversely, every run of the reference system that queues nothing new (the loop and its exit,
  receives, waiting for answers, cancelling, dropping handles, time and network) is a run of the
  system on the real runtime: progress of the reference system is progress of the real one.
\<close>

theorem reference_runs_reflected:
  assumes "tokio R vt vr vo" and "list_all (\<lambda>a. \<not> queues a) as"
    and "run (reference R) cfg as (sys_view vt vr vo s) = Some v"
  shows "\<exists>s'. run R cfg as s = Some s' \<and> sys_view vt vr vo s' = v"
  using tokio.run_reflect [OF assms] .

lemma reference_runs_reflected_witness:
  "\<exists>s s'. init_sys (queue_runtime scripted) 1 \<lparr>inbox = [Some (Ok (Text ''a''))], outcomes = []\<rparr> = Some s
     \<and> run (queue_runtime scripted) no_keepalive [Loop NextArm, Work, Recv] s = Some s' \<and> delivered s' = [Text ''a'']"
proof -
  obtain s where s: "init_sys (queue_runtime scripted) 1 \<lparr>inbox = [Some (Ok (Text ''a''))], outcomes = []\<rparr> = Some s"
    by (simp add: eval_simps)
  then have "\<exists>v. run (reference (queue_runtime scripted)) no_keepalive [Loop NextArm, Work, Recv]
      (sys_view queue_view queue_view id s) = Some v \<and> delivered v = [Text ''a'']"
    by (auto simp: eval_simps queue_view_def sys_view_def conn_view_def)
  then obtain v where v: "run (reference (queue_runtime scripted)) no_keepalive [Loop NextArm, Work, Recv]
      (sys_view queue_view queue_view id s) = Some v" "delivered v = [Text ''a'']" by blast
  have "list_all (\<lambda>a. \<not> queues a) [Loop NextArm, Work, Recv]" by simp
  from reference_runs_reflected [OF queue_runtime_tokio this v(1)] v(2) s show ?thesis by auto
qed

section \<open>The outbound path\<close>

text \<open>
  C2. Outbound order: the payloads that were queued are, in the order of the queue, those offered to
  the socket, the one being sent, those still queued and those dropped unsent; payloads are dropped
  only when the loop has finished. What the socket was offered is an interleaving of these payloads with the loop's own
  control frames (pongs and keepalives), and nothing else.
\<close>

theorem outbound_order:
  assumes "tokio R vt vr vo" and "reachable R cfg n s"
  shows "\<exists>outs ctrl dropped.
      queued s = map fst outs @ inflight (task s) @ buf (vt (tx_chan (conn s))) @ dropped
      \<and> (dropped \<noteq> [] \<longrightarrow> finished (task s))
      \<and> sends (wire s) \<in> shuffles (sent_pairs outs) ctrl
      \<and> fst ` set ctrl \<subseteq> control_frames cfg"
  using tokio.view_outbound [OF assms]
  unfolding outbound_inv_def wire_rel_def sys_view_simps conn_view_simps append_assoc by blast

lemma outbound_order_witness:
  "\<exists>s. demo default_keepalive 2 [Some (Ok (Ping []))] []
        [SendUnconfirmed (Text ''a''), SendUnconfirmed (Text ''b''), Loop RecvArm, Work, Loop NextArm, Work,
         Tick 3000, Loop SleepArm, Work, Loop RecvArm, Work] = Some s
     \<and> map fst (sends (wire s)) = [Text ''a'', Pong pong_bytes, Ping [], Text ''b'']
     \<and> (\<exists>outs ctrl dropped. map fst outs @ dropped = queued s
          \<and> sends (wire s) \<in> shuffles (sent_pairs outs) ctrl \<and> fst ` set ctrl \<subseteq> control_frames default_keepalive)"
proof -
  obtain s where s: "demo default_keepalive 2 [Some (Ok (Ping []))] []
        [SendUnconfirmed (Text ''a''), SendUnconfirmed (Text ''b''), Loop RecvArm, Work, Loop NextArm, Work,
         Tick 3000, Loop SleepArm, Work, Loop RecvArm, Work] = Some s"
    "map fst (sends (wire s)) = [Text ''a'', Pong pong_bytes, Ping [], Text ''b'']" "buf (id (tx_chan (conn s))) = []"
    "task s = AtSelect"
    by (simp add: eval_simps)
  from outbound_order [OF reference_runtime_tokio demo_reachable [OF s(1)]] obtain outs ctrl dropped where
    "queued s = map fst outs @ inflight (task s) @ buf (id (tx_chan (conn s))) @ dropped"
    "sends (wire s) \<in> shuffles (sent_pairs outs) ctrl" "fst ` set ctrl \<subseteq> control_frames default_keepalive"
    by blast
  with s(3,4) have "\<exists>outs ctrl dropped. map fst outs @ dropped = queued s
      \<and> sends (wire s) \<in> shuffles (sent_pairs outs) ctrl \<and> fst ` set ctrl \<subseteq> control_frames default_keepalive"
    by (intro exI [where x = outs] exI [where x = ctrl] exI [where x = dropped]) simp
  with s(1,2) show ?thesis by (intro exI [where x = s] conjI)
qed

section \<open>Confirmed calls\<close>

text \<open>Being offered to the socket, read off the record of the wire.\<close>

lemma shuffles_sends: "zs \<in> shuffles xs ys \<Longrightarrow> x \<in> set xs \<Longrightarrow> x \<in> set zs"
  using set_shuffles by fastforce

lemma outcome_of_sends:
  assumes "wire_rel cfg s outs ctrl dropped" and "outcome_of outs i r"
  shows "\<exists>p res. p \<in> set (queued s) \<and> response_tx p = Some i
      \<and> (payload_message p, res) \<in> set (sends (wire s)) \<and> r = map_err error_from res"
proof -
  from assms(2) obtain p res where p: "(p, res) \<in> set outs" "response_tx p = Some i" "r = map_err error_from res"
    by (auto simp: outcome_of_def)
  moreover from p(1) assms(1) have "p \<in> set (queued s)"
    by (force simp: wire_rel_def)
  moreover from p(1) have "(payload_message p, res) \<in> set (sent_pairs outs)"
    by (force simp: sent_pairs_def)
  with assms(1) have "(payload_message p, res) \<in> set (sends (wire s))"
    by (auto simp: wire_rel_def dest: shuffles_sends)
  ultimately show ?thesis by blast
qed

text \<open>
  C8. A confirmed send that returns, returns the result of the socket for its own message: if it
  queued its message, that message was offered to the socket and the call returns exactly what the
  socket answered; if it did not, the call returns an error. In particular \<open>Ok(())\<close> means that this
  message was accepted by the socket.
\<close>

theorem confirmed_result:
  assumes "tokio R vt vr vo" and "reachable R cfg n s" and "calls s i = Done (Returned r)"
  shows "(\<exists>p res. p \<in> set (queued s) \<and> response_tx p = Some i
        \<and> (payload_message p, res) \<in> set (sends (wire s)) \<and> r = map_err error_from res)
      \<or> (is_err r \<and> (\<forall>p \<in> set (queued s). response_tx p \<noteq> Some i))"
proof -
  from tokio.view_outbound [OF assms(1,2)] obtain outs ctrl dropped where
    w: "wire_rel cfg (sys_view vt vr vo s) outs ctrl dropped" and c: "calls_rel (sys_view vt vr vo s) outs dropped"
    by (auto simp: outbound_inv_def)
  from c assms(3) have "outcome_of outs i r \<or> is_err r \<and> i \<notin> set (ids (queued s))"
    by (auto simp: calls_rel_def call_rel_def)
  then show ?thesis
    using outcome_of_sends [OF w] by (auto simp: ids_set)
qed

lemma confirmed_result_witness:
  "\<exists>s. demo no_keepalive 2 [] [Ok (), Err (WsError ''reset'')]
        [SendConfirmed 0 (Text ''a''), SendConfirmed 1 (Text ''b''), Loop RecvArm, Work, Loop RecvArm, Work, Await 0, Await 1] = Some s
     \<and> calls s 0 = Done (Returned (Ok ())) \<and> calls s 1 = Done (Returned (Err (WebsocketError (WsError ''reset''))))
     \<and> (\<exists>p. p \<in> set (queued s) \<and> response_tx p = Some 0 \<and> (payload_message p, Ok ()) \<in> set (sends (wire s)))"
proof -
  obtain s where s: "demo no_keepalive 2 [] [Ok (), Err (WsError ''reset'')]
        [SendConfirmed 0 (Text ''a''), SendConfirmed 1 (Text ''b''), Loop RecvArm, Work, Loop RecvArm, Work, Await 0, Await 1] = Some s"
    "calls s 0 = Done (Returned (Ok ()))" "calls s 1 = Done (Returned (Err (WebsocketError (WsError ''reset''))))"
    by (simp add: eval_simps)
  from confirmed_result [OF reference_runtime_tokio demo_reachable [OF s(1)] s(2)]
  have "\<exists>p. p \<in> set (queued s) \<and> response_tx p = Some 0 \<and> (payload_message p, Ok ()) \<in> set (sends (wire s))"
    by auto
  with s show ?thesis by blast
qed

text \<open>
  C23. A confirmed send that panics (its one-shot was dropped without an answer) had queued its
  message, the loop had finished, and the message was never offered to the socket: the payloads
  offered are a prefix of the queue that does not reach it.
\<close>

theorem panicked_call:
  assumes "tokio R vt vr vo" and "reachable R cfg n s" and "calls s i = Done Panicked"
  shows "finished (task s)
    \<and> (\<exists>outs ctrl dropped. queued s = map fst outs @ dropped
        \<and> sends (wire s) \<in> shuffles (sent_pairs outs) ctrl \<and> fst ` set ctrl \<subseteq> control_frames cfg
        \<and> (\<exists>p \<in> set dropped. response_tx p = Some i)
        \<and> (\<forall>p \<in> fst ` set outs. response_tx p \<noteq> Some i))"
proof -
  from tokio.view_outbound [OF assms(1,2)] obtain outs ctrl dropped where
    w: "wire_rel cfg (sys_view vt vr vo s) outs ctrl dropped" and c: "calls_rel (sys_view vt vr vo s) outs dropped"
    by (auto simp: outbound_inv_def)
  from c assms(3) have i: "i \<in> set (ids dropped)" and d: "distinct (ids (queued s))"
    by (auto simp: calls_rel_def call_rel_def)
  from w have order: "queued s = map fst outs @ inflight (task s) @ buf (vt (tx_chan (conn s))) @ dropped"
    and "dropped \<noteq> [] \<longrightarrow> finished (task s)"
    and sent: "sends (wire s) \<in> shuffles (sent_pairs outs) ctrl" "fst ` set ctrl \<subseteq> control_frames cfg"
    by (simp_all add: wire_rel_def)
  with i have fin: "finished (task s)" by auto
  then have "inflight (task s) = []" by (rule finished_inflight)
  with fin tokio.view_shape [OF assms(1,2)] order have q: "queued s = map fst outs @ dropped"
    by (simp add: shape_inv_def)
  with d i have "\<forall>p \<in> fst ` set outs. response_tx p \<noteq> Some i"
    using ids_set [of i "map fst outs"] by auto
  moreover from i have "\<exists>p \<in> set dropped. response_tx p = Some i" by (simp add: ids_set)
  ultimately show ?thesis using fin q sent by blast
qed

lemma panicked_call_witness:
  "\<exists>s. demo no_keepalive 1 [Some (Ok (Close None))] []
        [SendConfirmed 0 (Text ''m''), Loop NextArm, Work, Exit, Exit, Exit, Await 0] = Some s
     \<and> calls s 0 = Done Panicked \<and> finished (task s)"
proof -
  obtain s where s: "demo no_keepalive 1 [Some (Ok (Close None))] []
        [SendConfirmed 0 (Text ''m''), Loop NextArm, Work, Exit, Exit, Exit, Await 0] = Some s"
    "calls s 0 = Done Panicked"
    using demo_panic by blast
  from panicked_call [OF reference_runtime_tokio demo_reachable [OF s(1)] s(2)] s show ?thesis by blast
qed

end
