(* ===== verification/Lifecycle.thy ===== *)
theory Lifecycle
  imports Connection
begin

text \<open>
  How a connection ends, and that it does: the terminal error, the exit of the loop, calls that
  outlive it, a socket that does not answer, cancellation, dropped handles, and what the loop does in
  time (pings, keepalives).
\<close>

section \<open>The terminal error\<close>

text \<open>
  C11. The cause that ended the loop is handed out at most once over all calls of all handles, and
  what is handed out is that cause; a graceful close hands out nothing.
\<close>

theorem terminal_error_once:
  assumes "tokio R vt vr vo" and "reachable R cfg n s"
  shows "taken s = [] \<or> (\<exists>e. recorded_state (task s) = Some (Error e) \<and> taken s = [e])"
  using tokio.view_terminal [OF assms]
  by (auto simp: terminal_inv_def drain_def split: option.splits loop_state.splits)

lemma terminal_error_once_witness:
  "\<exists>s. demo no_keepalive 1 [Some (Err (WsError ''reset''))] []
        [Loop NextArm, Work, Exit, Exit, Exit, Recv, SendUnconfirmed (Text ''x''), Recv] = Some s
     \<and> taken s = [WebsocketError (WsError ''reset'')]"
proof -
  obtain s where s: "demo no_keepalive 1 [Some (Err (WsError ''reset''))] []
        [Loop NextArm, Work, Exit, Exit, Exit, Recv, SendUnconfirmed (Text ''x''), Recv] = Some s"
    "recorded_state (task s) = Some (Error (WebsocketError (WsError ''reset'')))" "taken s \<noteq> []"
    by (simp add: eval_simps)
  from terminal_error_once [OF reference_runtime_tokio demo_reachable [OF s(1)]] s show ?thesis by auto
qed

text \<open>
  C9. The end of the receive stream comes last and tells the truth: when a receive reports an error,
  the loop has left and recorded its cause, every frame read off the stream has been delivered (but
  for at most one that the loop gave up), and the error is that cause if it was not handed out
  before, and \<open>WebsocketClosed\<close> otherwise.
\<close>

theorem receive_error:
  assumes "tokio R vt vr vo" and "reachable R cfg n s" and "rx_handle s"
    and "recv_raw (logged_runtime R) (conn s) = Ready (c, Err e)"
  shows "\<exists>st lost. recorded_state (task s) = Some st \<and> sender_dropped (task s)
      \<and> data_frames (wire s) = delivered s @ lost \<and> length lost \<le> 1
      \<and> (e = WebsocketClosed \<or> (st = Error e \<and> taken s = []))
      \<and> (\<forall>e'. st = Error e' \<and> taken s = [] \<longrightarrow> e = e')"
proof -
  let ?v = "sys_view vt vr vo s"
  from tokio.view_recv_raw [OF tokio.tokio_logged [OF assms(1)] assms(4)]
  have e: "buf (vr (rx_chan (conn s))) = []" "senders (vr (rx_chan (conn s))) = 0"
    "e = (case terminal_error (conn s) of Some err \<Rightarrow> err | None \<Rightarrow> WebsocketClosed)"
    by (auto simp: recv_raw_def chan_recv_def take_terminal_error_def take_terminal_error_opt_def
        split: list.splits if_splits)
  from tokio.view_shape [OF assms(1,2)] e(2) have dropped: "sender_dropped (task s)"
    by (simp add: shape_inv_def split: if_splits)
  then obtain st where st: "recorded_state (task s) = Some st"
    by (blast dest: dropped_recorded)
  from dropped have inactive: "\<not> active (task s)" by (cases "task s") auto
  obtain lost where lost: "data_frames (wire s) = delivered s @ lost" "length lost \<le> 1"
    using tokio.view_inbound [OF assms(1,2)] assms(3) e(1) held_inactive [OF inactive]
    by (auto simp: inbound_inv_def)
  from tokio.view_terminal [OF assms(1,2)] st e(3) show ?thesis
    using dropped lost
    by (auto simp: terminal_inv_def drain_def split: loop_state.splits option.splits)
qed

lemma receive_error_witness:
  "\<exists>s c. demo no_keepalive 1 [Some (Ok (Text ''a'')), Some (Err (WsError ''reset''))] []
        [Loop NextArm, Work, Loop NextArm, Work, Exit, Exit, Recv] = Some s
     \<and> recv_raw (logged_runtime (reference_runtime scripted)) (conn s) = Ready (c, Err (WebsocketError (WsError ''reset'')))
     \<and> (\<exists>lost. data_frames (wire s) = [Text ''a''] @ lost \<and> length lost \<le> 1)"
proof -
  obtain s c where s: "demo no_keepalive 1 [Some (Ok (Text ''a'')), Some (Err (WsError ''reset''))] []
        [Loop NextArm, Work, Loop NextArm, Work, Exit, Exit, Recv] = Some s" "rx_handle s" "delivered s = [Text ''a'']"
    "recv_raw (logged_runtime (reference_runtime scripted)) (conn s) = Ready (c, Err (WebsocketError (WsError ''reset'')))"
    by (simp add: eval_simps)
  from receive_error [OF reference_runtime_tokio demo_reachable [OF s(1)] s(2,4)] s(1,3,4) show ?thesis by auto
qed

section \<open>The exit of the loop\<close>

lemma exit_enabled:
  assumes "task s = Exited st" and "st \<noteq> Running"
  shows "\<exists>s'. run R cfg [Exit, Exit, Exit] s = Some s' \<and> task s' = Finished st"
  using assms by (cases st) (simp_all add: exit_step_def record_terminal_def)

context tokio
begin

lemma exit_finishes:
  assumes "reachable R cfg n s" and "\<not> active (task s)"
  shows "task s \<noteq> Crashed
    \<and> (\<exists>k s'. k \<le> 3 \<and> run R cfg (replicate k Exit) s = Some s' \<and> finished (task s'))"
proof -
  from view_terminal [OF assms(1)] have ok: "task s \<noteq> Crashed" "task s \<noteq> Exited Running"
    by (simp_all add: terminal_inv_def)
  have "\<exists>k s'. k \<le> 3 \<and> run R cfg (replicate k Exit) s = Some s' \<and> finished (task s')"
  proof (cases "task s")
    case (Exited st)
    with ok exit_enabled [of s st R cfg] show ?thesis
      by (intro exI [where x = 3]) (auto simp: numeral_3_eq_3)
  next
    case (Recorded st)
    then show ?thesis by (intro exI [where x = 2]) (simp add: exit_step_def numeral_2_eq_2)
  next
    case (SenderDropped st)
    then show ?thesis by (intro exI [where x = 1]) (simp add: exit_step_def)
  next
    case (Finished st)
    then show ?thesis by (intro exI [where x = 0]) simp
  qed (use ok assms(2) in simp_all)
  with ok show ?thesis by blast
qed

end

text \<open>
  C17. The loop leaves cleanly: the \<open>unreachable!\<close> after the main loop is not reached in any run, and
  a loop that has left its main loop always finishes, in at most three further steps of its own,
  whatever the others did before.
\<close>

theorem loop_finishes:
  assumes "tokio R vt vr vo" and "reachable R cfg n s" and "\<not> active (task s)"
  shows "task s \<noteq> Crashed
    \<and> (\<exists>k s'. k \<le> 3 \<and> run R cfg (replicate k Exit) s = Some s' \<and> finished (task s'))"
  using tokio.exit_finishes [OF assms] .

lemma loop_finishes_witness:
  "\<exists>s. demo no_keepalive 1 [None] [] [Loop NextArm, Work] = Some s
     \<and> task s = Exited (Error WebsocketClosed)
     \<and> (\<exists>k s'. k \<le> 3 \<and> run (reference_runtime scripted) no_keepalive (replicate k Exit) s = Some s' \<and> finished (task s'))"
proof -
  obtain s where s: "demo no_keepalive 1 [None] [] [Loop NextArm, Work] = Some s" "task s = Exited (Error WebsocketClosed)"
    by (simp add: eval_simps)
  then have "\<not> active (task s)" by simp
  from loop_finishes [OF reference_runtime_tokio demo_reachable [OF s(1)] this] s show ?thesis by blast
qed

text \<open>
  C18. No confirmed send hangs on a dead connection: once the loop has finished, every call that
  still waits for its answer is ready to return (or to panic).
\<close>

theorem finished_resolves_calls:
  assumes "tokio R vt vr vo" and "reachable R cfg n s" and "finished (task s)" and "calls s i = Awaiting"
  shows "\<exists>s' out. exec R cfg (Await i) s = Some s' \<and> calls s' i = Done out"
proof -
  let ?sl = "vo (slots (conn s) i)"
  from tokio.view_outbound [OF assms(1,2)] obtain outs ctrl dropped where
    c: "calls_rel (sys_view vt vr vo s) outs dropped"
    by (auto simp: outbound_inv_def)
  from tokio.view_shape [OF assms(1,2)] assms(3) have "buf (vt (tx_chan (conn s))) = []"
    by (simp add: shape_inv_def)
  with c assms(4) finished_inflight [OF assms(3)] have "answer ?sl \<noteq> None \<or> \<not> slot_tx ?sl"
    by (auto simp: calls_rel_def call_rel_def)
  then have "slot_recv ?sl \<noteq> Pending"
    by (auto simp: slot_recv_def split: option.splits)
  with oneshot.os_recv_Pending [OF tokio.axioms(3) [OF assms(1)]]
  obtain sl x where "os_recv (os_ops R) (slots (conn s) i) = Ready (sl, x)"
    by (metis poll.exhaust surj_pair)
  with assms(4) show ?thesis by (simp add: await_response_def)
qed

lemma finished_resolves_calls_witness:
  "\<exists>s. demo no_keepalive 1 [None] [] [SendConfirmed 0 (Text ''a''), Loop NextArm, Work, Exit, Exit, Exit] = Some s
     \<and> calls s 0 = Awaiting
     \<and> (\<exists>s' out. exec (reference_runtime scripted) no_keepalive (Await 0) s = Some s' \<and> calls s' 0 = Done out)"
proof -
  obtain s where s: "demo no_keepalive 1 [None] [] [SendConfirmed 0 (Text ''a''), Loop NextArm, Work, Exit, Exit, Exit] = Some s"
    "finished (task s)" "calls s 0 = Awaiting"
    by (simp add: eval_simps)
  from finished_resolves_calls [OF reference_runtime_tokio demo_reachable [OF s(1)] s(2,3)] s show ?thesis by blast
qed

section \<open>Which arms are enabled\<close>

lemma recv_arm_enabled:
  assumes "selecting k"
  shows "loop_step (reference R) cfg started now RecvArm k c = None
    \<longleftrightarrow> buf (tx_chan c) = [] \<and> senders (tx_chan c) \<noteq> 0"
  using assms
  by (cases k) (auto simp: loop_step_def select_arm_def backpressure_arm_def chan_recv_def split: list.splits)

lemma sleep_arm_enabled:
  assumes "selecting k"
  shows "loop_step R cfg started now SleepArm k c = None
    \<longleftrightarrow> (case cfg_interval cfg of None \<Rightarrow> True | Some d \<Rightarrow> \<not> sleep_elapsed R started d now)"
  using assms
  by (cases k) (auto simp: loop_step_def select_arm_def backpressure_arm_def split: option.splits)

lemma reserve_arm_enabled:
  "loop_step (reference R) cfg started now ReserveArm (Holding f) c = None
    \<longleftrightarrow> rx_alive (rx_chan c) \<and> \<not> has_room (rx_chan c)"
  by (simp add: loop_step_def backpressure_arm_def chan_reserve_def)

lemma no_arm_while_busy: "\<not> selecting k \<Longrightarrow> loop_step R cfg started now a k c = None"
  by (cases k) (simp_all add: loop_step_def)

text \<open>What the steps of the task leave alone.\<close>

lemma exec_task_fields:
  assumes "exec R cfg a s = Some s'" and "a = Work \<or> (\<exists>arm. a = Loop arm)"
  shows "tx_handles s' = tx_handles s" "rx_handle s' = rx_handle s" "calls s' = calls s"
    "queued s' = queued s" "delivered s' = delivered s" "taken s' = taken s"
    "clock s' = clock s" "sleep_started s' = clock s"
  using assms by (auto split: option.splits)

lemma exec_keeps_task:
  assumes "exec R cfg a s = Some s'" and "a \<noteq> Work" and "a \<noteq> Exit" and "\<And>arm. a \<noteq> Loop arm"
  shows "task s' = task s" and "wire s' = wire s"
  using assms
  by (cases a; auto simp: op_defs start_call_def Let_def split: if_splits poll.splits option.splits sum.splits task.splits)+

lemma exec_work_enabled: "task s = Busy j \<Longrightarrow> \<exists>s'. exec R cfg Work s = Some s'"
  by (cases "handler_step (logged_runtime R) cfg j (conn s)") (simp add: work_step_def)

lemma exec_work_disabled: "\<forall>j. task s \<noteq> Busy j \<Longrightarrow> exec R cfg Work s = None"
  by (cases "task s") (auto simp: work_step_def)

context tokio
begin

lemma exec_loop_enabled:
  "exec R cfg (Loop a) s = None \<longleftrightarrow>
     loop_step (reference (logged_runtime R)) cfg (sleep_started s) (clock s) a (task s)
       (conn_view vt vr vo (conn s)) = None"
  using tokio.view_loop_step [OF tokio_logged, of cfg "sleep_started s" "clock s" a "task s" "conn s"]
  by (auto split: option.splits)

lemma exec_loop_spec:
  assumes "exec R cfg (Loop a) s = Some s'"
  shows "loop_spec cfg a (task s) (conn_view vt vr vo (conn s)) (task s') (conn_view vt vr vo (conn s'))"
proof -
  from assms obtain c k where k: "loop_step (logged_runtime R) cfg (sleep_started s) (clock s) a (task s) (conn s) = Some (c, k)"
    and s': "task s' = k" "conn s' = c"
    by (auto split: option.splits)
  with tokio.view_loop_step [OF tokio_logged, of cfg "sleep_started s" "clock s" a "task s" "conn s"]
  show ?thesis by (auto intro!: loop_step_spec [where R = R])
qed

lemma exec_work_spec:
  assumes "exec R cfg Work s = Some s'" and "task s = Busy j"
  shows "work_spec cfg j (conn_view vt vr vo (conn s)) (task s') (conn_view vt vr vo (conn s'))"
proof -
  from assms have k: "handler_step (logged_runtime R) cfg j (conn s) = (conn s', task s')"
    by (auto simp: work_step_def split: option.splits prod.splits)
  with tokio.view_handler_step [OF tokio_logged, of cfg j "conn s"]
  show ?thesis by (auto intro!: handler_step_spec [where R = R])
qed

lemma recv_arm_takes:
  assumes "selecting (task s)" and "buf (vt (tx_chan (conn s))) = p # ps"
  obtains s' h where "exec R cfg (Loop RecvArm) s = Some s'" "task s = waiting h"
    "task s' = Busy (SendJob (Some p) h)" "buf (vt (tx_chan (conn s'))) = ps" "wire s' = wire s"
proof -
  have "exec R cfg (Loop RecvArm) s \<noteq> None"
    using assms by (simp add: exec_loop_enabled recv_arm_enabled del: exec.simps)
  then obtain s' where s': "exec R cfg (Loop RecvArm) s = Some s'" by blast
  from exec_loop_spec [OF s'] assms that [OF s'] show thesis
    by (cases rule: loop_spec_RecvE) (auto simp: conn_view_def)
qed

end

section \<open>Cancellation\<close>

text \<open>
  C27. Giving up on one confirmed send ends the connection for everyone: when the message of a
  cancelled call comes to the head of the queue (or is being sent already), it is still offered to the
  socket, and then the loop leaves with \<open>SocketeerDroppedWithoutClosing\<close>, however many handles are
  alive.
\<close>

theorem cancelled_send_ends_loop:
  assumes "tokio R vt vr vo" and "reachable R cfg n s" and "selecting (task s) \<or> inflight (task s) \<noteq> []"
    and "inflight (task s) @ buf (vt (tx_chan (conn s))) = p # ps"
    and "response_tx p = Some i" and "calls s i = Cancelled"
  shows "\<exists>s' r. run R cfg (if selecting (task s) then [Loop RecvArm, Work] else [Work]) s = Some s'
      \<and> task s' = Exited (Error SocketeerDroppedWithoutClosing)
      \<and> sends (wire s') = sends (wire s) @ [(payload_message p, r)] \<and> tx_handles s' = tx_handles s"
proof -
  have work: "\<exists>s' r. exec R cfg Work t = Some s' \<and> task s' = Exited (Error SocketeerDroppedWithoutClosing)
      \<and> sends (wire s') = sends (wire t) @ [(payload_message p, r)] \<and> tx_handles s' = tx_handles t"
    if t: "reachable R cfg n t" "inflight (task t) = [p]" "calls t i = Cancelled" for t
  proof -
    from t(2) obtain h where busy: "task t = Busy (SendJob (Some p) h)"
      by (cases "task t" rule: inflight.cases) auto
    from tokio.view_outbound [OF assms(1) t(1)] obtain outs dropped where
      "calls_rel (sys_view vt vr vo t) outs dropped"
      by (auto simp: outbound_inv_def)
    with t(3) have gone: "\<not> slot_rx (vo (slots (conn t) i))"
      by (auto simp: calls_rel_def call_rel_def)
    obtain s' where s': "exec R cfg Work t = Some s'" using exec_work_enabled [OF busy] by blast
    from tokio.exec_work_spec [OF assms(1) s' busy] exec_task_fields(1) [OF s'] s' gone assms(5) show ?thesis
      by (cases rule: work_spec_SendE) (auto simp: conn_view_def simp del: exec.simps)
  qed
  show ?thesis
  proof (cases "selecting (task s)")
    case True
    then have "inflight (task s) = []" by (auto simp: selecting_waiting)
    with assms(4) have "buf (vt (tx_chan (conn s))) = p # ps" by simp
    from tokio.recv_arm_takes [OF assms(1) True this] obtain t h where
      t: "exec R cfg (Loop RecvArm) s = Some t" "task t = Busy (SendJob (Some p) h)" "wire t = wire s"
      by metis
    with assms(6) have "calls t i = Cancelled" "tx_handles t = tx_handles s"
      using exec_task_fields [OF t(1)] by auto
    with work [OF reachable.step [OF assms(2) t(1)]] t True show ?thesis
      by (auto simp del: exec.simps)
  next
    case False
    with assms(3,4) have "inflight (task s) = [p]" by (cases "task s" rule: inflight.cases) auto
    with work [OF assms(2) _ assms(6)] False show ?thesis
      by (auto simp del: exec.simps)
  qed
qed

lemma cancelled_send_ends_loop_witness:
  "\<exists>s s' r. demo no_keepalive 1 [] [] [CloneTx, SendConfirmed 0 (Text ''a''), Loop RecvArm, Cancel 0] = Some s
     \<and> exec (reference_runtime scripted) no_keepalive Work s = Some s'
     \<and> task s' = Exited (Error SocketeerDroppedWithoutClosing) \<and> tx_handles s' = 2
     \<and> sends (wire s') = [(Text ''a'', r)]"
proof -
  obtain s where s: "demo no_keepalive 1 [] [] [CloneTx, SendConfirmed 0 (Text ''a''), Loop RecvArm, Cancel 0] = Some s"
    "task s = Busy (SendJob (Some \<lparr>payload_message = Text ''a'', response_tx = Some 0\<rparr>) None)"
    "calls s 0 = Cancelled" "tx_handles s = 2" "sends (wire s) = []" "buf (id (tx_chan (conn s))) = []"
    by (simp add: eval_simps)
  from cancelled_send_ends_loop [OF reference_runtime_tokio demo_reachable [OF s(1)] _ _ _ s(3),
      where p = "\<lparr>payload_message = Text ''a'', response_tx = Some 0\<rparr>" and ps = "[]"] s show ?thesis
    by (auto simp del: exec.simps split: option.splits)
qed

section \<open>Backpressure\<close>

text \<open>
  C20. While a frame is held the loop stays responsive: it does not read the stream, but it takes
  the next outgoing message whenever there is one, fires the keepalive when the timer is over, and
  leaves the backpressure loop exactly when there is room for the frame (or the consumer is gone),
  handing the frame over before it reads another.
\<close>

theorem backpressure_responsive:
  assumes "tokio R vt vr vo" and "reachable R cfg n s" and "task s = Holding f"
  shows "exec R cfg (Loop NextArm) s = None
    \<and> (exec R cfg (Loop RecvArm) s \<noteq> None \<longleftrightarrow> buf (vt (tx_chan (conn s))) \<noteq> [] \<or> tx_handles s = 0)
    \<and> (\<forall>d. cfg_interval cfg = Some d \<and> sleep_started s + d < clock s \<longrightarrow> exec R cfg (Loop SleepArm) s \<noteq> None)
    \<and> (exec R cfg (Loop ReserveArm) s \<noteq> None \<longleftrightarrow> \<not> rx_handle s \<or> length (buf (vr (rx_chan (conn s)))) < n)
    \<and> (\<forall>s'. exec R cfg (Loop ReserveArm) s = Some s' \<and> rx_handle s \<longrightarrow>
          task s' = AtSelect \<and> buf (vr (rx_chan (conn s'))) = buf (vr (rx_chan (conn s))) @ [f])"
proof -
  note shape = tokio.view_shape [OF assms(1,2)]
  have room: "has_room (vr (rx_chan (conn s))) \<longleftrightarrow> length (buf (vr (rx_chan (conn s)))) < n"
    using shape by (simp add: shape_inv_def has_room_def)
  have "exec R cfg (Loop NextArm) s = None"
    using assms(3) by (simp add: loop_step_def backpressure_arm_def)
  moreover have "exec R cfg (Loop RecvArm) s = None \<longleftrightarrow> buf (vt (tx_chan (conn s))) = [] \<and> tx_handles s \<noteq> 0"
    using shape assms(3) by (simp add: tokio.exec_loop_enabled [OF assms(1)] recv_arm_enabled shape_inv_def del: exec.simps)
  moreover have "exec R cfg (Loop SleepArm) s \<noteq> None"
    if "cfg_interval cfg = Some d" "sleep_started s + d < clock s" for d
    using that assms(3) tokio.sleep_over [OF assms(1) that(2)]
    by (simp add: tokio.exec_loop_enabled [OF assms(1)] sleep_arm_enabled del: exec.simps)
  moreover have "exec R cfg (Loop ReserveArm) s = None \<longleftrightarrow> rx_handle s \<and> \<not> length (buf (vr (rx_chan (conn s)))) < n"
    using shape assms(3)
    by (simp add: tokio.exec_loop_enabled [OF assms(1)] reserve_arm_enabled room shape_inv_def del: exec.simps)
  moreover have "task s' = AtSelect \<and> buf (vr (rx_chan (conn s'))) = buf (vr (rx_chan (conn s))) @ [f]"
    if "exec R cfg (Loop ReserveArm) s = Some s'" and "rx_handle s" for s'
    using tokio.exec_loop_spec [OF assms(1) that(1)] that(2) shape assms(3)
    by (cases rule: loop_spec_ReserveE) (auto simp: shape_inv_def conn_view_def)
  ultimately show ?thesis by (auto simp del: exec.simps)
qed

lemma backpressure_responsive_witness:
  "\<exists>s. demo default_keepalive 1 [Some (Ok (Text ''a'')), Some (Ok (Text ''b'')), Some (Ok (Text ''c''))] []
        [Loop NextArm, Work, Loop NextArm, Work, SendUnconfirmed (Text ''x''), Tick 3000] = Some s
     \<and> task s = Holding (Text ''b'')
     \<and> exec (reference_runtime scripted) default_keepalive (Loop NextArm) s = None
     \<and> exec (reference_runtime scripted) default_keepalive (Loop RecvArm) s \<noteq> None
     \<and> exec (reference_runtime scripted) default_keepalive (Loop SleepArm) s \<noteq> None
     \<and> exec (reference_runtime scripted) default_keepalive (Loop ReserveArm) s = None"
proof -
  obtain s where s: "demo default_keepalive 1 [Some (Ok (Text ''a'')), Some (Ok (Text ''b'')), Some (Ok (Text ''c''))] []
        [Loop NextArm, Work, Loop NextArm, Work, SendUnconfirmed (Text ''x''), Tick 3000] = Some s"
    "task s = Holding (Text ''b'')" "buf (tx_chan (conn s)) \<noteq> []" "rx_handle s" "length (buf (rx_chan (conn s))) = 1"
    "cfg_interval default_keepalive = Some 2000" "sleep_started s + 2000 < clock s"
    by (simp add: eval_simps)
  from backpressure_responsive [OF reference_runtime_tokio demo_reachable [OF s(1)] s(2)]
  show ?thesis using s by (intro exI [where x = s]) (simp add: id_def del: exec.simps)
qed

section \<open>Dropped handles\<close>

text \<open>One round of sending: the message at the head of the queue is taken and offered to the socket.\<close>

abbreviation send_round :: "'w action list" where
  "send_round \<equiv> [Loop RecvArm, Work]"

text \<open>
  How far the queue is drained: everything in \<open>ps\<close> was offered to the socket and went well, and the
  loop ended because the handles are gone; or the loop ended right after a payload that did not go
  well, because the socket refused it or because its caller had cancelled the call.
\<close>

definition went_well :: "('t, 'r, 'o, 'w) sys \<Rightarrow> payload \<times> (unit, ws_error) result \<Rightarrow> bool" where
  "went_well s out \<longleftrightarrow> snd out = Ok () \<and> (\<forall>i. response_tx (fst out) = Some i \<longrightarrow> calls s i \<noteq> Cancelled)"

definition drains ::
  "('t, 'r, 'o, 'w) sys \<Rightarrow> payload list \<Rightarrow> (payload \<times> (unit, ws_error) result) list \<Rightarrow> loop_state \<Rightarrow> bool" where
  "drains s ps outs st \<longleftrightarrow>
     map fst outs = ps \<and> list_all (went_well s) outs \<and> st = Error SocketeerDroppedWithoutClosing
     \<or> (\<exists>good out. outs = good @ [out] \<and> list_all (went_well s) good \<and> \<not> went_well s out \<and> (\<exists>rest. ps = map fst outs @ rest))"

lemma drains_Nil: "drains s [] [] (Error SocketeerDroppedWithoutClosing)"
  by (simp add: drains_def)

lemma drains_Cons: "went_well s (p, res) \<Longrightarrow> drains s ps outs st \<Longrightarrow> drains s (p # ps) ((p, res) # outs) st"
  by (auto simp: drains_def intro: exI [where x = "(p, res) # good" for good])

lemma drains_fails: "\<not> went_well s (p, res) \<Longrightarrow> drains s (p # ps) [(p, res)] st"
  by (simp add: drains_def)

lemma drains_calls: "calls s' = calls s \<Longrightarrow> drains s' ps outs st = drains s ps outs st"
  unfolding drains_def went_well_def by presburger

lemma sent_pairs_simps: "sent_pairs ((p, res) # outs) = (payload_message p, res) # sent_pairs outs"
   "sent_pairs (outs @ outs') = sent_pairs outs @ sent_pairs outs'"
  by (simp_all add: sent_pairs_def)

context tokio
begin

lemma caller_there:
  assumes "reachable R cfg n s" and "p \<in> set (inflight (task s) @ buf (vt (tx_chan (conn s))))" and "response_tx p = Some i"
  shows "slot_rx (vo (slots (conn s) i)) \<longleftrightarrow> calls s i \<noteq> Cancelled"
proof -
  from assms(2,3) have "i \<in> set (ids (unsent (view s)))" by (auto simp: ids_set conn_view_def)
  with view_outbound [OF assms(1)] show ?thesis
    by (auto simp: outbound_inv_def calls_rel_def call_rel_def conn_view_def)
qed

lemma send_work:
  assumes "reachable R cfg n s" and "task s = Busy (SendJob (Some p) h)"
  shows "\<exists>s' res. exec R cfg Work s = Some s' \<and> sends (wire s') = sends (wire s) @ [(payload_message p, res)]
      \<and> buf (vt (tx_chan (conn s'))) = buf (vt (tx_chan (conn s)))
      \<and> (if went_well s (p, res) then selecting (task s') else \<exists>st. task s' = Exited st)"
proof -
  obtain s' where s': "exec R cfg Work s = Some s'" using exec_work_enabled [OF assms(2)] by blast
  have there: "slot_rx (vo (slots (conn s) i)) \<longleftrightarrow> calls s i \<noteq> Cancelled" if "response_tx p = Some i" for i
    by (rule caller_there [OF assms(1) _ that]) (simp add: assms(2))
  have "work_spec cfg (SendJob (Some p) h) (conn_view vt vr vo (conn s)) (task s') (conn_view vt vr vo (conn s'))"
    by (rule exec_work_spec [OF s' assms(2)])
  then have "\<exists>res. sends (wire s') = sends (wire s) @ [(payload_message p, res)]
      \<and> buf (vt (tx_chan (conn s'))) = buf (vt (tx_chan (conn s)))
      \<and> (if went_well s (p, res) then selecting (task s') else \<exists>st. task s' = Exited st)"
    by (cases rule: work_spec_SendE) (auto simp: conn_view_def unless_err_def went_well_def there split: sum.splits)
  with s' show ?thesis by blast
qed

lemma send_round_step:
  assumes "reachable R cfg n s" and "selecting (task s)" and "tx_handles s = 0"
  shows "\<exists>s'. run R cfg send_round s = Some s' \<and> tx_handles s' = 0 \<and> calls s' = calls s
      \<and> (case buf (vt (tx_chan (conn s))) of
           [] \<Rightarrow> task s' = Exited (Error SocketeerDroppedWithoutClosing) \<and> sends (wire s') = sends (wire s)
         | p # ps \<Rightarrow> \<exists>res. sends (wire s') = sends (wire s) @ [(payload_message p, res)]
             \<and> (if went_well s (p, res) then selecting (task s') \<and> buf (vt (tx_chan (conn s'))) = ps
                else \<exists>st. task s' = Exited st))"
proof -
  have "senders (vt (tx_chan (conn s))) = 0"
    using view_shape [OF assms(1)] assms(3) by (simp add: shape_inv_def)
  with assms(2) have "exec R cfg (Loop RecvArm) s \<noteq> None"
    by (simp add: exec_loop_enabled recv_arm_enabled del: exec.simps)
  then obtain t where t: "exec R cfg (Loop RecvArm) s = Some t" by blast
  note same = exec_task_fields [OF t]
  have reach: "reachable R cfg n t" using run_reachable [OF assms(1), of "[Loop RecvArm]" t] t by simp
  show ?thesis
  proof (cases "buf (vt (tx_chan (conn s)))")
    case Nil
    with exec_loop_spec [OF t] obtain h where busy: "task t = Busy (SendJob None h)" "wire t = wire s"
      by (cases rule: loop_spec_RecvE) (auto simp: conn_view_def)
    obtain s' where s': "exec R cfg Work t = Some s'" using exec_work_enabled [OF busy(1)] by blast
    from exec_work_spec [OF s' busy(1)] busy(2)
    have "task s' = Exited (Error SocketeerDroppedWithoutClosing) \<and> sends (wire s') = sends (wire s)"
      by (cases rule: work_spec_GoneE) (auto simp: conn_view_def)
    with Nil t s' same exec_task_fields [OF s'] assms(3) show ?thesis by (simp del: exec.simps)
  next
    case (Cons p ps)
    obtain h where busy: "task t = Busy (SendJob (Some p) h)" "wire t = wire s" "buf (vt (tx_chan (conn t))) = ps"
      using recv_arm_takes [OF assms(2) Cons] t by (metis option.inject)
    obtain s' res where s': "exec R cfg Work t = Some s'" "sends (wire s') = sends (wire t) @ [(payload_message p, res)]"
      "buf (vt (tx_chan (conn s'))) = buf (vt (tx_chan (conn t)))"
      "if went_well t (p, res) then selecting (task s') else \<exists>st. task s' = Exited st"
      using send_work [OF reach busy(1)] by blast
    have "went_well t (p, res) = went_well s (p, res)" using same by (simp add: went_well_def)
    with Cons t s' busy same exec_task_fields [OF s'(1)] assms(3) show ?thesis by (auto simp del: exec.simps)
  qed
qed

lemma send_rounds_exit:
  assumes "reachable R cfg n s" and "selecting (task s)" and "tx_handles s = 0"
  shows "\<exists>k s' st outs. k \<le> Suc (length (buf (vt (tx_chan (conn s)))))
      \<and> run R cfg (concat (replicate k send_round)) s = Some s' \<and> task s' = Exited st
      \<and> sends (wire s') = sends (wire s) @ sent_pairs outs \<and> drains s (buf (vt (tx_chan (conn s)))) outs st"
  using assms
proof (induction "buf (vt (tx_chan (conn s)))" arbitrary: s)
  case Nil
  from send_round_step [OF Nil.prems] Nil.hyps [symmetric] obtain s' where
    "run R cfg send_round s = Some s'" "task s' = Exited (Error SocketeerDroppedWithoutClosing)" "sends (wire s') = sends (wire s)"
    by auto
  with Nil.hyps [symmetric] drains_Nil [of s] show ?case
    by (intro exI [where x = 1] exI [where x = s'] exI [where x = "Error SocketeerDroppedWithoutClosing"] exI [where x = "[]"])
      (simp del: run.simps)
next
  case (Cons p ps)
  note b = Cons.hyps(2) [symmetric]
  from send_round_step [OF Cons.prems] b obtain s' res where
    s': "run R cfg send_round s = Some s'" "tx_handles s' = 0" "calls s' = calls s"
      "sends (wire s') = sends (wire s) @ [(payload_message p, res)]"
      "if went_well s (p, res) then selecting (task s') \<and> buf (vt (tx_chan (conn s'))) = ps else \<exists>st. task s' = Exited st"
    by auto
  show ?case
  proof (cases "went_well s (p, res)")
    case True
    with s'(5) have on: "selecting (task s')" "buf (vt (tx_chan (conn s'))) = ps" by auto
    from Cons.hyps(1) [OF on(2) [symmetric] run_reachable [OF Cons.prems(1) s'(1)] on(1) s'(2)] on(2)
    obtain k s'' st outs where k: "k \<le> Suc (length ps)"
      "run R cfg (concat (replicate k send_round)) s' = Some s''" "task s'' = Exited st"
      "sends (wire s'') = sends (wire s') @ sent_pairs outs" "drains s' ps outs st" by auto
    have "run R cfg (concat (replicate (Suc k) send_round)) s = Some s''"
      using run_append [of R cfg send_round "concat (replicate k send_round)" s] s'(1) k(2)
      by (simp del: run.simps)
    with b k s'(4) drains_Cons [OF True k(5) [unfolded drains_calls [OF s'(3)]]] show ?thesis
      by (intro exI [where x = "Suc k"] exI [where x = s''] exI [where x = st] exI [where x = "(p, res) # outs"])
        (simp add: sent_pairs_simps del: run.simps)
  next
    case False
    with s'(5) obtain st where "task s' = Exited st" by auto
    with b s' drains_fails [OF False, of ps st] show ?thesis
      by (intro exI [where x = 1] exI [where x = s'] exI [where x = st] exI [where x = "[(p, res)]"])
        (simp add: sent_pairs_simps(1) sent_pairs_def del: run.simps)
  qed
qed

end

text \<open>The handler for a closed queue runs only when the queue is empty, and nothing can come any more.\<close>

lemma reachable_gone:
  assumes "reachable (reference R) cfg n s" and "task s = Busy (SendJob None h)"
  shows "buf (tx_chan (conn s)) = [] \<and> tx_handles s = 0"
  using assms
proof (induction arbitrary: h rule: reachable_induct_spec)
  case (init w s)
  then show ?case by (auto dest: init_sys_reference)
next
  case (step s s')
  have shape: "senders (tx_chan (conn s)) = tx_handles s"
    using reachable_shape [OF step.hyps(1)] by (simp add: shape_inv_def)
  from step.hyps(2) show ?case
  proof (cases rule: sys_spec.cases)
    case (loop a k' c')
    with step.prems shape show ?thesis by (auto elim: loop_spec.cases)
  next
    case (work j k' c')
    with step.prems have "k' = Busy (SendJob None h)" by simp
    with work(2) show ?thesis by (cases rule: work_spec.cases) (auto simp: unless_err_def split: sum.splits)
  qed (use step in auto)
qed

text \<open>What the handler in progress does to the wire and to the loop.\<close>

lemma exits_keep_wire:
  "run R cfg [Exit, Exit, Exit] s = Some s' \<Longrightarrow> wire s' = wire s"
  by (cases "task s")
    (auto simp: exit_step_def record_terminal_def drop_sender_def drop_receiver_def Let_def
      split: option.splits loop_state.splits prod.splits)

definition gave_up :: "('t, 'r, 'o, 'w) runtime \<Rightarrow> loop_config \<Rightarrow> ('t, 'r, 'o, 'w) sys \<Rightarrow> bool" where
  "gave_up R cfg s \<longleftrightarrow>
     (\<exists>j t st. task s = Busy j \<and> (\<forall>pm h. j \<noteq> SendJob pm h) \<and> exec R cfg Work s = Some t \<and> task t = Exited st)"

context tokio
begin

lemma handler_completes:
  assumes "reachable R cfg n s" and "task s = Busy j"
  shows "\<exists>t outs ctrl. exec R cfg Work s = Some t \<and> buf (vt (tx_chan (conn t))) = buf (vt (tx_chan (conn s)))
      \<and> sends (wire t) = sends (wire s) @ ctrl @ sent_pairs outs
      \<and> length ctrl \<le> 1 \<and> fst ` set ctrl \<subseteq> control_frames cfg
      \<and> (selecting (task t) \<and> map fst outs = inflight (task s) \<and> list_all (went_well s) outs
        \<or> (\<exists>st. task t = Exited st
             \<and> (drains s (inflight (task s) @ buf (vt (tx_chan (conn s)))) outs st \<or> outs = [] \<and> gave_up R cfg s)))"
proof -
  obtain t where t: "exec R cfg Work s = Some t" using exec_work_enabled [OF assms(2)] by blast
  show ?thesis
  proof (cases "\<exists>pm h. j = SendJob pm h")
    case True
    then obtain pm h where j: "j = SendJob pm h" by blast
    show ?thesis
    proof (cases pm)
      case None
      with j assms(2) have task: "task s = Busy (SendJob None h)" by simp
      with reachable_gone [OF reachable_view [OF assms(1)], of h] have "buf (vt (tx_chan (conn s))) = []"
        by (simp add: conn_view_def)
      with exec_work_spec [OF t task] t task drains_Nil [of s] show ?thesis
        by (intro exI [where x = t] exI [where x = "[]"])
          (auto simp: conn_view_def sent_pairs_def simp del: exec.simps elim: work_spec_GoneE)
    next
      case (Some p)
      with j assms(2) have task: "task s = Busy (SendJob (Some p) h)" by simp
      from send_work [OF assms(1) task] t obtain res where
        "sends (wire t) = sends (wire s) @ [(payload_message p, res)]"
        "buf (vt (tx_chan (conn t))) = buf (vt (tx_chan (conn s)))"
        "if went_well s (p, res) then selecting (task t) else \<exists>st. task t = Exited st" by auto
      with t task drains_fails [of s p res] show ?thesis
        by (intro exI [where x = t] exI [where x = "[(p, res)]"] exI [where x = "[]"])
          (auto simp: sent_pairs_def simp del: exec.simps split: if_splits)
    qed
  next
    case False
    from exec_work_spec [OF t assms(2)]
    obtain ctrl where ctrl: "buf (vt (tx_chan (conn t))) = buf (vt (tx_chan (conn s)))"
      "sends (wire t) = sends (wire s) @ ctrl" "length ctrl \<le> 1" "fst ` set ctrl \<subseteq> control_frames cfg"
      "selecting (task t) \<or> (\<exists>st. task t = Exited st)"
      by (cases rule: work_spec.cases)
        (use False in \<open>auto simp: conn_view_def unless_err_def control_frames_def split: sum.splits\<close>)
    moreover have "inflight (task s) = []" using False assms(2) by (cases j) auto
    moreover have "gave_up R cfg s" if "task t = Exited st" for st
      unfolding gave_up_def using False assms(2) t that by blast
    ultimately show ?thesis using t
      by (intro exI [where x = t] exI [where x = "[]"] exI [where x = ctrl]) (auto simp: sent_pairs_def simp del: exec.simps)
  qed
qed

lemma drains_after:
  assumes "map fst good = ps" and "list_all (went_well s) good" and "drains s qs outs st"
  shows "drains s (ps @ qs) (good @ outs) st"
  using assms by (auto simp: drains_def intro: exI [where x = "good @ g" for g])

lemma abandoned_drains:
  assumes "reachable R cfg n s" and "active (task s)" and "tx_handles s = 0"
  shows "\<exists>k s' st outs ctrl. k \<le> n + 1
      \<and> run R cfg ((if selecting (task s) then [] else [Work]) @ concat (replicate k send_round) @ [Exit, Exit, Exit]) s
          = Some s'
      \<and> task s' = Finished st
      \<and> sends (wire s') = sends (wire s) @ ctrl @ sent_pairs outs \<and> length ctrl \<le> 1 \<and> fst ` set ctrl \<subseteq> control_frames cfg
      \<and> (drains s (inflight (task s) @ buf (vt (tx_chan (conn s)))) outs st \<or> outs = [] \<and> gave_up R cfg s)"
proof -
  let ?pre = "if selecting (task s) then [] else [Work]"
  let ?q = "inflight (task s) @ buf (vt (tx_chan (conn s)))"
  have "\<exists>t outs ctrl. run R cfg ?pre s = Some t \<and> tx_handles t = 0 \<and> calls t = calls s
      \<and> buf (vt (tx_chan (conn t))) = buf (vt (tx_chan (conn s)))
      \<and> sends (wire t) = sends (wire s) @ ctrl @ sent_pairs outs
      \<and> length ctrl \<le> 1 \<and> fst ` set ctrl \<subseteq> control_frames cfg
      \<and> (selecting (task t) \<and> map fst outs = inflight (task s) \<and> list_all (went_well s) outs
        \<or> (\<exists>st. task t = Exited st \<and> (drains s ?q outs st \<or> outs = [] \<and> gave_up R cfg s)))"
  proof (cases "selecting (task s)")
    case True
    then have "inflight (task s) = []" by (cases "task s") auto
    with True assms(3) show ?thesis
      by (intro exI [where x = s] exI [where x = "[]"] exI [where x = "[]"]) (simp add: sent_pairs_def)
  next
    case False
    with assms(2) obtain j where j: "task s = Busy j" by (cases "task s") auto
    from handler_completes [OF assms(1) j] obtain t outs ctrl where t: "exec R cfg Work s = Some t"
      "buf (vt (tx_chan (conn t))) = buf (vt (tx_chan (conn s)))"
      "sends (wire t) = sends (wire s) @ ctrl @ sent_pairs outs" "length ctrl \<le> 1" "fst ` set ctrl \<subseteq> control_frames cfg"
      "selecting (task t) \<and> map fst outs = inflight (task s) \<and> list_all (went_well s) outs
        \<or> (\<exists>st. task t = Exited st \<and> (drains s ?q outs st \<or> outs = [] \<and> gave_up R cfg s))"
      by blast
    with False exec_task_fields [OF t(1)] assms(3) show ?thesis
      by (intro exI [where x = t] exI [where x = outs] exI [where x = ctrl]) (simp del: exec.simps)
  qed
  then obtain t outs ctrl where t: "run R cfg ?pre s = Some t" "tx_handles t = 0" "calls t = calls s"
    "buf (vt (tx_chan (conn t))) = buf (vt (tx_chan (conn s)))"
    "sends (wire t) = sends (wire s) @ ctrl @ sent_pairs outs" "length ctrl \<le> 1" "fst ` set ctrl \<subseteq> control_frames cfg"
    "selecting (task t) \<and> map fst outs = inflight (task s) \<and> list_all (went_well s) outs
        \<or> (\<exists>st. task t = Exited st \<and> (drains s ?q outs st \<or> outs = [] \<and> gave_up R cfg s))"
    by blast
  note reach = run_reachable [OF assms(1) t(1)]
  have bound: "length (buf (vt (tx_chan (conn t)))) \<le> n"
    using view_shape [OF reach] by (simp add: shape_inv_def)
  have "\<exists>k s' st outs'. k \<le> n + 1 \<and> run R cfg (concat (replicate k send_round)) t = Some s' \<and> task s' = Exited st
      \<and> sends (wire s') = sends (wire t) @ sent_pairs outs'
      \<and> (drains s ?q (outs @ outs') st \<or> outs @ outs' = [] \<and> gave_up R cfg s)"
    using t(8)
  proof (elim disjE)
    assume on: "selecting (task t) \<and> map fst outs = inflight (task s) \<and> list_all (went_well s) outs"
    with send_rounds_exit [OF reach _ t(2)] obtain k s' st outs' where
      "k \<le> Suc (length (buf (vt (tx_chan (conn t)))))" "run R cfg (concat (replicate k send_round)) t = Some s'"
      "task s' = Exited st" "sends (wire s') = sends (wire t) @ sent_pairs outs'"
      "drains t (buf (vt (tx_chan (conn t)))) outs' st" by blast
    with on bound drains_after [of outs "inflight (task s)" s "buf (vt (tx_chan (conn s)))" outs' st] t(4)
    show ?thesis
      by (intro exI [where x = k] exI [where x = s'] exI [where x = st] exI [where x = outs'])
        (simp add: drains_calls [OF t(3)] del: run.simps)
  next
    assume "\<exists>st. task t = Exited st \<and> (drains s ?q outs st \<or> outs = [] \<and> gave_up R cfg s)"
    then show ?thesis
      by (elim exE, intro exI [where x = 0] exI [where x = t]) (auto simp: sent_pairs_def intro: exI [where x = "[]"])
  qed
  then obtain k s' st outs' where k: "k \<le> n + 1" "run R cfg (concat (replicate k send_round)) t = Some s'" "task s' = Exited st"
    and out: "sends (wire s') = sends (wire t) @ sent_pairs outs'"
      "drains s ?q (outs @ outs') st \<or> outs @ outs' = [] \<and> gave_up R cfg s" by blast
  from view_terminal [OF run_reachable [OF reach k(2)]] k(3) have "st \<noteq> Running"
    by (auto simp: terminal_inv_def)
  with exit_enabled [OF k(3)] obtain s'' where s'': "run R cfg [Exit, Exit, Exit] s' = Some s''" "task s'' = Finished st"
    by blast
  have "wire s'' = wire s'" by (rule exits_keep_wire [OF s''(1)])
  with t k s'' out show ?thesis
    by (intro exI [where x = k] exI [where x = s''] exI [where x = st] exI [where x = "outs @ outs'"] exI [where x = ctrl])
      (simp add: run_append sent_pairs_simps del: run.simps)
qed

lemma abandoned_finishes:
  assumes "reachable R cfg n s" and "active (task s)" and "tx_handles s = 0"
  shows "\<exists>k s'. k \<le> n + 1
      \<and> run R cfg ((if selecting (task s) then [] else [Work]) @ concat (replicate k send_round) @ [Exit, Exit, Exit]) s
          = Some s'
      \<and> finished (task s')"
  using abandoned_drains [OF assms] by (metis finished.simps(1))

end

text \<open>
  C19. Dropping the handles shuts the connection down and drains its queue: once the last send handle
  is gone the loop, by itself, completes the handler it is in, if any, offers every payload not sent yet to the
  socket, in order and with nothing in between, and finishes with \<open>SocketeerDroppedWithoutClosing\<close>,
  within \<open>n + 1\<close> rounds and the three steps of its exit. It stops short in two cases only: right after
  a payload whose send failed or whose caller had cancelled its call, or when the keepalive or the item it was
  just handling makes it leave.
\<close>

theorem dropped_handles_finish:
  assumes "tokio R vt vr vo" and "reachable R cfg n s" and "active (task s)" and "tx_handles s = 0"
  shows "\<exists>k s' st outs ctrl. k \<le> n + 1
      \<and> run R cfg ((if selecting (task s) then [] else [Work]) @ concat (replicate k send_round) @ [Exit, Exit, Exit]) s
          = Some s'
      \<and> task s' = Finished st
      \<and> sends (wire s') = sends (wire s) @ ctrl @ sent_pairs outs \<and> length ctrl \<le> 1 \<and> fst ` set ctrl \<subseteq> control_frames cfg
      \<and> (drains s (inflight (task s) @ buf (vt (tx_chan (conn s)))) outs st \<or> outs = [] \<and> gave_up R cfg s)"
  using tokio.abandoned_drains [OF assms] .

lemma dropped_handles_finish_witness:
  "\<exists>s k s' st outs ctrl. demo no_keepalive 2 [] [] [SendUnconfirmed (Text ''a''), SendUnconfirmed (Text ''b''), DropTx] = Some s
     \<and> k \<le> 2 + 1
     \<and> run (reference_runtime scripted) no_keepalive (concat (replicate k send_round) @ [Exit, Exit, Exit]) s = Some s'
     \<and> task s' = Finished st \<and> sends (wire s') = ctrl @ sent_pairs outs \<and> length ctrl \<le> 1
     \<and> drains s [\<lparr>payload_message = Text ''a'', response_tx = None\<rparr>, \<lparr>payload_message = Text ''b'', response_tx = None\<rparr>] outs st"
proof -
  obtain s where s: "demo no_keepalive 2 [] [] [SendUnconfirmed (Text ''a''), SendUnconfirmed (Text ''b''), DropTx] = Some s"
    "task s = AtSelect" "tx_handles s = 0" "wire s = []"
    "buf (tx_chan (conn s)) = [\<lparr>payload_message = Text ''a'', response_tx = None\<rparr>, \<lparr>payload_message = Text ''b'', response_tx = None\<rparr>]"
    by (simp add: eval_simps)
  have "active (task s)" using s(2) by simp
  moreover have "\<not> gave_up R cfg s" for R cfg using s(2) by (simp add: gave_up_def)
  ultimately obtain k s' st outs ctrl where "k \<le> 2 + 1"
    "run (reference_runtime scripted) no_keepalive (concat (replicate k send_round) @ [Exit, Exit, Exit]) s = Some s'"
    "task s' = Finished st" "sends (wire s') = ctrl @ sent_pairs outs" "length ctrl \<le> 1"
    "drains s [\<lparr>payload_message = Text ''a'', response_tx = None\<rparr>, \<lparr>payload_message = Text ''b'', response_tx = None\<rparr>] outs st"
    using dropped_handles_finish [OF reference_runtime_tokio demo_reachable [OF s(1)] _ s(3)] s(2,4,5)
    by (auto simp del: run.simps)
  with s(1) show ?thesis by blast
qed

section \<open>Time and control frames\<close>

lemma timer_begins:
  assumes "tokio R vt vr vo" and s': "exec R cfg a s = Some s'"
    and new: "task s' = Busy (TimerJob h)" "task s \<noteq> Busy (TimerJob h)"
  shows "a = Loop SleepArm \<and> task s = waiting h
      \<and> (\<exists>d. cfg_interval cfg = Some d \<and> sleep_started s + d \<le> clock s)"
proof (cases "\<exists>arm. a = Loop arm")
  case True
  then obtain arm where a: "a = Loop arm" by blast
  with tokio.exec_loop_spec [OF assms(1)] s' new
  have "loop_spec cfg arm (task s) (conn_view vt vr vo (conn s)) (Busy (TimerJob h)) (conn_view vt vr vo (conn s'))"
    by metis
  then have arm: "arm = SleepArm" "task s = waiting h" by (cases rule: loop_spec.cases; simp)+
  from s' a arm have "loop_step (reference (logged_runtime R)) cfg (sleep_started s) (clock s) SleepArm (task s)
       (conn_view vt vr vo (conn s)) \<noteq> None"
    using tokio.exec_loop_enabled [OF assms(1), of cfg SleepArm s] by simp
  with arm(2) obtain d where "cfg_interval cfg = Some d" "sleep_elapsed R (sleep_started s) d (clock s)"
    by (auto simp: sleep_arm_enabled split: option.splits)
  with tokio.sleep_not_early [OF assms(1)] a arm show ?thesis by blast
next
  case False
  have "a \<noteq> Exit" using s' new by (auto simp: exit_step_def split: option.splits task.splits)
  moreover have "a \<noteq> Work"
  proof
    assume a: "a = Work"
    with s' obtain j where j: "task s = Busy j" using exec_work_disabled [of s R cfg] by fastforce
    from tokio.exec_work_spec [OF assms(1) s' [unfolded a] j] new(1) show False
      by (cases rule: work_spec.cases) (auto simp: unless_err_def split: sum.splits)
  qed
  ultimately have "task s' = task s" using exec_keeps_task(1) [OF s'] False by blast
  with new show ?thesis by simp
qed

text \<open>
  C31. A keepalive is begun only by the timer arm, at a \<open>select!\<close> and after the configured interval has
  passed since the loop's last round; what is then sent is the configured frame; a loop that waits and
  is overdue can always begin one; and every round of the loop restarts the timer. Without an interval
  no keepalive is ever sent.
\<close>

theorem keepalive_timing:
  assumes "tokio R vt vr vo"
  shows "(\<forall>a s' h. exec R cfg a s = Some s' \<and> task s' = Busy (TimerJob h) \<and> task s \<noteq> Busy (TimerJob h) \<longrightarrow>
          a = Loop SleepArm \<and> task s = waiting h
          \<and> (\<exists>d. cfg_interval cfg = Some d \<and> sleep_started s + d \<le> clock s))
    \<and> (\<forall>s' h. task s = Busy (TimerJob h) \<and> exec R cfg Work s = Some s' \<longrightarrow>
          (\<exists>r. wire s' = wire s @ [Sent (keepalive_frame cfg) r]))
    \<and> (\<forall>d. selecting (task s) \<and> cfg_interval cfg = Some d \<and> sleep_started s + d < clock s \<longrightarrow>
          exec R cfg (Loop SleepArm) s \<noteq> None)
    \<and> (\<forall>a s'. (a = Work \<or> (\<exists>arm. a = Loop arm)) \<and> exec R cfg a s = Some s' \<longrightarrow> sleep_started s' = clock s)"
proof -
  have begun: "\<forall>a s' h. exec R cfg a s = Some s' \<and> task s' = Busy (TimerJob h) \<and> task s \<noteq> Busy (TimerJob h) \<longrightarrow>
      a = Loop SleepArm \<and> task s = waiting h \<and> (\<exists>d. cfg_interval cfg = Some d \<and> sleep_started s + d \<le> clock s)"
    by (intro allI impI, elim conjE) (rule timer_begins [OF assms])
  have "\<exists>r. wire s' = wire s @ [Sent (keepalive_frame cfg) r]"
    if "task s = Busy (TimerJob h)" "exec R cfg Work s = Some s'" for s' h
    using tokio.exec_work_spec [OF assms that(2,1)] by (cases rule: work_spec_TimerE) (auto simp: conn_view_def)
  then have sent: "\<forall>s' h. task s = Busy (TimerJob h) \<and> exec R cfg Work s = Some s' \<longrightarrow>
      (\<exists>r. wire s' = wire s @ [Sent (keepalive_frame cfg) r])" by blast
  have "exec R cfg (Loop SleepArm) s \<noteq> None"
    if "selecting (task s)" "cfg_interval cfg = Some d" "sleep_started s + d < clock s" for d
    using that tokio.sleep_over [OF assms that(3)]
    by (simp add: tokio.exec_loop_enabled [OF assms] sleep_arm_enabled del: exec.simps)
  then have overdue: "\<forall>d. selecting (task s) \<and> cfg_interval cfg = Some d \<and> sleep_started s + d < clock s \<longrightarrow>
      exec R cfg (Loop SleepArm) s \<noteq> None" by blast
  have "\<forall>a s'. (a = Work \<or> (\<exists>arm. a = Loop arm)) \<and> exec R cfg a s = Some s' \<longrightarrow> sleep_started s' = clock s"
    by (intro allI impI, elim conjE) (rule exec_task_fields(8))
  with begun sent overdue show ?thesis by (intro conjI)
qed

lemma keepalive_timing_witness:
  "\<exists>s s' s'' r. demo default_keepalive 1 [] [] [Tick 2000] = Some s
     \<and> exec (reference_runtime scripted) default_keepalive (Loop SleepArm) s = Some s'
     \<and> exec (reference_runtime scripted) default_keepalive Work s' = Some s''
     \<and> wire s'' = [Sent (Ping []) r]"
proof -
  obtain s s' s'' where s: "demo default_keepalive 1 [] [] [Tick 2000] = Some s"
    "exec (reference_runtime scripted) default_keepalive (Loop SleepArm) s = Some s'"
    "task s' = Busy (TimerJob None)" "wire s' = []"
    "exec (reference_runtime scripted) default_keepalive Work s' = Some s''"
    by (simp add: eval_simps)
  have "keepalive_frame default_keepalive = Ping []"
    by (simp add: keepalive_frame_def default_keepalive_def)
  with keepalive_timing [where cfg = default_keepalive and s = s', OF reference_runtime_tokio [of scripted],
      THEN conjunct2, THEN conjunct1, THEN spec, THEN spec, THEN mp, OF conjI [OF s(3,5)]] s(4)
  have "\<exists>r. wire s'' = [Sent (Ping []) r]" by (simp del: exec.simps)
  with s(1,2,5) show ?thesis by blast
qed

text \<open>
  C32. Every ping that is read off the stream is answered with a pong by the very next operation on
  the socket, in every run: the record of the wire ends with an unanswered ping only while the loop is
  sending that pong. (The pong carries a constant, not the ping's payload.)
\<close>

theorem pings_answered_at_once:
  assumes "tokio R vt vr vo" and "reachable R cfg n s"
  shows "\<exists>old. wire s = old @ pending_ping (task s) \<and> pings_answered old"
  using tokio.view_ping [OF assms] by (simp add: ping_inv_def pings_inv_def)

lemma pings_answered_at_once_witness:
  "\<exists>s. demo no_keepalive 1 [Some (Ok (Ping [7]))] []
        [SendUnconfirmed (Text ''a''), Loop NextArm, Work, Loop RecvArm, Work] = Some s
     \<and> wire s = [Received (Some (Ok (Ping [7]))), Sent (Pong pong_bytes) (Ok ()), Sent (Text ''a'') (Ok ())]
     \<and> pings_answered (wire s)"
proof -
  obtain s where s: "demo no_keepalive 1 [Some (Ok (Ping [7]))] []
        [SendUnconfirmed (Text ''a''), Loop NextArm, Work, Loop RecvArm, Work] = Some s"
    "wire s = [Received (Some (Ok (Ping [7]))), Sent (Pong pong_bytes) (Ok ()), Sent (Text ''a'') (Ok ())]"
    "task s = AtSelect"
    by (simp add: eval_simps)
  from pings_answered_at_once [OF reference_runtime_tokio demo_reachable [OF s(1)]] s(3)
  have "pings_answered (wire s)" by auto
  with s(1,2) show ?thesis by blast
qed

end
