(* ===== verification/Dispatch.thy ===== *)
theory Dispatch
  imports Lifecycle
begin

text \<open>
  What the loop does with each thing it is given: every kind of item read off the stream, a message
  whose send fails, a message still queued when the loop leaves, and a frame that nobody takes.
\<close>

section \<open>Items read off the stream\<close>

text \<open>What becomes of the task and of the wire when the handler of the item \<open>x\<close> runs in state \<open>s\<close>.\<close>

definition handled :: "nat \<Rightarrow> ws_item \<Rightarrow> 'w ref_sys \<Rightarrow> 'w ref_sys \<Rightarrow> bool" where
  "handled n x s s' \<longleftrightarrow>
     (case x of
        None \<Rightarrow> task s' = Exited (Error WebsocketClosed) \<and> wire s' = wire s
      | Some (Inl e) \<Rightarrow> task s' = Exited (Error (WebsocketError e)) \<and> wire s' = wire s
      | Some (Inr (Ping b)) \<Rightarrow>
          (\<exists>r. wire s' = wire s @ [Sent (Pong pong_bytes) r]
             \<and> task s' = unless_err r (\<lambda>e. Error (WebsocketError e)) AtSelect)
      | Some (Inr (Close f)) \<Rightarrow>
          (\<exists>r. wire s' = wire s @ [SinkClosed r]
             \<and> task s' = unless_err r (\<lambda>e. Error (WebsocketError e)) (Exited Closed))
      | Some (Inr m) \<Rightarrow>
          wire s' = wire s
          \<and> task s' = (if is_data m
               then if \<not> rx_handle s then Exited (Error SocketeerDroppedWithoutClosing)
                    else if length (buf (rx_chan (conn s))) < n then AtSelect else Holding m
               else AtSelect)
          \<and> buf (rx_chan (conn s')) = buf (rx_chan (conn s))
               @ (if is_data m \<and> rx_handle s \<and> length (buf (rx_chan (conn s))) < n then [m] else []))"

lemma read_job_handled:
  assumes "work_spec cfg (ReadJob x) (conn s) k' c'" and "conn s' = c'" and "task s' = k'" and "shape_inv n s"
  shows "handled n x s s'"
proof -
  have room: "has_room (rx_chan (conn s)) \<longleftrightarrow> length (buf (rx_chan (conn s))) < n"
    and alive: "rx_alive (rx_chan (conn s)) \<longleftrightarrow> rx_handle s"
    using assms(4) by (simp_all add: shape_inv_def has_room_def)
  from assms(1) show ?thesis
  proof (cases rule: work_spec.cases)
    case (read_data m)
    with assms show ?thesis by (cases m) (auto simp: handled_def room alive)
  next
    case (read_full m)
    with assms show ?thesis by (cases m) (auto simp: handled_def room alive)
  next
    case (read_rx_gone m)
    with assms show ?thesis by (cases m) (auto simp: handled_def room alive)
  qed (use assms in \<open>auto simp: handled_def error_from_def\<close>)
qed

text \<open>
  C21. Every item read off the stream is dispatched as documented: a ping is answered, a close is
  answered by closing the sink and ends the loop gracefully, an error or the end of the stream ends
  the loop with that cause, a data frame goes to the consumer (or is held when there is no room, or
  ends the loop when the consumer is gone), and pongs and raw frames are ignored. Whatever is ready
  is read: at the main \<open>select!\<close> the arm is never blocked.
\<close>

theorem incoming_dispatch:
  assumes "tokio R vt vr vo" and "reachable R cfg n s"
  shows "(\<forall>w x. task s = AtSelect \<and> ws_next (ws_ops R) (fst (ws (conn s))) = Ready (w, x) \<longrightarrow>
          (\<exists>s'. exec R cfg (Loop NextArm) s = Some s' \<and> task s' = Busy (ReadJob x) \<and> wire s' = wire s @ [Received x]))
    \<and> (\<forall>x. task s = Busy (ReadJob x) \<longrightarrow>
          (\<exists>s'. exec R cfg Work s = Some s' \<and> handled n x (sys_view vt vr vo s) (sys_view vt vr vo s')))"
proof -
  have "\<exists>s'. exec R cfg (Loop NextArm) s = Some s' \<and> task s' = Busy (ReadJob x) \<and> wire s' = wire s @ [Received x]"
    if "task s = AtSelect" "ws_next (ws_ops R) (fst (ws (conn s))) = Ready (w, x)" for w x
    using that by (simp add: loop_step_def select_arm_def logged_def split_beta)
  moreover have "\<exists>s'. exec R cfg Work s = Some s' \<and> handled n x (sys_view vt vr vo s) (sys_view vt vr vo s')"
    if busy: "task s = Busy (ReadJob x)" for x
  proof -
    obtain s' where s': "exec R cfg Work s = Some s'" using exec_work_enabled [OF busy] by blast
    from tokio.exec_work_spec [OF assms(1) s' busy] tokio.view_shape [OF assms]
    have "handled n x (sys_view vt vr vo s) (sys_view vt vr vo s')"
      by (auto intro: read_job_handled)
    with s' show ?thesis by blast
  qed
  ultimately show ?thesis by blast
qed

lemma incoming_dispatch_witness:
  "\<exists>s s' r. demo no_keepalive 1 [Some (Ok (Close None))] [] [Loop NextArm] = Some s
     \<and> exec (reference_runtime scripted) no_keepalive Work s = Some s'
     \<and> wire s' = [Received (Some (Ok (Close None))), SinkClosed r]
     \<and> task s' = unless_err r (\<lambda>e. Error (WebsocketError e)) (Exited Closed)"
proof -
  obtain s where s: "demo no_keepalive 1 [Some (Ok (Close None))] [] [Loop NextArm] = Some s"
    "task s = Busy (ReadJob (Some (Ok (Close None))))" "wire s = [Received (Some (Ok (Close None)))]"
    by (simp add: eval_simps)
  from incoming_dispatch [OF reference_runtime_tokio demo_reachable [OF s(1)]] s(2)
  obtain s' where "exec (reference_runtime scripted) no_keepalive Work s = Some s'"
    "handled 1 (Some (Ok (Close None))) (sys_view id id id s) (sys_view id id id s')" by blast
  with s show ?thesis by (auto simp: handled_def simp del: exec.simps)
qed

section \<open>A send that fails\<close>

text \<open>
  C28. When the socket refuses a message, a confirmed caller gets the socket's own error, but the
  cause recorded for everyone else is the bare \<open>WebsocketClosed\<close>: after a failed unconfirmed send
  nobody ever learns the real error.
\<close>

theorem outgoing_failure:
  assumes "tokio R vt vr vo" and "task s = Busy (SendJob (Some p) h)"
    and "exec R cfg Work s = Some s'" and "wire s' = wire s @ [Sent (payload_message p) (Err e)]"
  shows "(case response_tx p of
       None \<Rightarrow> task s' = Exited (Error WebsocketClosed)
     | Some i \<Rightarrow>
         if slot_rx (vo (slots (conn s) i))
         then task s' = Exited (Error WebsocketClosed)
           \<and> answer (vo (slots (conn s') i)) = Some (Err (WebsocketError e))
         else task s' = Exited (Error SocketeerDroppedWithoutClosing))"
  using tokio.exec_work_spec [OF assms(1,3,2)]
proof (cases rule: work_spec.cases)
  case (send_answered i w res)
  then have "vo (slots (conn s') i) = (vo (slots (conn s) i))\<lparr>answer := Some (map_err error_from res), slot_tx := False\<rparr>"
    by (simp add: conn_view_def fun_eq_iff)
  with send_answered assms(4) show ?thesis by (auto simp: conn_view_def unless_err_def error_from_def)
qed (use assms(4) in \<open>auto simp: conn_view_def unless_err_def\<close>)

lemma outgoing_failure_witness:
  "\<exists>s s'. demo no_keepalive 1 [] [Err (WsError ''broken pipe'')] [SendUnconfirmed (Text ''a''), Loop RecvArm] = Some s
     \<and> exec (reference_runtime scripted) no_keepalive Work s = Some s'
     \<and> task s' = Exited (Error WebsocketClosed)"
proof -
  let ?p = "\<lparr>payload_message = Text ''a'', response_tx = None\<rparr>"
  obtain s s' where s: "demo no_keepalive 1 [] [Err (WsError ''broken pipe'')] [SendUnconfirmed (Text ''a''), Loop RecvArm] = Some s"
    "exec (reference_runtime scripted) no_keepalive Work s = Some s'"
    "task s = Busy (SendJob (Some ?p) None)"
    "wire s' = wire s @ [Sent (payload_message ?p) (Err (WsError ''broken pipe''))]"
    by (simp add: eval_simps)
  from outgoing_failure [OF reference_runtime_tokio s(3,2,4)] s(1,2) show ?thesis
    by (auto simp del: exec.simps)
qed

section \<open>Messages still queued when the loop leaves\<close>

context tokio
begin

lemma exits_run:
  assumes "task s = Exited st" and "st \<noteq> Running"
  obtains s' where "run R cfg [Exit, Exit, Exit] s = Some s'" "task s' = Finished st" "calls s' = calls s"
    "\<And>i. vo (slots (conn s') i)
       = drop_payloads slot_ops (buf (vt (tx_chan (conn s)))) (\<lambda>i. vo (slots (conn s) i)) i"
proof -
  obtain s' where s': "run R cfg [Exit, Exit, Exit] s = Some s'"
    using exit_enabled [OF assms] by blast
  have "\<exists>v. run (reference R) cfg [Exit, Exit, Exit] (view s) = Some v
      \<and> task v = Finished st \<and> calls v = calls s
      \<and> slots (conn v) = drop_payloads slot_ops (buf (vt (tx_chan (conn s)))) (vo \<circ> slots (conn s))"
    using assms
    by (cases st) (simp_all add: exit_step_def record_terminal_def drop_sender_def drop_receiver_def
        chan_drop_rx_def reference_logged)
  with run_view [OF s'] have "task (view s') = Finished st \<and> calls (view s') = calls s
     \<and> slots (conn (view s')) = drop_payloads slot_ops (buf (vt (tx_chan (conn s)))) (vo \<circ> slots (conn s))"
    by (metis option.inject)
  then have "task s' = Finished st" "calls s' = calls s"
    "vo (slots (conn s') i) = drop_payloads slot_ops (buf (vt (tx_chan (conn s)))) (\<lambda>i. vo (slots (conn s) i)) i" for i
    by (auto simp: fun_eq_iff comp_def)
  with s' that show thesis by blast
qed

lemma await_dropped:
  assumes "calls s i = Awaiting" and "answer (vo (slots (conn s) i)) = None" and "\<not> slot_tx (vo (slots (conn s) i))"
  shows "\<exists>s'. exec R cfg (Await i) s = Some s' \<and> calls s' i = Done Panicked"
proof -
  from assms(2,3) have "slot_recv (vo (slots (conn s) i)) \<noteq> Pending"
    by (simp add: slot_recv_def)
  with os.os_recv_Pending obtain sl x where os: "os_recv (os_ops R) (slots (conn s) i) = Ready (sl, x)"
    by (metis poll.exhaust surj_pair)
  with os.os_recv_Ready [OF os] assms(2,3) have "x = None"
    by (auto simp: slot_recv_def)
  with os assms(1) show ?thesis by (simp add: await_response_def)
qed

end

text \<open>
  The \<open>unreachable!\<close> of the confirmed sends is reachable: whenever the loop leaves, for whatever
  reason, while the message of a waiting call is still in the queue, the exit drops the message with
  its one-shot and that call panics. This includes the close of \<open>reconnect\<close> and \<open>close_connection\<close>
  on a connection that has just ended.
\<close>

theorem queued_call_panics:
  assumes "tokio R vt vr vo" and "reachable R cfg n s" and "task s = Exited st"
    and "p \<in> set (buf (vt (tx_chan (conn s))))" and "response_tx p = Some i" and "calls s i = Awaiting"
  shows "\<exists>s'. run R cfg [Exit, Exit, Exit, Await i] s = Some s' \<and> calls s' i = Done Panicked"
proof -
  from tokio.view_terminal [OF assms(1,2)] assms(3) have "st \<noteq> Running"
    by (auto simp: terminal_inv_def)
  from tokio.exits_run [OF assms(1,3) this] obtain s' where
    s': "run R cfg [Exit, Exit, Exit] s = Some s'" "calls s' = calls s"
    "\<And>i. vo (slots (conn s') i)
       = drop_payloads slot_ops (buf (vt (tx_chan (conn s)))) (\<lambda>i. vo (slots (conn s) i)) i"
    by blast
  from assms(4,5) have queued: "i \<in> set (ids (buf (vt (tx_chan (conn s)))))"
    by (auto simp: ids_set)
  from tokio.view_outbound [OF assms(1,2)] obtain outs dropped where
    "calls_rel (sys_view vt vr vo s) outs dropped"
    by (auto simp: outbound_inv_def)
  with queued have "answer (vo (slots (conn s) i)) = None"
    by (auto simp: calls_rel_def call_rel_def)
  with queued have "answer (vo (slots (conn s') i)) = None" "\<not> slot_tx (vo (slots (conn s') i))"
    by (simp_all add: s'(3) drop_payloads_kept drop_payloads_drops)
  from tokio.await_dropped [OF assms(1) _ this] s'(2) assms(6) obtain s'' where
    "exec R cfg (Await i) s' = Some s''" "calls s'' i = Done Panicked" by metis
  with s'(1) have "run R cfg ([Exit, Exit, Exit] @ [Await i]) s = Some s'' \<and> calls s'' i = Done Panicked"
    unfolding run_append by simp
  then show ?thesis by auto
qed

lemma queued_call_panics_witness:
  "\<exists>s s'. demo no_keepalive 1 [Some (Ok (Close None))] [] [SendClose 0, Loop NextArm, Work] = Some s
     \<and> run (reference_runtime scripted) no_keepalive [Exit, Exit, Exit, Await 0] s = Some s'
     \<and> calls s' 0 = Done Panicked"
proof -
  obtain s where s: "demo no_keepalive 1 [Some (Ok (Close None))] [] [SendClose 0, Loop NextArm, Work] = Some s"
    "task s = Exited Closed" "buf (tx_chan (conn s)) = [\<lparr>payload_message = close_message, response_tx = Some 0\<rparr>]"
    "calls s 0 = Awaiting"
    by (simp add: eval_simps)
  from queued_call_panics [OF reference_runtime_tokio demo_reachable [OF s(1)] s(2) _ _ s(4),
      where p = "\<lparr>payload_message = close_message, response_tx = Some 0\<rparr>"] s
  show ?thesis by (auto simp del: run.simps)
qed

end
