(* ===== verification/Codecs.thy ===== *)
theory Codecs
  imports Errors
begin

text \<open>
  The codec layer (\<open>src/codec.rs\<close>): the \<open>Codec\<close> trait as a record of its two methods, the three
  stock codecs, and the contract a codec should keep as a locale that each of them interprets.
  \<open>serde_json\<close> and \<open>rmp-serde\<close> are parameters: records of the functions the source calls, with
  their documented round trip as the assumptions of a locale.
\<close>

section \<open>The trait and the stock codecs\<close>

record ('tx, 'rx) codec =
  encode :: "'tx \<Rightarrow> (message, error) result"
  decode :: "message \<Rightarrow> ('rx, error) result"

text \<open>What \<open>JsonCodec\<close> uses of \<open>serde_json\<close>, and \<open>MsgPackCodec\<close> of \<open>rmp-serde\<close>.\<close>

record ('tx, 'rx) serde_json =
  to_string :: "'tx \<Rightarrow> (string, codec_error) result"
  from_str :: "string \<Rightarrow> ('rx, codec_error) result"
  from_slice :: "bytes \<Rightarrow> ('rx, codec_error) result"

record ('tx, 'rx) rmp_serde =
  to_vec_named :: "'tx \<Rightarrow> (bytes, codec_error) result"
  rmp_from_slice :: "bytes \<Rightarrow> ('rx, codec_error) result"

definition json_encode :: "('tx, 'rx) serde_json \<Rightarrow> 'tx \<Rightarrow> (message, error) result" where
  "json_encode J v =
     and_then (map_err Codec (to_string J v)) (\<lambda>text. Ok (Text text))"

fun json_decode :: "('tx, 'rx) serde_json \<Rightarrow> message \<Rightarrow> ('rx, error) result" where
  "json_decode J (Text text) = map_err Codec (from_str J text)"
| "json_decode J (Binary bs) = map_err Codec (from_slice J bs)"
| "json_decode J other = Err (UnexpectedMessageType other)"

definition json_codec :: "('tx, 'rx) serde_json \<Rightarrow> ('tx, 'rx) codec" where
  "json_codec J = \<lparr>encode = json_encode J, decode = json_decode J\<rparr>"

definition msgpack_encode :: "('tx, 'rx) rmp_serde \<Rightarrow> 'tx \<Rightarrow> (message, error) result" where
  "msgpack_encode M v =
     and_then (map_err Codec (to_vec_named M v)) (\<lambda>bs. Ok (Binary bs))"

fun msgpack_decode :: "('tx, 'rx) rmp_serde \<Rightarrow> message \<Rightarrow> ('rx, error) result" where
  "msgpack_decode M (Binary bs) = map_err Codec (rmp_from_slice M bs)"
| "msgpack_decode M other = Err (UnexpectedMessageType other)"

definition msgpack_codec :: "('tx, 'rx) rmp_serde \<Rightarrow> ('tx, 'rx) codec" where
  "msgpack_codec M = \<lparr>encode = msgpack_encode M, decode = msgpack_decode M\<rparr>"

definition raw_encode :: "message \<Rightarrow> (message, error) result" where
  "raw_encode v = Ok v"

definition raw_decode :: "message \<Rightarrow> (message, error) result" where
  "raw_decode frame = Ok frame"

definition raw_codec :: "(message, message) codec" where
  "raw_codec = \<lparr>encode = raw_encode, decode = raw_decode\<rparr>"

section \<open>The contract of a codec\<close>

text \<open>
  A codec whose two types agree reads back what it wrote. From that alone it follows that it
  never writes two different values as the same frame.
\<close>

locale lossless_codec =
  fixes C :: "('v, 'v) codec"
  assumes decode_encode: "encode C v = Ok frame \<Longrightarrow> decode C frame = Ok v"
begin

lemma encode_injective:
  assumes "encode C v = Ok frame" and "encode C w = Ok frame"
  shows "v = w"
  using decode_encode [OF assms(1)] decode_encode [OF assms(2)] by simp

lemma and_then_encode: "\<not> is_err (encode C v) \<Longrightarrow> and_then (encode C v) (decode C) = Ok v"
  by (cases "encode C v") (auto dest: decode_encode)

end

text \<open>
  A codec that is meant for data frames writes only data frames and refuses to read any other
  frame, handing the frame back in the error.
\<close>

locale data_codec =
  fixes C :: "('tx, 'rx) codec"
  assumes encode_data: "encode C v = Ok frame \<Longrightarrow> is_data frame"
    and decode_protocol: "\<not> is_data frame \<Longrightarrow> decode C frame = Err (UnexpectedMessageType frame)"
begin

lemma decode_Ok_data: "decode C frame = Ok v \<Longrightarrow> is_data frame"
  using decode_protocol by fastforce

end

text \<open>The documented round trips of the two serialisation crates.\<close>

locale json_format =
  fixes J :: "('v, 'v) serde_json"
  assumes from_str_to_string: "to_string J v = Ok s \<Longrightarrow> from_str J s = Ok v"

locale msgpack_format =
  fixes M :: "('v, 'v) rmp_serde"
  assumes from_slice_to_vec: "to_vec_named M v = Ok bs \<Longrightarrow> rmp_from_slice M bs = Ok v"

lemma json_encode_Ok: "json_encode J v = Ok frame \<longleftrightarrow> (\<exists>s. to_string J v = Ok s \<and> frame = Text s)"
  by (cases "to_string J v") (auto simp: json_encode_def)

lemma msgpack_encode_Ok:
  "msgpack_encode M v = Ok frame \<longleftrightarrow> (\<exists>bs. to_vec_named M v = Ok bs \<and> frame = Binary bs)"
  by (cases "to_vec_named M v") (auto simp: msgpack_encode_def)

sublocale json_format \<subseteq> lossless_codec "json_codec J"
  by unfold_locales (auto simp: json_codec_def json_encode_Ok dest: from_str_to_string)

sublocale msgpack_format \<subseteq> lossless_codec "msgpack_codec M"
  by unfold_locales (auto simp: msgpack_codec_def msgpack_encode_Ok dest: from_slice_to_vec)

context json_format
begin

lemma lossless: "lossless_codec (json_codec J)"
  by (rule lossless_codec_axioms)

end

context msgpack_format
begin

lemma lossless: "lossless_codec (msgpack_codec M)"
  by (rule lossless_codec_axioms)

end

interpretation raw: lossless_codec raw_codec
  by unfold_locales (simp add: raw_codec_def raw_encode_def raw_decode_def)

lemma json_decode_protocol: "\<not> is_data frame \<Longrightarrow> json_decode J frame = Err (UnexpectedMessageType frame)"
  by (cases frame) auto

lemma msgpack_decode_protocol:
  "\<not> is_data frame \<Longrightarrow> msgpack_decode M frame = Err (UnexpectedMessageType frame)"
  by (cases frame) auto

interpretation json_data: data_codec "json_codec J" for J
  by unfold_locales (auto simp: json_codec_def json_encode_Ok json_decode_protocol)

interpretation msgpack_data: data_codec "msgpack_codec M" for M
  by unfold_locales (auto simp: msgpack_codec_def msgpack_encode_Ok msgpack_decode_protocol)

end
