(* ===== verification/Handshake.thy ===== *)
theory Handshake
  imports Codecs Transport
begin

text \<open>
  The handshake phase (\<open>src/handler.rs\<close>): \<open>HandshakeContext\<close>, the \<open>ConnectionHandler\<close> trait and
  \<open>NoopHandler\<close>. The context borrows the two halves of the socket and the codec, so its operations
  are functions of the transport, the codec and the state of the socket.

  \<open>recv_raw\<close> is a loop that may go on as long as the peer sends pings: it is a partial function,
  \<open>None\<close> when it never ends. It answers \<open>Pending\<close> when it has to wait for the stream.
\<close>

section \<open>The context\<close>

record ('tx, 'rx, 'w) handshake_context =
  hs_transport :: "'w transport"
  hs_codec :: "('tx, 'rx) codec"
  hs_socket :: 'w

type_synonym ('tx, 'rx, 'w, 'a) hs_result = "(('tx, 'rx, 'w) handshake_context \<times> ('a, error) result poll) option"

definition new_context ::
  "'w transport \<Rightarrow> 'w \<Rightarrow> ('tx, 'rx) codec \<Rightarrow> ('tx, 'rx, 'w) handshake_context" where
  "new_context T w C = \<lparr>hs_transport = T, hs_codec = C, hs_socket = w\<rparr>"

definition hs_sink_send ::
  "('tx, 'rx, 'w) handshake_context \<Rightarrow> message
    \<Rightarrow> ('tx, 'rx, 'w) handshake_context \<times> (unit, error) result" where
  "hs_sink_send ctx m =
     (let (w, r) = ws_send (hs_transport ctx) (hs_socket ctx) m
      in (ctx\<lparr>hs_socket := w\<rparr>, map_err error_from r))"

definition hs_send ::
  "('tx, 'rx, 'w) handshake_context \<Rightarrow> 'tx
    \<Rightarrow> ('tx, 'rx, 'w) handshake_context \<times> (unit, error) result" where
  "hs_send ctx value =
     (case encode (hs_codec ctx) value of
        Inl e \<Rightarrow> (ctx, Err e)
      | Inr m \<Rightarrow> hs_sink_send ctx m)"

definition hs_send_text ::
  "('tx, 'rx, 'w) handshake_context \<Rightarrow> string
    \<Rightarrow> ('tx, 'rx, 'w) handshake_context \<times> (unit, error) result" where
  "hs_send_text ctx text = hs_sink_send ctx (Text text)"

definition hs_send_binary ::
  "('tx, 'rx, 'w) handshake_context \<Rightarrow> bytes
    \<Rightarrow> ('tx, 'rx, 'w) handshake_context \<times> (unit, error) result" where
  "hs_send_binary ctx bs = hs_sink_send ctx (Binary bs)"

partial_function (option) hs_recv_raw ::
  "('tx, 'rx, 'w) handshake_context \<Rightarrow> ('tx, 'rx, 'w, message) hs_result" where
  "hs_recv_raw ctx =
     (case ws_next (hs_transport ctx) (hs_socket ctx) of
        Pending \<Rightarrow> Some (ctx, Pending)
      | Ready (w, item) \<Rightarrow>
          (case item of
             None \<Rightarrow> Some (ctx\<lparr>hs_socket := w\<rparr>, Ready (Err WebsocketClosed))
           | Some (Inl e) \<Rightarrow> Some (ctx\<lparr>hs_socket := w\<rparr>, Ready (Err (WebsocketError e)))
           | Some (Inr m) \<Rightarrow>
               (case m of
                  Ping _ \<Rightarrow> hs_recv_raw (ctx\<lparr>hs_socket := w\<rparr>)
                | Pong _ \<Rightarrow> hs_recv_raw (ctx\<lparr>hs_socket := w\<rparr>)
                | other \<Rightarrow> Some (ctx\<lparr>hs_socket := w\<rparr>, Ready (Ok other)))))"

definition hs_then ::
  "('tx, 'rx, 'w, 'a) hs_result \<Rightarrow> ('a \<Rightarrow> ('b, error) result) \<Rightarrow> ('tx, 'rx, 'w, 'b) hs_result" where
  "hs_then r f = map_option (map_prod id (map_poll (\<lambda>x. and_then x f))) r"

definition hs_recv ::
  "('tx, 'rx, 'w) handshake_context \<Rightarrow> ('tx, 'rx, 'w, 'rx) hs_result" where
  "hs_recv ctx =
     hs_then (hs_recv_raw ctx)
       (\<lambda>m. case m of Close _ \<Rightarrow> Err WebsocketClosed | frame \<Rightarrow> decode (hs_codec ctx) frame)"

definition hs_recv_text ::
  "('tx, 'rx, 'w) handshake_context \<Rightarrow> ('tx, 'rx, 'w, string) hs_result" where
  "hs_recv_text ctx =
     hs_then (hs_recv_raw ctx)
       (\<lambda>m. case m of Text text \<Rightarrow> Ok text | other \<Rightarrow> Err (UnexpectedMessageType other))"

section \<open>Handlers\<close>

text \<open>
  A handler is its two methods on a state of its own. \<open>on_connected\<close> is \<open>None\<close> when it has not
  returned; it works on the socket through a context, so it is given one and gives it back.
\<close>

record ('tx, 'rx, 'w, 'h) connection_handler =
  on_connected :: "'h \<Rightarrow> ('tx, 'rx, 'w) handshake_context
    \<Rightarrow> ('h \<times> ('tx, 'rx, 'w) handshake_context \<times> (unit, error) result) option"
  on_disconnected :: "'h \<Rightarrow> 'h"

text \<open>The trait's default methods, and the handler that has only these.\<close>

definition default_on_connected ::
  "'h \<Rightarrow> ('tx, 'rx, 'w) handshake_context
    \<Rightarrow> ('h \<times> ('tx, 'rx, 'w) handshake_context \<times> (unit, error) result) option" where
  "default_on_connected h ctx = Some (h, ctx, Ok ())"

definition default_on_disconnected :: "'h \<Rightarrow> 'h" where
  "default_on_disconnected h = h"

definition noop_handler :: "('tx, 'rx, 'w, unit) connection_handler" where
  "noop_handler = \<lparr>on_connected = default_on_connected, on_disconnected = default_on_disconnected\<rparr>"

section \<open>Receiving\<close>

fun skipped :: "message \<Rightarrow> bool" where
  "skipped (Ping _) = True"
| "skipped (Pong _) = True"
| "skipped _ = False"

definition raw_result :: "ws_item \<Rightarrow> (message, error) result" where
  "raw_result item =
     (case item of
        None \<Rightarrow> Err WebsocketClosed
      | Some (Inl e) \<Rightarrow> Err (WebsocketError e)
      | Some (Inr m) \<Rightarrow> Ok m)"

definition reads :: "message list \<Rightarrow> wire_event list" where
  "reads ps = map (\<lambda>p. Received (Some (Ok p))) ps"

text \<open>One turn of the loop: it stops with the item, or goes on past a ping or pong.\<close>

lemma hs_recv_raw_item:
  assumes "ws_next (hs_transport ctx) (hs_socket ctx) = Ready (w, item)"
  shows "hs_recv_raw ctx =
     (case item of
        Some (Inr m) \<Rightarrow> if skipped m then hs_recv_raw (ctx\<lparr>hs_socket := w\<rparr>)
                       else Some (ctx\<lparr>hs_socket := w\<rparr>, Ready (Ok m))
      | _ \<Rightarrow> Some (ctx\<lparr>hs_socket := w\<rparr>, Ready (raw_result item)))"
  using assms
  by (subst hs_recv_raw.simps) (simp add: raw_result_def split: option.split sum.split message.split)

lemma hs_recv_raw_pending:
  "ws_next (hs_transport ctx) (hs_socket ctx) = Pending \<Longrightarrow> hs_recv_raw ctx = Some (ctx, Pending)"
  by (subst hs_recv_raw.simps) simp

context finite_backlog
begin

text \<open>The loop ends: every item it reads makes the backlog smaller.\<close>

lemma hs_recv_raw_total:
  fixes ctx :: "('tx, 'rx, 'w) handshake_context"
  assumes "hs_transport ctx = T"
  shows "hs_recv_raw ctx \<noteq> None"
  using assms
proof (induction "backlog (hs_socket ctx)" arbitrary: ctx rule: less_induct)
  case less
  show ?case
  proof (cases "ws_next (hs_transport ctx) (hs_socket ctx)")
    case Pending
    then show ?thesis by (simp add: hs_recv_raw_pending)
  next
    case (Ready p)
    obtain w item where p: "p = (w, item)" by (cases p)
    with Ready less.prems backlog_next have "backlog w < backlog (hs_socket ctx)" by simp
    with less.hyps [of "ctx\<lparr>hs_socket := w\<rparr>"] less.prems have "hs_recv_raw (ctx\<lparr>hs_socket := w\<rparr>) \<noteq> None"
      by simp
    with hs_recv_raw_item [OF Ready [unfolded p]] show ?thesis
      by (auto split: option.splits sum.splits)
  qed
qed

end

text \<open>
  What \<open>recv_raw\<close> returns is the first item that is neither a ping nor a pong; the items before it
  are read and dropped, nothing else is read, and nothing is sent.
\<close>

definition raw_spec :: "wire_event list \<Rightarrow> wire_event list \<Rightarrow> (message, error) result poll \<Rightarrow> bool" where
  "raw_spec l l' r \<longleftrightarrow>
     (\<exists>ps. list_all skipped ps
        \<and> (case r of
             Pending \<Rightarrow> l' = l @ reads ps
           | Ready res \<Rightarrow>
               (\<exists>item. l' = l @ reads ps @ [Received item] \<and> res = raw_result item
                  \<and> (\<forall>m. item = Some (Ok m) \<longrightarrow> \<not> skipped m))))"

lemma raw_spec_skip:
  assumes "raw_spec (l @ [Received (Some (Ok m))]) l' r" and "skipped m"
  shows "raw_spec l l' r"
proof -
  from assms(1) obtain ps where ps: "list_all skipped ps"
    and r: "case r of
             Pending \<Rightarrow> l' = (l @ [Received (Some (Ok m))]) @ reads ps
           | Ready res \<Rightarrow>
               (\<exists>item. l' = (l @ [Received (Some (Ok m))]) @ reads ps @ [Received item] \<and> res = raw_result item
                  \<and> (\<forall>m. item = Some (Ok m) \<longrightarrow> \<not> skipped m))"
    unfolding raw_spec_def by blast
  from ps assms(2) have "list_all skipped (m # ps)" by simp
  moreover have "l @ reads (m # ps) = (l @ [Received (Some (Ok m))]) @ reads ps"
    by (simp add: reads_def)
  ultimately show ?thesis
    unfolding raw_spec_def using r
    by (intro exI [where x = "m # ps"]) (auto simp: reads_def split: poll.splits)
qed

context recorded
begin

lemma hs_recv_raw_recorded:
  fixes ctx :: "('tx, 'rx, 'w) handshake_context"
  assumes "hs_recv_raw ctx = Some res" and "hs_transport ctx = T"
  shows "raw_spec (wlog (hs_socket ctx)) (wlog (hs_socket (fst res))) (snd res)
    \<and> hs_transport (fst res) = T \<and> hs_codec (fst res) = hs_codec ctx"
  using assms
proof (induction ctx res rule: hs_recv_raw.raw_induct [rotated 1, consumes 1, case_names 1])
  case (1 f ctx res)
  show ?case
  proof (cases "ws_next (hs_transport ctx) (hs_socket ctx)")
    case Pending
    with 1 show ?thesis by (auto simp: raw_spec_def reads_def intro: exI [where x = "[]"])
  next
    case (Ready p)
    obtain w item where p: "p = (w, item)" by (cases p)
    with Ready 1 log_next have log: "wlog w = wlog (hs_socket ctx) @ [Received item]" by simp
    show ?thesis
    proof (cases "\<exists>m. item = Some (Ok m) \<and> skipped m")
      case True
      then obtain m where m: "item = Some (Ok m)" "skipped m" by blast
      then have "f (ctx\<lparr>hs_socket := w\<rparr>) = Some res"
        using 1 Ready p by (cases m) auto
      from 1(1) [OF this] 1 log m show ?thesis by (auto intro: raw_spec_skip)
    next
      case False
      then have "res = (ctx\<lparr>hs_socket := w\<rparr>, Ready (raw_result item))"
        using 1 Ready p by (auto simp: raw_result_def split: option.splits sum.splits message.splits)
      with False log 1 show ?thesis
        by (auto simp: raw_spec_def reads_def intro!: exI [where x = "[]"])
    qed
  qed
qed

end

text \<open>
  C33. \<open>recv_raw\<close> of the handshake ends, and is right: on a socket with a finite backlog it returns,
  or waits when nothing is left to read; what it returns is the first item that is neither a ping
  nor a pong, an end or error of the stream as the documented error; it reads nothing beyond it and
  sends nothing.
\<close>

theorem handshake_recv_raw:
  assumes "finite_backlog T backlog" and "hs_transport ctx = logged T"
  shows "\<exists>ctx' r. hs_recv_raw ctx = Some (ctx', r)
      \<and> raw_spec (snd (hs_socket ctx)) (snd (hs_socket ctx')) r \<and> hs_codec ctx' = hs_codec ctx"
proof -
  from finite_backlog.hs_recv_raw_total [OF finite_backlog.finite_backlog_logged [OF assms(1)] assms(2)]
  obtain res where "hs_recv_raw ctx = Some res" by blast
  with logged.hs_recv_raw_recorded [OF this assms(2)] show ?thesis by (cases res) auto
qed

lemma handshake_recv_raw_witness:
  "\<exists>ctx' r. hs_recv_raw (new_context (logged scripted)
        (\<lparr>inbox = [Some (Ok (Ping [])), Some (Ok (Text ''hi''))], outcomes = []\<rparr>, []) raw_codec) = Some (ctx', r)
     \<and> raw_spec [] (snd (hs_socket ctx')) r"
proof -
  have "hs_transport (new_context (logged scripted) w raw_codec) = logged scripted" for w
    by (simp add: new_context_def)
  from handshake_recv_raw [OF scripted.finite_backlog_axioms this]
  show ?thesis by (fastforce simp: new_context_def)
qed

text \<open>What the typed receive and the text receive make of the first item that counts.\<close>

fun typed_result :: "('tx, 'rx) codec \<Rightarrow> ws_item \<Rightarrow> ('rx, error) result" where
  "typed_result C None = Err WebsocketClosed"
| "typed_result C (Some (Inl e)) = Err (WebsocketError e)"
| "typed_result C (Some (Inr (Close _))) = Err WebsocketClosed"
| "typed_result C (Some (Inr m)) = decode C m"

fun text_result :: "ws_item \<Rightarrow> (string, error) result" where
  "text_result None = Err WebsocketClosed"
| "text_result (Some (Inl e)) = Err (WebsocketError e)"
| "text_result (Some (Inr (Text t))) = Ok t"
| "text_result (Some (Inr m)) = Err (UnexpectedMessageType m)"

lemma typed_of_raw:
  "and_then (raw_result item) (\<lambda>m. case m of Close _ \<Rightarrow> Err WebsocketClosed | frame \<Rightarrow> decode C frame) = typed_result C item"
  by (cases "(C, item)" rule: typed_result.cases) (simp_all add: raw_result_def)

lemma text_of_raw:
  "and_then (raw_result item) (\<lambda>m. case m of Text text \<Rightarrow> Ok text | other \<Rightarrow> Err (UnexpectedMessageType other)) = text_result item"
  by (cases item rule: text_result.cases) (simp_all add: raw_result_def split: message.split)

text \<open>
  C34. The typed receives of the handshake, for every codec and every transport with a finite backlog:
  they read up to the first item that is neither a ping nor a pong, send nothing, and return what that
  item is worth: the end of the stream or a close frame is \<open>WebsocketClosed\<close>, whatever the codec would
  make of it, an error of the stream is that error, and any other frame is what the codec decodes it
  to; \<open>recv_text\<close> accepts text only and gives any other frame, a close frame included, back in its
  error.
\<close>

theorem handshake_recv:
  assumes "finite_backlog T backlog" and "hs_transport ctx = logged T"
  shows "\<exists>ps ctx'. list_all skipped ps \<and> hs_codec ctx' = hs_codec ctx
      \<and> (snd (hs_socket ctx') = snd (hs_socket ctx) @ reads ps
           \<and> hs_recv ctx = Some (ctx', Pending) \<and> hs_recv_text ctx = Some (ctx', Pending)
         \<or> (\<exists>item. (\<forall>m. item = Some (Ok m) \<longrightarrow> \<not> skipped m)
              \<and> snd (hs_socket ctx') = snd (hs_socket ctx) @ reads ps @ [Received item]
              \<and> hs_recv ctx = Some (ctx', Ready (typed_result (hs_codec ctx) item))
              \<and> hs_recv_text ctx = Some (ctx', Ready (text_result item))))"
proof -
  from finite_backlog.hs_recv_raw_total [OF finite_backlog.finite_backlog_logged [OF assms(1)] assms(2)]
  obtain ctx' r where raw: "hs_recv_raw ctx = Some (ctx', r)" by auto
  from logged.hs_recv_raw_recorded [OF this assms(2)]
  obtain ps where ps: "list_all skipped ps" and codec: "hs_codec ctx' = hs_codec ctx"
    and r: "case r of
             Pending \<Rightarrow> snd (hs_socket ctx') = snd (hs_socket ctx) @ reads ps
           | Ready res \<Rightarrow>
               (\<exists>item. snd (hs_socket ctx') = snd (hs_socket ctx) @ reads ps @ [Received item] \<and> res = raw_result item
                  \<and> (\<forall>m. item = Some (Ok m) \<longrightarrow> \<not> skipped m))"
    by (auto simp: raw_spec_def)
  show ?thesis
  proof (cases r)
    case Pending
    with raw ps codec r show ?thesis
      by (intro exI [where x = ps] exI [where x = ctx']) (simp add: hs_recv_def hs_recv_text_def hs_then_def)
  next
    case (Ready res)
    with r obtain item where item: "snd (hs_socket ctx') = snd (hs_socket ctx) @ reads ps @ [Received item]"
      "res = raw_result item" "\<forall>m. item = Some (Ok m) \<longrightarrow> \<not> skipped m" by auto
    with raw Ready have "hs_recv ctx = Some (ctx', Ready (typed_result (hs_codec ctx) item))"
      "hs_recv_text ctx = Some (ctx', Ready (text_result item))"
      by (simp_all add: hs_recv_def hs_recv_text_def hs_then_def typed_of_raw text_of_raw)
    with ps codec item show ?thesis by blast
  qed
qed

lemma handshake_recv_witness:
  "\<exists>ps ctx' r. hs_recv (new_context (logged scripted)
        (\<lparr>inbox = [Some (Ok (Ping [])), Some (Ok (Close None))], outcomes = []\<rparr>, []) raw_codec) = Some (ctx', r)
     \<and> list_all skipped ps
     \<and> (r = Pending \<and> snd (hs_socket ctx') = reads ps
        \<or> (\<exists>item. r = Ready (typed_result raw_codec item) \<and> snd (hs_socket ctx') = reads ps @ [Received item]))"
proof -
  have "hs_transport (new_context (logged scripted) w raw_codec) = logged scripted" for w
    by (simp add: new_context_def)
  from handshake_recv [OF scripted.finite_backlog_axioms this]
  show ?thesis by (fastforce simp: new_context_def)
qed

text \<open>
  Sending in the handshake: a value that cannot be encoded leaves the socket untouched; one that
  can is offered to it as one frame, which the peer's codec reads back as the value, and the call
  returns what the socket answered.
\<close>

theorem handshake_send:
  assumes "lossless_codec (hs_codec ctx)" and "hs_transport ctx = logged T" and "hs_send ctx v = (ctx', r)"
  shows "(\<exists>e. encode (hs_codec ctx) v = Err e \<and> ctx' = ctx \<and> r = Err e)
    \<or> (\<exists>m res. snd (hs_socket ctx') = snd (hs_socket ctx) @ [Sent m res]
         \<and> decode (hs_codec ctx) m = Ok v \<and> r = map_err error_from res)"
proof (cases "encode (hs_codec ctx) v")
  case (Inl e)
  with assms(3) show ?thesis by (simp add: hs_send_def)
next
  case (Inr m)
  obtain w res where w: "ws_send (logged T) (hs_socket ctx) m = (w, res)"
    by (cases "ws_send (logged T) (hs_socket ctx) m")
  with Inr assms(2,3) have "ctx' = ctx\<lparr>hs_socket := w\<rparr>" "r = map_err error_from res"
    by (auto simp: hs_send_def hs_sink_send_def)
  with logged.log_send [OF w] lossless_codec.decode_encode [OF assms(1) Inr] show ?thesis by auto
qed

lemma handshake_send_witness:
  "\<exists>ctx' r m res. hs_send (new_context (logged scripted) (\<lparr>inbox = [], outcomes = []\<rparr>, []) raw_codec) (Text ''a'') = (ctx', r)
     \<and> snd (hs_socket ctx') = [Sent m res] \<and> raw_decode m = Ok (Text ''a'')"
proof -
  let ?ctx = "new_context (logged scripted) (\<lparr>inbox = [], outcomes = []\<rparr>, []) raw_codec"
  have ctx: "hs_codec ?ctx = raw_codec" "hs_transport ?ctx = logged scripted" "snd (hs_socket ?ctx) = []"
    by (simp_all add: new_context_def)
  obtain ctx' r where r: "hs_send ?ctx (Text ''a'') = (ctx', r)"
    by (cases "hs_send ?ctx (Text ''a'')")
  have "lossless_codec (hs_codec ?ctx)" using raw.lossless_codec_axioms by (simp add: ctx)
  from handshake_send [OF this ctx(2) r] r ctx show ?thesis
    by (auto simp: raw_codec_def raw_encode_def)
qed

end
