(* ===== verification/Configs.thy ===== *)
theory Configs
  imports Errors
begin

text \<open>
  Connection options (\<open>src/config.rs\<close>): \<open>ConnectOptions\<close>, its builder, and the construction of
  the upgrade request. \<open>http::HeaderMap\<close> and \<open>tungstenite\<close>'s \<open>IntoClientRequest\<close> are
  parameters; the locale \<open>header_map\<close> states what the \<open>http\<close> crate documents of the three
  header operations the source calls, through an observer that lists the values of a name.
  Header names are taken in the normal form of \<open>http::HeaderName\<close>. Durations count milliseconds.
\<close>

section \<open>Header maps\<close>

record 'h header_ops =
  hm_new :: 'h
  hm_insert :: "'h \<Rightarrow> string \<Rightarrow> string \<Rightarrow> 'h"
  hm_iter :: "'h \<Rightarrow> (string \<times> string) list"

definition values_of :: "string \<Rightarrow> (string \<times> string) list \<Rightarrow> string list" where
  "values_of k kvs = map snd (filter (\<lambda>kv. fst kv = k) kvs)"

lemma values_of_simps [simp]:
  "values_of k [] = []"
  "values_of k (kv # kvs) = (if fst kv = k then snd kv # values_of k kvs else values_of k kvs)"
  "values_of k (kvs @ kvs') = values_of k kvs @ values_of k kvs'"
  by (simp_all add: values_of_def)

locale header_map =
  fixes H :: "'h header_ops" and get_all :: "'h \<Rightarrow> string \<Rightarrow> string list"
  assumes get_all_new: "get_all (hm_new H) k = []"
    and get_all_insert: "get_all (hm_insert H h k v) k' = (if k' = k then [v] else get_all h k')"
    and get_all_iter: "get_all h k = values_of k (hm_iter H h)"

section \<open>Options and their builder\<close>

record 'h connect_options =
  extra_headers :: 'h
  keepalive_interval :: "duration option"
  custom_keepalive_message :: "message option"

record 'h connect_options_builder =
  options :: "'h connect_options"

definition from_secs :: "nat \<Rightarrow> duration" where
  "from_secs s = 1000 * s"

definition connect_options_default :: "'h header_ops \<Rightarrow> 'h connect_options" where
  "connect_options_default H =
     \<lparr>extra_headers = hm_new H,
      keepalive_interval = Some (from_secs 2),
      custom_keepalive_message = None\<rparr>"

definition builder :: "'h header_ops \<Rightarrow> 'h connect_options_builder" where
  "builder H = \<lparr>options = connect_options_default H\<rparr>"

definition set_keepalive_interval ::
  "duration option \<Rightarrow> 'h connect_options_builder \<Rightarrow> 'h connect_options_builder" where
  "set_keepalive_interval interval b =
     b\<lparr>options := (options b)\<lparr>keepalive_interval := interval\<rparr>\<rparr>"

definition set_header ::
  "'h header_ops \<Rightarrow> string \<Rightarrow> string \<Rightarrow> 'h connect_options_builder \<Rightarrow> 'h connect_options_builder" where
  "set_header H name value b =
     b\<lparr>options := (options b)\<lparr>extra_headers := hm_insert H (extra_headers (options b)) name value\<rparr>\<rparr>"

definition set_headers :: "'h \<Rightarrow> 'h connect_options_builder \<Rightarrow> 'h connect_options_builder" where
  "set_headers hs b = b\<lparr>options := (options b)\<lparr>extra_headers := hs\<rparr>\<rparr>"

definition set_custom_keepalive_message ::
  "message option \<Rightarrow> 'h connect_options_builder \<Rightarrow> 'h connect_options_builder" where
  "set_custom_keepalive_message m b =
     b\<lparr>options := (options b)\<lparr>custom_keepalive_message := m\<rparr>\<rparr>"

definition build :: "'h connect_options_builder \<Rightarrow> 'h connect_options" where
  "build b = options b"

section \<open>The upgrade request\<close>

text \<open>
  A URL is its serialisation (\<open>Url::as_str\<close>). A request is its header map and the rest, which
  the source does not touch.
\<close>

datatype url = Url (as_str: string)

record 'h request =
  request_head :: string
  headers :: 'h

definition insert_all :: "'h header_ops \<Rightarrow> (string \<times> string) list \<Rightarrow> 'h \<Rightarrow> 'h" where
  "insert_all H kvs h = foldl (\<lambda>h (key, value). hm_insert H h key value) h kvs"

definition build_request ::
  "'h header_ops \<Rightarrow> (string \<Rightarrow> ('h request, ws_error) result) \<Rightarrow> 'h connect_options \<Rightarrow> url
    \<Rightarrow> ('h request, error) result" where
  "build_request H into_client_request opts u =
     and_then (map_err WebsocketError (into_client_request (as_str u)))
       (\<lambda>request. Ok (request\<lparr>headers := insert_all H (hm_iter H (extra_headers opts)) (headers request)\<rparr>))"

lemmas builder_defs = builder_def set_keepalive_interval_def set_header_def set_headers_def
  set_custom_keepalive_message_def build_def connect_options_default_def

text \<open>Each name has the last of the extra values, if it has any, and otherwise its base values.\<close>

definition overrides :: "('h \<Rightarrow> string \<Rightarrow> string list) \<Rightarrow> 'h \<Rightarrow> 'h \<Rightarrow> 'h \<Rightarrow> bool" where
  "overrides get_all extra base h \<longleftrightarrow>
     (\<forall>k. get_all h k = (if get_all extra k = [] then get_all base k else [last (get_all extra k)]))"

context header_map
begin

text \<open>Inserting a list of headers leaves the last value given for each name.\<close>

lemma get_all_insert_all:
  "get_all (insert_all H kvs h) k
     = (if values_of k kvs = [] then get_all h k else [last (values_of k kvs)])"
proof (induction kvs rule: rev_induct)
  case Nil
  then show ?case by (simp add: insert_all_def)
next
  case (snoc kv kvs)
  have "insert_all H (kvs @ [kv]) h = hm_insert H (insert_all H kvs h) (fst kv) (snd kv)"
    by (simp add: insert_all_def split_beta)
  then show ?case using snoc.IH by (auto simp: get_all_insert)
qed

lemma build_request_overrides:
  assumes "into_client_request (as_str u) = Ok base"
    and "build_request H into_client_request opts u = Ok rq"
  shows "overrides get_all (extra_headers opts) (headers base) (headers rq) \<and> request_head rq = request_head base"
proof -
  from assms have "rq = base\<lparr>headers := insert_all H (hm_iter H (extra_headers opts)) (headers base)\<rparr>"
    by (simp add: build_request_def)
  then show ?thesis
    by (simp add: overrides_def get_all_insert_all get_all_iter [of "extra_headers opts"])
qed

lemma header_last_wins:
  "get_all (extra_headers (build (set_header H n v (set_header H n v' b)))) n = [v]"
  by (simp add: builder_defs get_all_insert)

end

section \<open>Header maps as association lists\<close>

text \<open>A representation that keeps several values per name: the header operations as lists.\<close>

definition alist_headers :: "(string \<times> string) list header_ops" where
  "alist_headers =
     \<lparr>hm_new = [],
      hm_insert = (\<lambda>h k v. filter (\<lambda>kv. fst kv \<noteq> k) h @ [(k, v)]),
      hm_iter = (\<lambda>h. h)\<rparr>"

lemma values_of_filter_neq:
  "values_of k' (filter (\<lambda>kv. fst kv \<noteq> k) h) = (if k' = k then [] else values_of k' h)"
  by (induction h) auto

interpretation alist: header_map alist_headers "\<lambda>h k. values_of k h"
  by unfold_locales (auto simp: alist_headers_def values_of_filter_neq)

end
