(* ===== verification/Client.thy ===== *)
theory Client
  imports Dispatch Handshake Configs
begin

text \<open>
  The public handles (\<open>src/lib.rs\<close>, \<open>src/split.rs\<close>): \<open>Socketeer\<close> and its two halves, connecting,
  reconnecting, closing, splitting and reuniting, and the typed operations over the codec.

  Connections live in a list, a connection's position being its address: the channel ends, the join
  handle and the \<open>Arc\<close> of the terminal error that a handle owns are such addresses, so that
  \<open>Arc::ptr_eq\<close> compares addresses. \<open>connect_async\<close>, URL parsing and request construction are code of
  other crates and are parameters.
\<close>

section \<open>Handles\<close>

record ('tx, 'rx, 'hd, 'h) socketeer =
  sk_url :: url
  sk_options :: "'h connect_options"
  sk_codec :: "('tx, 'rx) codec"
  sk_handler :: 'hd
  sk_receiver :: nat
  sk_sender :: nat
  sk_socket_handle :: nat
  sk_terminal_error :: nat

record ('tx, 'rx) socketeer_tx =
  tx_sender :: nat
  tx_codec :: "('tx, 'rx) codec"
  tx_terminal_error :: nat

record ('tx, 'rx, 'hd, 'h) socketeer_rx =
  rx_receiver :: nat
  rx_codec :: "('tx, 'rx) codec"
  rx_terminal_error :: nat
  rx_socket_handle :: nat
  rx_url :: url
  rx_options :: "'h connect_options"
  rx_handler :: 'hd

record ('tx, 'rx, 'hd, 'h) reunite_error =
  re_tx :: "('tx, 'rx) socketeer_tx"
  re_rx :: "('tx, 'rx, 'hd, 'h) socketeer_rx"

text \<open>The \<open>Clone\<close> of the codec type is the user's, a parameter of \<open>split\<close> and of cloning a send half.\<close>

definition split ::
  "(('tx, 'rx) codec \<Rightarrow> ('tx, 'rx) codec) \<Rightarrow> ('tx, 'rx, 'hd, 'h) socketeer
    \<Rightarrow> ('tx, 'rx) socketeer_tx \<times> ('tx, 'rx, 'hd, 'h) socketeer_rx" where
  "split clone sk =
     (\<lparr>tx_sender = sk_sender sk, tx_codec = clone (sk_codec sk),
       tx_terminal_error = sk_terminal_error sk\<rparr>,
      \<lparr>rx_receiver = sk_receiver sk, rx_codec = sk_codec sk,
       rx_terminal_error = sk_terminal_error sk, rx_socket_handle = sk_socket_handle sk,
       rx_url = sk_url sk, rx_options = sk_options sk, rx_handler = sk_handler sk\<rparr>)"

definition clone_tx ::
  "(('tx, 'rx) codec \<Rightarrow> ('tx, 'rx) codec) \<Rightarrow> ('tx, 'rx) socketeer_tx \<Rightarrow> ('tx, 'rx) socketeer_tx" where
  "clone_tx clone tx =
     \<lparr>tx_sender = tx_sender tx, tx_codec = clone (tx_codec tx), tx_terminal_error = tx_terminal_error tx\<rparr>"

definition from_parts ::
  "url \<Rightarrow> 'h connect_options \<Rightarrow> ('tx, 'rx) codec \<Rightarrow> 'hd \<Rightarrow> nat \<Rightarrow> nat \<Rightarrow> nat \<Rightarrow> nat
    \<Rightarrow> ('tx, 'rx, 'hd, 'h) socketeer" where
  "from_parts u opts C hdl receiver sender socket_handle terr =
     \<lparr>sk_url = u, sk_options = opts, sk_codec = C, sk_handler = hdl, sk_receiver = receiver,
      sk_sender = sender, sk_socket_handle = socket_handle, sk_terminal_error = terr\<rparr>"

definition reunite ::
  "('tx, 'rx, 'hd, 'h) socketeer_rx \<Rightarrow> ('tx, 'rx) socketeer_tx
    \<Rightarrow> (('tx, 'rx, 'hd, 'h) socketeer, ('tx, 'rx, 'hd, 'h) reunite_error) result" where
  "reunite rx tx =
     (if rx_terminal_error rx = tx_terminal_error tx
      then Ok (from_parts (rx_url rx) (rx_options rx) (rx_codec rx) (rx_handler rx)
                 (rx_receiver rx) (tx_sender tx) (rx_socket_handle rx) (rx_terminal_error rx))
      else Err \<lparr>re_tx = tx, re_rx = rx\<rparr>)"

definition reunite_error_display :: "('tx, 'rx, 'hd, 'h) reunite_error \<Rightarrow> string" where
  "reunite_error_display e = ''tried to reunite a SocketeerTx and SocketeerRx from different connections''"

section \<open>Typed operations\<close>

text \<open>
  The operations of the handle and of the halves are the raw ones around the codec. A send whose
  value cannot be encoded is over before anything is queued.
\<close>

definition next_raw_message ::
  "('t, 'r, 'o, 'w) runtime \<Rightarrow> ('t, 'r, 'o, 'w) conn
    \<Rightarrow> (('t, 'r, 'o, 'w) conn \<times> (message, error) result) poll" where
  "next_raw_message R c = recv_raw R c"

definition next_message ::
  "('t, 'r, 'o, 'w) runtime \<Rightarrow> ('tx, 'rx) codec \<Rightarrow> ('t, 'r, 'o, 'w) conn
    \<Rightarrow> (('t, 'r, 'o, 'w) conn \<times> ('rx, error) result) poll" where
  "next_message R C c = map_poll (map_prod id (\<lambda>r. and_then r (decode C))) (recv_raw R c)"

definition poll_next ::
  "('t, 'r, 'o, 'w) runtime \<Rightarrow> ('tx, 'rx) codec \<Rightarrow> ('t, 'r, 'o, 'w) conn
    \<Rightarrow> (('t, 'r, 'o, 'w) conn \<times> ('rx, error) result option) poll" where
  "poll_next R C c =
     map_poll (map_prod id (map_option (\<lambda>r. and_then r (decode C)))) (poll_recv_raw R c)"

definition send_raw ::
  "('t, 'r, 'o, 'w) runtime \<Rightarrow> nat \<Rightarrow> message \<Rightarrow> ('t, 'r, 'o, 'w) conn
    \<Rightarrow> (('t, 'r, 'o, 'w) conn \<times> reply option) poll" where
  "send_raw R i m c = send_confirmed R i m c"

definition send ::
  "('t, 'r, 'o, 'w) runtime \<Rightarrow> ('tx, 'rx) codec \<Rightarrow> nat \<Rightarrow> 'tx \<Rightarrow> ('t, 'r, 'o, 'w) conn
    \<Rightarrow> (('t, 'r, 'o, 'w) conn \<times> reply option) poll" where
  "send R C i v c =
     (case encode C v of
        Inl e \<Rightarrow> Ready (c, Some (Err e))
      | Inr encoded \<Rightarrow> send_raw R i encoded c)"

definition tx_send_raw_unconfirmed ::
  "('t, 'r, 'o, 'w) runtime \<Rightarrow> message \<Rightarrow> ('t, 'r, 'o, 'w) conn
    \<Rightarrow> (('t, 'r, 'o, 'w) conn \<times> reply) poll" where
  "tx_send_raw_unconfirmed R m c = send_unconfirmed R m c"

definition tx_send_unconfirmed ::
  "('t, 'r, 'o, 'w) runtime \<Rightarrow> ('tx, 'rx) codec \<Rightarrow> 'tx \<Rightarrow> ('t, 'r, 'o, 'w) conn
    \<Rightarrow> (('t, 'r, 'o, 'w) conn \<times> reply) poll" where
  "tx_send_unconfirmed R C v c =
     (case encode C v of
        Inl e \<Rightarrow> Ready (c, Err e)
      | Inr encoded \<Rightarrow> tx_send_raw_unconfirmed R encoded c)"

text \<open>The same operations of the two halves.\<close>

definition tx_send_raw ::
  "('t, 'r, 'o, 'w) runtime \<Rightarrow> nat \<Rightarrow> message \<Rightarrow> ('t, 'r, 'o, 'w) conn
    \<Rightarrow> (('t, 'r, 'o, 'w) conn \<times> reply option) poll" where
  "tx_send_raw R i m c = send_confirmed R i m c"

definition tx_send ::
  "('t, 'r, 'o, 'w) runtime \<Rightarrow> ('tx, 'rx) codec \<Rightarrow> nat \<Rightarrow> 'tx \<Rightarrow> ('t, 'r, 'o, 'w) conn
    \<Rightarrow> (('t, 'r, 'o, 'w) conn \<times> reply option) poll" where
  "tx_send R C i v c =
     (case encode C v of
        Inl e \<Rightarrow> Ready (c, Some (Err e))
      | Inr encoded \<Rightarrow> tx_send_raw R i encoded c)"

definition tx_close ::
  "('t, 'r, 'o, 'w) runtime \<Rightarrow> nat \<Rightarrow> ('t, 'r, 'o, 'w) conn
    \<Rightarrow> (('t, 'r, 'o, 'w) conn \<times> reply option) poll" where
  "tx_close R i c = send_close R i c"

definition rx_next_message ::
  "('t, 'r, 'o, 'w) runtime \<Rightarrow> ('tx, 'rx) codec \<Rightarrow> ('t, 'r, 'o, 'w) conn
    \<Rightarrow> (('t, 'r, 'o, 'w) conn \<times> ('rx, error) result) poll" where
  "rx_next_message R C c = map_poll (map_prod id (\<lambda>r. and_then r (decode C))) (recv_raw R c)"

definition rx_next_raw_message ::
  "('t, 'r, 'o, 'w) runtime \<Rightarrow> ('t, 'r, 'o, 'w) conn
    \<Rightarrow> (('t, 'r, 'o, 'w) conn \<times> (message, error) result) poll" where
  "rx_next_raw_message R c = recv_raw R c"

definition rx_poll_next ::
  "('t, 'r, 'o, 'w) runtime \<Rightarrow> ('tx, 'rx) codec \<Rightarrow> ('t, 'r, 'o, 'w) conn
    \<Rightarrow> (('t, 'r, 'o, 'w) conn \<times> ('rx, error) result option) poll" where
  "rx_poll_next R C c =
     map_poll (map_prod id (map_option (\<lambda>r. and_then r (decode C)))) (poll_recv_raw R c)"

section \<open>Connecting\<close>

record ('h, 'n, 'w) connector =
  url_parse :: "string \<Rightarrow> (url, url_parse_error) result"
  into_client_request :: "string \<Rightarrow> ('h request, ws_error) result"
  connect_async :: "'n \<Rightarrow> 'h request \<Rightarrow> 'n \<times> ('w, ws_error) result"

type_synonym ('t, 'r, 'o, 'w) store = "(loop_config \<times> ('t, 'r, 'o, 'w) sys) list"

text \<open>
  How connecting ends: not at all (the handler waits forever), with an error, with the panic of
  creating a channel of capacity zero (or of an earlier step), or with a handle.
\<close>

datatype 'a connect_outcome = Unfinished | Refused error | Panics | Established 'a

text \<open>The keepalive parameters of the spawned loop.\<close>

definition config_of :: "'h connect_options \<Rightarrow> loop_config" where
  "config_of opts =
     \<lparr>cfg_interval = keepalive_interval opts, cfg_message = custom_keepalive_message opts\<rparr>"

definition spawn_connection ::
  "('t, 'r, 'o, 'w) runtime \<Rightarrow> nat \<Rightarrow> url \<Rightarrow> 'h connect_options \<Rightarrow> ('tx, 'rx) codec \<Rightarrow> 'hd \<Rightarrow> 'w
    \<Rightarrow> ('t, 'r, 'o, 'w) store \<Rightarrow> ('t, 'r, 'o, 'w) store \<times> ('tx, 'rx, 'hd, 'h) socketeer connect_outcome" where
  "spawn_connection R channel_size u opts C hdl w store =
     (case init_sys R channel_size w of
        None \<Rightarrow> (store, Panics)
      | Some s \<Rightarrow>
          (let a = length store
           in (store @ [(config_of opts, s)],
               Established \<lparr>sk_url = u, sk_options = opts, sk_codec = C, sk_handler = hdl, sk_receiver = a,
                            sk_sender = a, sk_socket_handle = a, sk_terminal_error = a\<rparr>)))"

definition run_handshake ::
  "('t, 'r, 'o, 'w) runtime \<Rightarrow> ('tx, 'rx, 'w, 'hd) connection_handler \<Rightarrow> nat \<Rightarrow> url \<Rightarrow> 'h connect_options
    \<Rightarrow> ('tx, 'rx) codec \<Rightarrow> 'hd \<Rightarrow> 'w
    \<Rightarrow> ('t, 'r, 'o, 'w) store \<Rightarrow> ('t, 'r, 'o, 'w) store \<times> ('tx, 'rx, 'hd, 'h) socketeer connect_outcome" where
  "run_handshake R P channel_size u opts C hdl w store =
     (case on_connected P hdl (new_context (ws_ops R) w C) of
        None \<Rightarrow> (store, Unfinished)
      | Some (hdl', ctx, Inl e) \<Rightarrow> (store, Refused e)
      | Some (hdl', ctx, Inr _) \<Rightarrow> spawn_connection R channel_size u opts C hdl' (hs_socket ctx) store)"

definition connect_with_codec ::
  "('h, 'n, 'w) connector \<Rightarrow> 'h header_ops \<Rightarrow> ('t, 'r, 'o, 'w) runtime
    \<Rightarrow> ('tx, 'rx, 'w, 'hd) connection_handler \<Rightarrow> nat
    \<Rightarrow> string \<Rightarrow> 'h connect_options \<Rightarrow> ('tx, 'rx) codec \<Rightarrow> 'hd
    \<Rightarrow> 'n \<Rightarrow> ('t, 'r, 'o, 'w) store
    \<Rightarrow> 'n \<times> ('t, 'r, 'o, 'w) store \<times> ('tx, 'rx, 'hd, 'h) socketeer connect_outcome" where
  "connect_with_codec N H R P channel_size u_str opts C hdl net store =
     (case url_parse N u_str of
        Inl source \<Rightarrow> (net, store, Refused (UrlParse u_str source))
      | Inr u \<Rightarrow>
          (case build_request H (into_client_request N) opts u of
             Inl e \<Rightarrow> (net, store, Refused e)
           | Inr rq \<Rightarrow>
               (case connect_async N net rq of
                  (net', Inl e) \<Rightarrow> (net', store, Refused (error_from e))
                | (net', Inr w) \<Rightarrow> (net', run_handshake R P channel_size u opts C hdl w store))))"

definition connect_with ::
  "('h, 'n, 'w) connector \<Rightarrow> 'h header_ops \<Rightarrow> ('t, 'r, 'o, 'w) runtime \<Rightarrow> ('tx, 'rx) codec \<Rightarrow> nat
    \<Rightarrow> string \<Rightarrow> 'h connect_options \<Rightarrow> 'n \<Rightarrow> ('t, 'r, 'o, 'w) store
    \<Rightarrow> 'n \<times> ('t, 'r, 'o, 'w) store \<times> ('tx, 'rx, unit, 'h) socketeer connect_outcome" where
  "connect_with N H R default_codec channel_size u_str opts net store =
     connect_with_codec N H R noop_handler channel_size u_str opts default_codec () net store"

definition connect ::
  "('h, 'n, 'w) connector \<Rightarrow> 'h header_ops \<Rightarrow> ('t, 'r, 'o, 'w) runtime \<Rightarrow> ('tx, 'rx) codec \<Rightarrow> nat
    \<Rightarrow> string \<Rightarrow> 'n \<Rightarrow> ('t, 'r, 'o, 'w) store
    \<Rightarrow> 'n \<times> ('t, 'r, 'o, 'w) store \<times> ('tx, 'rx, unit, 'h) socketeer connect_outcome" where
  "connect N H R default_codec channel_size u_str net store =
     connect_with N H R default_codec channel_size u_str (connect_options_default H) net store"

text \<open>
  \<open>reconnect\<close>, given how its \<open>send_close\<close> on the old connection ended: whatever that returned is
  ignored, but a panic in it unwinds.
\<close>

definition reconnect ::
  "('h, 'n, 'w) connector \<Rightarrow> 'h header_ops \<Rightarrow> ('t, 'r, 'o, 'w) runtime
    \<Rightarrow> ('tx, 'rx, 'w, 'hd) connection_handler \<Rightarrow> nat \<Rightarrow> call_outcome
    \<Rightarrow> ('tx, 'rx, 'hd, 'h) socketeer \<Rightarrow> 'n \<Rightarrow> ('t, 'r, 'o, 'w) store
    \<Rightarrow> 'n \<times> ('t, 'r, 'o, 'w) store \<times> ('tx, 'rx, 'hd, 'h) socketeer connect_outcome" where
  "reconnect N H R P channel_size close_sent sk net store =
     (let u_str = as_str (sk_url sk);
          hdl = on_disconnected P (sk_handler sk)
      in case close_sent of
           Panicked \<Rightarrow> (net, store, Panics)
         | Returned _ \<Rightarrow>
             connect_with_codec N H R P channel_size u_str (sk_options sk) (sk_codec sk) hdl net store)"

section \<open>Closing\<close>

text \<open>
  \<open>close_connection\<close> polled after its \<open>send_close\<close>, the call \<open>i\<close>, was started: it waits for the answer
  and then for the end of the task, takes the terminal error, and prefers it to the answer. A task
  that panicked would be its own panic.
\<close>

definition close_connection ::
  "nat \<Rightarrow> ('t, 'r, 'o, 'w) sys \<Rightarrow> (('t, 'r, 'o, 'w) sys \<times> call_outcome) poll" where
  "close_connection i s =
     (case calls s i of
        Done (Returned close_sent) \<Rightarrow>
          (case task s of
             Finished _ \<Rightarrow>
               (let (c, terminal) = take_terminal_error_opt (conn s)
                in Ready (s\<lparr>conn := c, taken := taken s @ drain (conn s)\<rparr>,
                          Returned (case terminal of Some e \<Rightarrow> Err e | None \<Rightarrow> close_sent)))
           | Crashed \<Rightarrow> Ready (s, Panicked)
           | _ \<Rightarrow> Pending)
      | Done Panicked \<Rightarrow> Ready (s, Panicked)
      | _ \<Rightarrow> Pending)"

end
