(* ===== verification/Client_Spec.thy ===== *)
theory Client_Spec
  imports Client
begin

text \<open>
  What the public handles promise: splitting and reuniting, connecting and reconnecting, closing,
  and the typed stream of messages.
\<close>

section \<open>Splitting and reuniting\<close>

text \<open>
  Splitting a handle and reuniting its halves gives the handle back, also through any clone of
  the send half; and a send half of another connection is refused with both halves returned as they
  were.
\<close>

theorem split_reunite:
  "reunite (snd (split clone sk)) (fst (split clone sk)) = Ok sk
   \<and> reunite (snd (split clone sk)) (clone_tx clone' (fst (split clone sk))) = Ok sk
   \<and> (sk_terminal_error sk' \<noteq> sk_terminal_error sk \<longrightarrow>
        reunite (snd (split clone sk)) (fst (split clone' sk'))
          = Err \<lparr>re_tx = fst (split clone' sk'), re_rx = snd (split clone sk)\<rparr>)"
  by (simp add: split_def reunite_def clone_tx_def from_parts_def)

definition demo_handle :: "nat \<Rightarrow> (message, message, unit, unit) socketeer" where
  "demo_handle a =
     \<lparr>sk_url = Url ''ws://h/'',
      sk_options = \<lparr>extra_headers = (), keepalive_interval = None, custom_keepalive_message = None\<rparr>,
      sk_codec = raw_codec, sk_handler = (), sk_receiver = a, sk_sender = a, sk_socket_handle = a,
      sk_terminal_error = a\<rparr>"

lemma split_reunite_witness:
  "sk_terminal_error (demo_handle 1) \<noteq> sk_terminal_error (demo_handle 0)
   \<and> reunite (snd (split id (demo_handle 0))) (fst (split id (demo_handle 1)))
       = Err \<lparr>re_tx = fst (split id (demo_handle 1)), re_rx = snd (split id (demo_handle 0))\<rparr>"
proof -
  have "sk_terminal_error (demo_handle 1) \<noteq> sk_terminal_error (demo_handle 0)" by (simp add: demo_handle_def)
  with split_reunite [of id "demo_handle 0" id "demo_handle 1"] show ?thesis by simp
qed

section \<open>Connecting\<close>

lemma connect_cases:
  assumes "connect_with_codec N H R P n u_str opts C hdl net store = (net', store', r)"
  obtains (refused) e where "r = Refused e" "store' = store"
  | (unfinished) "r = Unfinished" "store' = store"
  | (panics) "r = Panics" "store' = store"
  | (established) u rq w hdl' ctx s where
      "url_parse N u_str = Ok u" "build_request H (into_client_request N) opts u = Ok rq"
      "connect_async N net rq = (net', Ok w)"
      "on_connected P hdl (new_context (ws_ops R) w C) = Some (hdl', ctx, Ok ())"
      "init_sys R n (hs_socket ctx) = Some s" "store' = store @ [(config_of opts, s)]"
      "r = Established \<lparr>sk_url = u, sk_options = opts, sk_codec = C, sk_handler = hdl',
             sk_receiver = length store, sk_sender = length store, sk_socket_handle = length store,
             sk_terminal_error = length store\<rparr>"
  using assms
  by (auto simp: connect_with_codec_def run_handshake_def spawn_connection_def Let_def
      split: sum.splits prod.splits option.splits)

lemma init_sys_reachable: "init_sys R n w = Some s \<Longrightarrow> reachable R cfg n s"
  by (rule reachable.start)

text \<open>
  C29. A handle exists only for a connection that was set up in full: the URL parsed, the request
  carries each extra header's last value and otherwise what the crate generated, the socket was
  opened with that request, the handler's \<open>on_connected\<close> succeeded on it, and exactly one new
  connection is running, on the socket the handler left, with the keepalive of the options. In every
  other case no connection is added.
\<close>

theorem connect_sets_up:
  assumes "header_map H get_all"
    and "connect_with_codec N H R P n u_str opts C hdl net store = (net', store', r)"
  shows "(store' = store \<and> (\<forall>sk. r \<noteq> Established sk))
    \<or> (\<exists>u base rq w hdl' ctx s sk.
         url_parse N u_str = Ok u \<and> into_client_request N (as_str u) = Ok base
         \<and> overrides get_all (extra_headers opts) (headers base) (headers rq)
         \<and> connect_async N net rq = (net', Ok w)
         \<and> on_connected P hdl (new_context (ws_ops R) w C) = Some (hdl', ctx, Ok ())
         \<and> init_sys R n (hs_socket ctx) = Some s \<and> store' = store @ [(config_of opts, s)]
         \<and> r = Established sk \<and> sk_terminal_error sk = length store
         \<and> sk_url sk = u \<and> sk_options sk = opts \<and> sk_codec sk = C \<and> sk_handler sk = hdl')"
  using assms(2)
proof (cases rule: connect_cases)
  case (established u rq w hdl' ctx s)
  then obtain base where base: "into_client_request N (as_str u) = Ok base"
    by (cases "into_client_request N (as_str u)") (auto simp: build_request_def)
  from header_map.build_request_overrides [OF assms(1) base established(2)] established base
  show ?thesis by (intro disjI2) auto
qed auto

text \<open>A concrete environment: a parser that accepts \<open>ws:\<close> URLs, and a server with one data frame.\<close>

definition demo_connector :: "((string \<times> string) list, nat, script) connector" where
  "demo_connector =
     \<lparr>url_parse = (\<lambda>s. if take 3 s = ''ws:'' then Ok (Url s) else Err (UrlParseError ''relative URL'')),
      into_client_request = (\<lambda>s. Ok \<lparr>request_head = s, headers = [(''host'', ''h'')]\<rparr>),
      connect_async = (\<lambda>k rq. (Suc k, Ok \<lparr>inbox = [Some (Ok (Text ''hello''))], outcomes = []\<rparr>))\<rparr>"

definition demo_connect ::
  "nat \<times> (payload chan, message chan, reply slot, script) store
     \<times> (message, message, unit, (string \<times> string) list) socketeer connect_outcome" where
  "demo_connect =
     connect_with_codec demo_connector alist_headers (reference_runtime scripted) noop_handler 4
       ''ws://h/'' (connect_options_default alist_headers) raw_codec () 0 []"

lemmas connect_defs = connect_with_codec_def run_handshake_def spawn_connection_def build_request_def
  noop_handler_def default_on_connected_def new_context_def init_sys_def init_conn_def chan_new_def

lemma demo_connect_established:
  "\<exists>net' store' sk. demo_connect = (net', store', Established sk) \<and> length store' = 1"
  by (simp add: demo_connect_def demo_connector_def connect_defs Let_def insert_all_def
      connect_options_default_def alist_headers_def)

lemma connect_sets_up_witness:
  "\<exists>net' store' sk s. demo_connect = (net', store', Established sk)
     \<and> store' = [(config_of (connect_options_default alist_headers), s)] \<and> sk_terminal_error sk = 0"
proof -
  obtain net' store' sk where c: "demo_connect = (net', store', Established sk)"
    using demo_connect_established by blast
  from connect_sets_up [OF alist.header_map_axioms c [unfolded demo_connect_def]] c
  show ?thesis by auto
qed

text \<open>
  C30. \<open>reconnect\<close> gives a fresh connection with the same URL, options and codec, whatever the
  close of the old connection returned, and its halves cannot be mixed with those of the old one.
  (The \<open>url\<close> crate documents that a URL's serialisation parses to the same URL.)
\<close>

theorem reconnect_fresh:
  assumes "url_parse N (as_str (sk_url sk)) = Ok (sk_url sk)" and "sk_terminal_error sk < length store"
    and "reconnect N H R P n (Returned close_sent) sk net store = (net', store', Established sk')"
  shows "sk_url sk' = sk_url sk \<and> sk_options sk' = sk_options sk \<and> sk_codec sk' = sk_codec sk
    \<and> (\<exists>s. store' = store @ [(config_of (sk_options sk), s)] \<and> reachable R (config_of (sk_options sk)) n s)
    \<and> reunite (snd (split clone sk')) (fst (split clone sk))
        = Err \<lparr>re_tx = fst (split clone sk), re_rx = snd (split clone sk')\<rparr>
    \<and> (\<forall>other. reconnect N H R P n (Returned other) sk net store = (net', store', Established sk'))"
proof -
  have same: "reconnect N H R P n (Returned other) sk net store = reconnect N H R P n (Returned close_sent) sk net store"
    for other by (simp add: reconnect_def Let_def)
  from assms(3) have "connect_with_codec N H R P n (as_str (sk_url sk)) (sk_options sk) (sk_codec sk)
      (on_disconnected P (sk_handler sk)) net store = (net', store', Established sk')"
    by (simp add: reconnect_def Let_def)
  then show ?thesis
  proof (cases rule: connect_cases)
    case (established u rq w hdl' ctx s)
    with assms init_sys_reachable [OF established(5)] same show ?thesis
      by (auto simp: split_def reunite_def)
  qed auto
qed

lemma reconnect_fresh_witness:
  "\<exists>net store sk net' store' sk'. demo_connect = (net, store, Established sk)
     \<and> reconnect demo_connector alist_headers (reference_runtime scripted) noop_handler 4
          (Returned (Err WebsocketClosed)) sk net store = (net', store', Established sk')
     \<and> sk_url sk' = sk_url sk \<and> sk_terminal_error sk' \<noteq> sk_terminal_error sk"
proof -
  let ?re = "reconnect demo_connector alist_headers (reference_runtime scripted) noop_handler 4 (Returned (Err WebsocketClosed))"
  obtain net store sk net' store' sk' where c: "demo_connect = (net, store, Established sk)"
    "?re sk net store = (net', store', Established sk')"
    "sk_url sk = Url ''ws://h/''" "sk_terminal_error sk < length store"
    by (simp add: demo_connect_def demo_connector_def connect_defs Let_def insert_all_def
        connect_options_default_def alist_headers_def reconnect_def)
  then have "url_parse demo_connector (as_str (sk_url sk)) = Ok (sk_url sk)"
    by (simp add: demo_connector_def)
  from reconnect_fresh [OF this c(4,2), of id] c(1,2)
  have "sk_url sk' = sk_url sk" "reunite (snd (split id sk')) (fst (split id sk)) \<noteq> Ok sk'" by simp_all
  moreover from this(2) have "sk_terminal_error sk' \<noteq> sk_terminal_error sk"
    using c by (auto simp: demo_connect_def demo_connector_def connect_defs Let_def insert_all_def
        connect_options_default_def alist_headers_def reconnect_def)
  ultimately show ?thesis using c(1,2) by blast
qed

section \<open>Typed sends and the typed stream\<close>

lemma send_confirmed_reference:
  assumes "send_confirmed (reference R) i m v = Ready (v', r)"
  shows "if rx_alive (tx_chan v)
     then r = None \<and> buf (tx_chan v') = buf (tx_chan v) @ [\<lparr>payload_message = m, response_tx = Some i\<rparr>]
     else r = Some (Err (case terminal_error v of Some e \<Rightarrow> e | None \<Rightarrow> WebsocketClosed))
       \<and> tx_chan v' = tx_chan v \<and> terminal_error v' = None"
  using assms
  by (auto simp: send_confirmed_def chan_send_def take_terminal_error_def take_terminal_error_opt_def Let_def
      split: if_splits)

text \<open>
  A typed send either fails to encode and then touches nothing, or queues exactly one message,
  which the same codec decodes to the value sent, or finds the connection closed, queues nothing and
  reports the recorded cause (\<open>WebsocketClosed\<close> if there is none left).
\<close>

theorem send_queues_value:
  assumes "tokio R vt vr vo" and "lossless_codec C" and "send R C i v c = Ready (c', r)"
  shows "(\<exists>e. encode C v = Err e \<and> c' = c \<and> r = Some (Err e))
    \<or> (\<exists>m. encode C v = Ok m \<and> decode C m = Ok v
         \<and> (if rx_alive (vt (tx_chan c))
            then r = None \<and> buf (vt (tx_chan c')) = buf (vt (tx_chan c)) @ [\<lparr>payload_message = m, response_tx = Some i\<rparr>]
            else r = Some (Err (case terminal_error c of Some e \<Rightarrow> e | None \<Rightarrow> WebsocketClosed))
              \<and> vt (tx_chan c') = vt (tx_chan c) \<and> terminal_error c' = None))"
proof (cases "encode C v")
  case (Inl e)
  with assms(3) show ?thesis by (simp add: send_def)
next
  case (Inr m)
  with assms(3) have "send_confirmed R i m c = Ready (c', r)"
    by (simp add: send_def send_raw_def)
  from send_confirmed_reference [OF tokio.view_send_confirmed [OF assms(1) this]] Inr
    lossless_codec.decode_encode [OF assms(2) Inr]
  show ?thesis by (simp split: if_splits)
qed

lemma send_queues_value_witness:
  "\<exists>s c'. demo no_keepalive 1 [] [] [] = Some s
     \<and> send (logged_runtime (reference_runtime scripted)) raw_codec 0 (Text ''a'') (conn s) = Ready (c', None)
     \<and> buf (tx_chan c') = [\<lparr>payload_message = Text ''a'', response_tx = Some 0\<rparr>]"
proof -
  obtain s c' where s: "demo no_keepalive 1 [] [] [] = Some s"
    "send (logged_runtime (reference_runtime scripted)) raw_codec 0 (Text ''a'') (conn s) = Ready (c', None)"
    "buf (tx_chan (conn s)) = []"
    by (simp add: eval_simps send_def send_raw_def raw_codec_def raw_encode_def)
  have "encode raw_codec (Text ''a'') = Ok (Text ''a'')" by (simp add: raw_codec_def raw_encode_def)
  with send_queues_value [OF tokio.tokio_logged [OF reference_runtime_tokio] raw.lossless_codec_axioms s(2)] s
  show ?thesis by (auto split: if_splits)
qed

context tokio
begin

lemma poll_ended:
  assumes "buf (vr (rx_chan c)) = []" and "senders (vr (rx_chan c)) = 0"
  shows "\<exists>c1. poll_recv_raw R c = Ready (c1, map_option Err (terminal_error c))
      \<and> vr (rx_chan c1) = vr (rx_chan c) \<and> terminal_error c1 = None"
  using rx.recv_ended [OF assms]
  by (auto simp: poll_recv_raw_def take_terminal_error_opt_def split: option.split)

end

text \<open>
  The stream ends like a stream: once the connection is gone and everything has been consumed,
  the next poll gives the recorded cause as an error, if there is one left, and every poll after that
  the end of the stream.
\<close>

theorem stream_ends_once:
  assumes "tokio R vt vr vo" and "buf (vr (rx_chan c)) = []" and "senders (vr (rx_chan c)) = 0"
  shows "\<exists>c1 c2. poll_next R C c = Ready (c1, map_option Err (terminal_error c))
      \<and> poll_next R C c1 = Ready (c2, None)
      \<and> vr (rx_chan c2) = vr (rx_chan c) \<and> terminal_error c2 = None"
proof -
  obtain c1 where c1: "poll_recv_raw R c = Ready (c1, map_option Err (terminal_error c))"
    "vr (rx_chan c1) = vr (rx_chan c)" "terminal_error c1 = None"
    using tokio.poll_ended [OF assms] by blast
  with assms(2,3) obtain c2 where "poll_recv_raw R c1 = Ready (c2, None)"
    "vr (rx_chan c2) = vr (rx_chan c1)" "terminal_error c2 = None"
    using tokio.poll_ended [OF assms(1), of c1] by auto
  with c1 show ?thesis by (auto simp: poll_next_def option.map_comp comp_def)
qed

lemma stream_ends_once_witness:
  "\<exists>s c1 c2. demo no_keepalive 1 [Some (Err (WsError ''reset''))] [] [Loop NextArm, Work, Exit, Exit, Exit] = Some s
     \<and> poll_next (logged_runtime (reference_runtime scripted)) raw_codec (conn s)
         = Ready (c1, Some (Err (WebsocketError (WsError ''reset''))))
     \<and> poll_next (logged_runtime (reference_runtime scripted)) raw_codec c1 = Ready (c2, None)"
proof -
  obtain s where s: "demo no_keepalive 1 [Some (Err (WsError ''reset''))] [] [Loop NextArm, Work, Exit, Exit, Exit] = Some s"
    "buf (id (rx_chan (conn s))) = []" "senders (id (rx_chan (conn s))) = 0"
    "terminal_error (conn s) = Some (WebsocketError (WsError ''reset''))"
    by (simp add: eval_simps)
  from stream_ends_once [OF tokio.tokio_logged [OF reference_runtime_tokio [of scripted]] s(2,3), where C = raw_codec] s(1,4)
  show ?thesis by auto
qed

section \<open>Closing\<close>

text \<open>
  C24. What \<open>close_connection\<close> returns, in every reachable state: it waits exactly as long as its close
  frame is unanswered or the loop has not finished; a close frame whose answer never came is the panic;
  otherwise the result is the cause the loop ended with, if it ended with an error that nobody was told
  before, and the answer the close frame got if it did not. It leaves no cause behind.
\<close>

theorem close_prefers_cause:
  assumes "tokio R vt vr vo" and "reachable R cfg n s" and "calls s i = Awaiting \<or> (\<exists>out. calls s i = Done out)"
  shows "case close_connection i s of
      Pending \<Rightarrow> calls s i = Awaiting \<or> (\<exists>close_sent. calls s i = Done (Returned close_sent)) \<and> \<not> finished (task s)
    | Ready (s', Panicked) \<Rightarrow> calls s i = Done Panicked
    | Ready (s', Returned r) \<Rightarrow>
        (\<exists>st close_sent. task s = Finished st \<and> calls s i = Done (Returned close_sent)
           \<and> r = (case st of Error e \<Rightarrow> if taken s = [] then Err e else close_sent | _ \<Rightarrow> close_sent)
           \<and> terminal_error (conn s') = None)"
  using tokio.view_terminal [OF assms(1,2)] assms(3)
  by (auto simp: close_connection_def take_terminal_error_opt_def terminal_inv_def drain_def Let_def
      split: poll.split call.splits call_outcome.splits task.splits loop_state.splits option.splits)

lemma close_prefers_cause_witness:
  "\<exists>s s'. demo no_keepalive 1 [Some (Ok (Close None))] []
        [SendClose 0, Loop RecvArm, Work, Await 0, Loop NextArm, Work, Exit, Exit, Exit] = Some s
     \<and> close_connection 0 s = Ready (s', Returned (Ok ())) \<and> terminal_error (conn s') = None"
proof -
  obtain s s' where s: "demo no_keepalive 1 [Some (Ok (Close None))] []
        [SendClose 0, Loop RecvArm, Work, Await 0, Loop NextArm, Work, Exit, Exit, Exit] = Some s"
    "close_connection 0 s = Ready (s', Returned (Ok ()))" "calls s 0 = Done (Returned (Ok ()))"
    by (simp add: eval_simps close_connection_def)
  from close_prefers_cause [OF reference_runtime_tokio demo_reachable [OF s(1)], of 0] s show ?thesis by auto
qed

text \<open>The steps that need no handle: those of the loop, of the clock and of the network.\<close>

fun background :: "'w action \<Rightarrow> bool" where
  "background (Loop _) = True"
| "background Work = True"
| "background Exit = True"
| "background (Tick _) = True"
| "background (Network _) = True"
| "background _ = False"

text \<open>A handler that is about to send a frame of the loop's own: a keepalive, or the answer to a ping.\<close>

fun own_frame :: "loop_config \<Rightarrow> task \<Rightarrow> message option" where
  "own_frame cfg (Busy (TimerJob h)) = Some (keepalive_frame cfg)"
| "own_frame cfg (Busy (ReadJob (Some (Inr (Ping b))))) = Some (Pong pong_bytes)"
| "own_frame cfg k = None"

text \<open>The loop has left with the given cause.\<close>

definition ended_with :: "error \<Rightarrow> task \<Rightarrow> bool" where
  "ended_with e k \<longleftrightarrow> k = Exited (Error e) \<or> recorded_state k = Some (Error e)"

lemma ended_with_step:
  assumes "ended_with e (task s)" and "background a" and "exec R cfg a s = Some s'"
  shows "ended_with e (task s') \<and> calls s' = calls s \<and> taken s' = taken s"
  using assms
  by (cases a; cases "task s")
    (auto simp: ended_with_def loop_step_def work_step_def exit_step_def record_terminal_def split: option.splits)

lemma ended_with_run:
  assumes "ended_with e (task s)" and "list_all background as" and "run R cfg as s = Some s'"
  shows "ended_with e (task s') \<and> calls s' = calls s \<and> taken s' = taken s"
  using assms
proof (induction as arbitrary: s)
  case (Cons a as)
  then obtain t where t: "exec R cfg a s = Some t" "run R cfg as t = Some s'" by (auto split: option.splits)
  from ended_with_step [OF Cons.prems(1) _ t(1)] Cons.prems(2) Cons.IH [OF _ _ t(2)] show ?case by auto
qed simp

context tokio
begin

lemma own_frame_refused:
  assumes "own_frame cfg (task s) = Some m" and "ws_send (ws_ops R) (fst (ws (conn s))) m = (w, Err e)"
    and "exec R cfg Work s = Some t"
  shows "task t = Exited (Error (error_from e)) \<and> calls t = calls s \<and> taken t = taken s"
proof -
  from assms(1) obtain j where j: "task s = Busy j" by (cases "task s") auto
  with assms(1,2) have "snd (handler_step (logged_runtime R) cfg j (conn s)) = Exited (Error (error_from e))"
    by (cases "(cfg, task s)" rule: own_frame.cases)
      (auto simp: op_defs resume_case keepalive_frame_def logged_runtime_def logged_def split_beta Let_def)
  with j assms(3) exec_task_fields [OF assms(3)] show ?thesis
    by (auto simp: work_step_def split: prod.splits)
qed

end

text \<open>
  C25. A graceful close can fail although the close frame went out: \<open>tungstenite\<close> refuses to send after
  it has sent a close frame, but until the peer's answer is read the loop still sends its keepalives and
  answers pings. When the socket refuses such a frame, the loop ends with that error, and whatever loop,
  clock and network do then, in any order, \<open>close_connection\<close> returns it as soon as the loop has finished,
  which its own three exit steps bring about, although its close frame was sent without an error.
\<close>

theorem keepalive_fails_close:
  assumes "tokio R vt vr vo" and "reachable R cfg n s" and "calls s i = Done (Returned (Ok ()))"
    and "own_frame cfg (task s) = Some m" and "ws_send (ws_ops R) (fst (ws (conn s))) m = (w, Err e)"
  shows "(\<forall>as s'. list_all background as \<and> run R cfg (Work # as) s = Some s' \<longrightarrow>
        (if finished (task s') then \<exists>s''. close_connection i s' = Ready (s'', Returned (Err (error_from e)))
         else close_connection i s' = Pending))
    \<and> (\<exists>s'. run R cfg [Work, Exit, Exit, Exit] s = Some s' \<and> finished (task s'))"
proof -
  from assms(4) obtain j where j: "task s = Busy j" by (cases "task s") auto
  then obtain t where t: "exec R cfg Work s = Some t" using exec_work_enabled by blast
  note ended = tokio.own_frame_refused [OF assms(1,4,5) t]
  have "taken s = []" using tokio.view_terminal [OF assms(1,2)] j by (simp add: terminal_inv_def drain_def split: option.splits)
  have "if finished (task s') then \<exists>s''. close_connection i s' = Ready (s'', Returned (Err (error_from e)))
         else close_connection i s' = Pending"
    if as: "list_all background as" "run R cfg as t = Some s'" for as s'
  proof -
    from ended_with_run [OF _ as, of "error_from e"] ended
    have s': "ended_with (error_from e) (task s')" "calls s' = calls s" "taken s' = taken s"
      by (auto simp: ended_with_def)
    have "reachable R cfg n s'" using run_reachable [OF reachable.step [OF assms(2) t] as(2)] .
    from tokio.view_terminal [OF assms(1) this] s' \<open>taken s = []\<close> assms(3) show ?thesis
      by (cases "task s'") (auto simp: ended_with_def terminal_inv_def drain_def close_connection_def
          take_terminal_error_opt_def split: option.splits)
  qed
  then have "if finished (task s') then \<exists>s''. close_connection i s' = Ready (s'', Returned (Err (error_from e)))
       else close_connection i s' = Pending"
    if "list_all background as" "run R cfg (Work # as) s = Some s'" for as s'
    using t that by (simp del: exec.simps if_split)
  then have "\<forall>as s'. list_all background as \<and> run R cfg (Work # as) s = Some s' \<longrightarrow>
      (if finished (task s') then \<exists>s''. close_connection i s' = Ready (s'', Returned (Err (error_from e)))
       else close_connection i s' = Pending)"
    by blast
  moreover from exit_enabled [of t "Error (error_from e)" R cfg] ended obtain s' where
    "run R cfg [Exit, Exit, Exit] t = Some s'" "task s' = Finished (Error (error_from e))" by auto
  ultimately show ?thesis using t by (intro conjI) (assumption, simp del: exec.simps)
qed

lemma keepalive_fails_close_witness:
  "\<exists>s s' s''. demo default_keepalive 1 [] [Ok (), Err (WsError ''SendAfterClosing'')]
        [SendClose 0, Loop RecvArm, Work, Await 0, Tick 2000, Loop SleepArm] = Some s
     \<and> run (reference_runtime scripted) default_keepalive [Work, Exit, Exit, Exit] s = Some s'
     \<and> close_connection 0 s' = Ready (s'', Returned (Err (WebsocketError (WsError ''SendAfterClosing''))))"
proof -
  obtain s where s: "demo default_keepalive 1 [] [Ok (), Err (WsError ''SendAfterClosing'')]
        [SendClose 0, Loop RecvArm, Work, Await 0, Tick 2000, Loop SleepArm] = Some s"
    "calls s 0 = Done (Returned (Ok ()))" "own_frame default_keepalive (task s) = Some (Ping [])"
    "ws_send (ws_ops (reference_runtime scripted)) (fst (ws (conn s))) (Ping [])
      = (\<lparr>inbox = [], outcomes = []\<rparr>, Err (WsError ''SendAfterClosing''))"
    by (simp add: eval_simps keepalive_frame_def)
  note fails = keepalive_fails_close [OF reference_runtime_tokio demo_reachable [OF s(1)] s(2-4)]
  from fails obtain s' where s': "run (reference_runtime scripted) default_keepalive [Work, Exit, Exit, Exit] s = Some s'"
    "finished (task s')" by blast
  moreover have "list_all background [Exit, Exit, Exit]" by simp
  ultimately have "\<exists>s''. close_connection 0 s' = Ready (s'', Returned (Err (error_from (WsError ''SendAfterClosing''))))"
    using fails [THEN conjunct1, THEN spec, THEN spec, THEN mp, OF conjI, OF _ s'(1)] by (simp del: run.simps)
  with s(1) s'(1) show ?thesis by (auto simp: error_from_def simp del: run.simps)
qed

text \<open>A loop that holds a frame, with nothing to send, no timer and no room, can do nothing.\<close>

definition parked :: "nat \<Rightarrow> message \<Rightarrow> 'w ref_sys \<Rightarrow> bool" where
  "parked n f s \<longleftrightarrow> task s = Holding f \<and> buf (tx_chan (conn s)) = [] \<and> 0 < tx_handles s
     \<and> rx_handle s \<and> length (buf (rx_chan (conn s))) = n"

context tokio
begin

lemma parked_step:
  assumes "reachable R cfg n s" and "parked n f (view s)" and "cfg_interval cfg = None"
    and "background a" and "exec R cfg a s = Some s'"
  shows "parked n f (view s') \<and> calls s' = calls s"
proof (cases a)
  case (Loop arm)
  have "senders (vt (tx_chan (conn s))) \<noteq> 0" "rx_alive (vr (rx_chan (conn s)))" "\<not> has_room (vr (rx_chan (conn s)))"
    using view_shape [OF assms(1)] assms(2) by (auto simp: shape_inv_def parked_def has_room_def)
  with assms(2,3) have "exec R cfg (Loop arm) s = None"
    by (cases arm) (simp_all add: exec_loop_enabled recv_arm_enabled sleep_arm_enabled reserve_arm_enabled
        parked_def del: exec.simps, simp add: loop_step_def backpressure_arm_def)
  with Loop assms(5) show ?thesis by simp
next
  case Work
  with assms(2,5) show ?thesis by (simp add: parked_def work_step_def)
next
  case Exit
  with assms(2,5) show ?thesis by (simp add: parked_def exit_step_def)
qed (use assms in \<open>auto simp: parked_def conn_view_def\<close>)

lemma parked_run:
  assumes "reachable R cfg n s" and "parked n f (view s)" and "cfg_interval cfg = None"
    and "list_all background as" and "run R cfg as s = Some s'"
  shows "parked n f (view s') \<and> calls s' = calls s"
  using assms(1,2,4,5)
proof (induction as arbitrary: s)
  case (Cons a as)
  then obtain t where t: "exec R cfg a s = Some t" "run R cfg as t = Some s'"
    by (auto split: option.splits)
  from Cons.prems have "background a" "list_all background as" by simp_all
  with parked_step [OF Cons.prems(1,2) assms(3) _ t(1)] Cons.IH [OF reachable.step [OF Cons.prems(1) t(1)] _ _ t(2)]
  show ?case by auto
qed simp

end

text \<open>
  C26. \<open>close_connection\<close> can wait forever: without a keepalive, when the receive channel is full, a
  further frame is held and the close frame has been sent, nothing that the loop, the clock or the
  network may do lets it return, although it holds the only receive half and will not read.
\<close>

theorem close_may_never_return:
  assumes "tokio R vt vr vo" and "reachable R cfg n s" and "cfg_interval cfg = None"
    and "parked n f (sys_view vt vr vo s)" and "calls s i = Done (Returned close_sent)"
    and "list_all background as" and "run R cfg as s = Some s'"
  shows "close_connection i s' = Pending"
  using tokio.parked_run [OF assms(1,2,4,3,6,7)] assms(5)
  by (simp add: parked_def close_connection_def)

lemma close_may_never_return_witness:
  "\<exists>s s'. demo no_keepalive 1 [Some (Ok (Text ''a'')), Some (Ok (Text ''b''))] []
        [Loop NextArm, Work, Loop NextArm, Work, SendClose 0, Loop RecvArm, Work, Await 0] = Some s
     \<and> run (reference_runtime scripted) no_keepalive
         [Tick 60000, Network \<lparr>inbox = [Some (Ok (Close None))], outcomes = []\<rparr>] s = Some s'
     \<and> close_connection 0 s' = Pending"
proof -
  let ?as = "[Tick 60000, Network \<lparr>inbox = [Some (Ok (Close None))], outcomes = []\<rparr>]"
  obtain s s' where s: "demo no_keepalive 1 [Some (Ok (Text ''a'')), Some (Ok (Text ''b''))] []
        [Loop NextArm, Work, Loop NextArm, Work, SendClose 0, Loop RecvArm, Work, Await 0] = Some s"
    "parked 1 (Text ''b'') (sys_view id id id s)" "calls s 0 = Done (Returned (Ok ()))"
    "run (reference_runtime scripted) no_keepalive ?as s = Some s'"
    by (simp add: eval_simps parked_def)
  have "cfg_interval no_keepalive = None" "list_all background ?as" by (simp_all add: no_keepalive_def)
  from close_may_never_return [OF reference_runtime_tokio demo_reachable [OF s(1)] this(1) s(2,3) this(2) s(4)] s
  show ?thesis by blast
qed

end
