(* ===== verification/Handles.thy ===== *)
theory Handles
  imports Client_Spec "HOL-Library.Multiset"
begin

text \<open>
  A program that uses the crate: any number of connections and of handles on them, whole ones, send
  halves and receive halves. A step connects, reconnects, closes, splits, clones, reunites or drops a
  handle, makes a call through one, or is a step of a connection that needs no handle. Handles are owned
  by variables, here positions of a list: what is moved out of a variable is removed. Dropping a handle
  drops the channel ends it owns, which is all that a connection learns of its handles.
\<close>

section \<open>The state of a program\<close>

record ('tx, 'rx, 'hd, 'h, 'n, 't, 'r, 'o, 'w) app =
  net :: 'n
  conns :: "('t, 'r, 'o, 'w) store"
  wholes :: "('tx, 'rx, 'hd, 'h) socketeer list"
  tx_halves :: "('tx, 'rx) socketeer_tx list"
  rx_halves :: "('tx, 'rx, 'hd, 'h) socketeer_rx list"

text \<open>What the program is built on: the other crates, the handler and codec types, \<open>CHANNEL_SIZE\<close>.\<close>

record ('tx, 'rx, 'hd, 'h, 'n, 't, 'r, 'o, 'w) app_env =
  app_connector :: "('h, 'n, 'w) connector"
  app_headers :: "'h header_ops"
  app_runtime :: "('t, 'r, 'o, 'w) runtime"
  app_handler :: "('tx, 'rx, 'w, 'hd) connection_handler"
  app_clone :: "('tx, 'rx) codec \<Rightarrow> ('tx, 'rx) codec"
  channel_size :: nat

definition app_start :: "'n \<Rightarrow> ('tx, 'rx, 'hd, 'h, 'n, 't, 'r, 'o, 'w) app" where
  "app_start k = \<lparr>net = k, conns = [], wholes = [], tx_halves = [], rx_halves = []\<rparr>"

text \<open>Moving out of the variable \<open>i\<close>.\<close>

definition without :: "nat \<Rightarrow> 'a list \<Rightarrow> 'a list" where
  "without i xs = take i xs @ drop (Suc i) xs"

section \<open>Steps\<close>

text \<open>A step of the connection at an address.\<close>

definition at_conn ::
  "('t, 'r, 'o, 'w) runtime \<Rightarrow> nat \<Rightarrow> 'w action \<Rightarrow> ('t, 'r, 'o, 'w) store \<Rightarrow> ('t, 'r, 'o, 'w) store option" where
  "at_conn R a act store =
     (if a < length store
      then map_option (\<lambda>s. store[a := (fst (store ! a), s)]) (exec R (fst (store ! a)) act (snd (store ! a)))
      else None)"

text \<open>The actions of a connection by what they need: nothing, its sender, its receiver.\<close>

fun needs_nothing :: "'w action \<Rightarrow> bool" where
  "needs_nothing (Loop _) = True"
| "needs_nothing Work = True"
| "needs_nothing Exit = True"
| "needs_nothing (Tick _) = True"
| "needs_nothing (Network _) = True"
| "needs_nothing (Await _) = True"
| "needs_nothing (Cancel _) = True"
| "needs_nothing _ = False"

fun confirmed_call :: "'w action \<Rightarrow> bool" where
  "confirmed_call (SendConfirmed _ _) = True"
| "confirmed_call (SendClose _) = True"
| "confirmed_call _ = False"

fun plain_call :: "'w action \<Rightarrow> bool" where
  "plain_call (SendUnconfirmed _) = True"
| "plain_call _ = False"

fun receive_call :: "'w action \<Rightarrow> bool" where
  "receive_call Recv = True"
| "receive_call PollRecv = True"
| "receive_call _ = False"

datatype ('tx, 'rx, 'hd, 'h, 'w) app_action =
    AppConnect string "'h connect_options" "('tx, 'rx) codec" 'hd
  | AppStep nat "'w action"
  | AppWhole nat "'w action"
  | AppTx nat "'w action"
  | AppRx nat "'w action"
  | AppSplit nat
  | AppClone nat
  | AppReunite nat nat
  | AppDropWhole nat
  | AppDropTx nat
  | AppDropRx nat
  | AppReconnect nat call_outcome
  | AppClosed nat nat

text \<open>Dropping a whole handle: its receiver and its sender, in the order of the fields.\<close>

definition drop_whole ::
  "('t, 'r, 'o, 'w) runtime \<Rightarrow> ('tx, 'rx, 'hd, 'h) socketeer \<Rightarrow> ('t, 'r, 'o, 'w) store
    \<Rightarrow> ('t, 'r, 'o, 'w) store option" where
  "drop_whole R sk store =
     (case at_conn R (sk_receiver sk) DropRx store of
        None \<Rightarrow> None
      | Some store' \<Rightarrow> at_conn R (sk_sender sk) DropTx store')"

definition established :: "'a connect_outcome \<Rightarrow> 'a list" where
  "established out = (case out of Established sk \<Rightarrow> [sk] | _ \<Rightarrow> [])"

text \<open>
  \<open>reconnect\<close> and \<open>close_connection\<close> consume the handle; its ends live until they return, or unwind.
  The call of either to \<open>send_close\<close> is a step of its own before.
\<close>

fun app_exec ::
  "('tx, 'rx, 'hd, 'h, 'n, 't, 'r, 'o, 'w) app_env \<Rightarrow> ('tx, 'rx, 'hd, 'h, 'w) app_action
    \<Rightarrow> ('tx, 'rx, 'hd, 'h, 'n, 't, 'r, 'o, 'w) app \<Rightarrow> ('tx, 'rx, 'hd, 'h, 'n, 't, 'r, 'o, 'w) app option" where
  "app_exec A (AppConnect u opts C hdl) s =
     (case connect_with_codec (app_connector A) (app_headers A) (app_runtime A) (app_handler A) (channel_size A)
             u opts C hdl (net s) (conns s) of
        (k, store, out) \<Rightarrow> Some (s\<lparr>net := k, conns := store, wholes := wholes s @ established out\<rparr>))"
| "app_exec A (AppStep a act) s =
     (if needs_nothing act
      then map_option (\<lambda>store. s\<lparr>conns := store\<rparr>) (at_conn (app_runtime A) a act (conns s))
      else None)"
| "app_exec A (AppWhole i act) s =
     (if i < length (wholes s) \<and> (confirmed_call act \<or> receive_call act)
      then map_option (\<lambda>store. s\<lparr>conns := store\<rparr>)
             (at_conn (app_runtime A)
               (if receive_call act then sk_receiver (wholes s ! i) else sk_sender (wholes s ! i)) act (conns s))
      else None)"
| "app_exec A (AppTx i act) s =
     (if i < length (tx_halves s) \<and> (confirmed_call act \<or> plain_call act)
      then map_option (\<lambda>store. s\<lparr>conns := store\<rparr>)
             (at_conn (app_runtime A) (tx_sender (tx_halves s ! i)) act (conns s))
      else None)"
| "app_exec A (AppRx i act) s =
     (if i < length (rx_halves s) \<and> receive_call act
      then map_option (\<lambda>store. s\<lparr>conns := store\<rparr>)
             (at_conn (app_runtime A) (rx_receiver (rx_halves s ! i)) act (conns s))
      else None)"
| "app_exec A (AppSplit i) s =
     (if i < length (wholes s)
      then (case split (app_clone A) (wholes s ! i) of
              (tx, rx) \<Rightarrow> Some (s\<lparr>wholes := without i (wholes s), tx_halves := tx_halves s @ [tx],
                                rx_halves := rx_halves s @ [rx]\<rparr>))
      else None)"
| "app_exec A (AppClone i) s =
     (if i < length (tx_halves s)
      then map_option (\<lambda>store. s\<lparr>conns := store, tx_halves := tx_halves s @ [clone_tx (app_clone A) (tx_halves s ! i)]\<rparr>)
             (at_conn (app_runtime A) (tx_sender (tx_halves s ! i)) CloneTx (conns s))
      else None)"
| "app_exec A (AppReunite j i) s =
     (if j < length (rx_halves s) \<and> i < length (tx_halves s)
      then (case reunite (rx_halves s ! j) (tx_halves s ! i) of
              Inr sk \<Rightarrow> Some (s\<lparr>wholes := wholes s @ [sk], tx_halves := without i (tx_halves s),
                               rx_halves := without j (rx_halves s)\<rparr>)
            | Inl e \<Rightarrow> Some (s\<lparr>tx_halves := without i (tx_halves s) @ [re_tx e],
                              rx_halves := without j (rx_halves s) @ [re_rx e]\<rparr>))
      else None)"
| "app_exec A (AppDropWhole i) s =
     (if i < length (wholes s)
      then map_option (\<lambda>store. s\<lparr>conns := store, wholes := without i (wholes s)\<rparr>)
             (drop_whole (app_runtime A) (wholes s ! i) (conns s))
      else None)"
| "app_exec A (AppDropTx i) s =
     (if i < length (tx_halves s)
      then map_option (\<lambda>store. s\<lparr>conns := store, tx_halves := without i (tx_halves s)\<rparr>)
             (at_conn (app_runtime A) (tx_sender (tx_halves s ! i)) DropTx (conns s))
      else None)"
| "app_exec A (AppDropRx j) s =
     (if j < length (rx_halves s)
      then map_option (\<lambda>store. s\<lparr>conns := store, rx_halves := without j (rx_halves s)\<rparr>)
             (at_conn (app_runtime A) (rx_receiver (rx_halves s ! j)) DropRx (conns s))
      else None)"
| "app_exec A (AppReconnect i close_sent) s =
     (if i < length (wholes s)
      then (case reconnect (app_connector A) (app_headers A) (app_runtime A) (app_handler A) (channel_size A)
                   close_sent (wholes s ! i) (net s) (conns s) of
              (k, store, out) \<Rightarrow>
                map_option (\<lambda>store'. s\<lparr>net := k, conns := store', wholes := without i (wholes s) @ established out\<rparr>)
                  (drop_whole (app_runtime A) (wholes s ! i) store))
      else None)"
| "app_exec A (AppClosed i call) s =
     (if i < length (wholes s) \<and> sk_socket_handle (wholes s ! i) < length (conns s)
      then (let a = sk_socket_handle (wholes s ! i)
            in case close_connection call (snd (conns s ! a)) of
                 Pending \<Rightarrow> None
               | Ready (c, out) \<Rightarrow>
                   map_option (\<lambda>store. s\<lparr>conns := store, wholes := without i (wholes s)\<rparr>)
                     (drop_whole (app_runtime A) (wholes s ! i) ((conns s)[a := (fst (conns s ! a), c)])))
      else None)"

fun app_run ::
  "('tx, 'rx, 'hd, 'h, 'n, 't, 'r, 'o, 'w) app_env \<Rightarrow> ('tx, 'rx, 'hd, 'h, 'w) app_action list
    \<Rightarrow> ('tx, 'rx, 'hd, 'h, 'n, 't, 'r, 'o, 'w) app \<Rightarrow> ('tx, 'rx, 'hd, 'h, 'n, 't, 'r, 'o, 'w) app option" where
  "app_run A [] s = Some s"
| "app_run A (act # acts) s = (case app_exec A act s of None \<Rightarrow> None | Some s' \<Rightarrow> app_run A acts s')"

inductive app_reachable ::
  "('tx, 'rx, 'hd, 'h, 'n, 't, 'r, 'o, 'w) app_env \<Rightarrow> ('tx, 'rx, 'hd, 'h, 'n, 't, 'r, 'o, 'w) app \<Rightarrow> bool" for A where
  start: "app_reachable A (app_start k)"
| step: "app_reachable A s \<Longrightarrow> app_exec A act s = Some s' \<Longrightarrow> app_reachable A s'"

lemma app_run_reachable: "app_reachable A s \<Longrightarrow> app_run A acts s = Some s' \<Longrightarrow> app_reachable A s'"
  by (induction acts arbitrary: s) (auto split: option.splits intro: app_reachable.step)

end
