(* ===== verification/Handles_Spec.thy ===== *)
theory Handles_Spec
  imports Handles
begin

text \<open>
  The typing of handles: every handle points to one connection with all its fields, and every
  connection counts exactly the handles that point to it. It is an invariant of all programs, so a
  connection learns that nobody txs or receives any more exactly when that is so.
\<close>

section \<open>The typing\<close>

definition send_ends :: "('tx, 'rx, 'hd, 'h, 'n, 't, 'r, 'o, 'w) app \<Rightarrow> nat multiset" where
  "send_ends s = image_mset sk_sender (mset (wholes s)) + image_mset tx_sender (mset (tx_halves s))"

definition receive_ends :: "('tx, 'rx, 'hd, 'h, 'n, 't, 'r, 'o, 'w) app \<Rightarrow> nat multiset" where
  "receive_ends s = image_mset sk_receiver (mset (wholes s)) + image_mset rx_receiver (mset (rx_halves s))"

text \<open>A handle is on the connection \<open>a\<close> with all its fields, and the loop there has its options.\<close>

definition whole_typed :: "loop_config list \<Rightarrow> ('tx, 'rx, 'hd, 'h) socketeer \<Rightarrow> bool" where
  "whole_typed cfgs sk \<longleftrightarrow>
     sk_sender sk < length cfgs \<and> sk_receiver sk = sk_sender sk \<and> sk_socket_handle sk = sk_sender sk
     \<and> sk_terminal_error sk = sk_sender sk \<and> cfgs ! sk_sender sk = config_of (sk_options sk)"

definition tx_typed :: "loop_config list \<Rightarrow> ('tx, 'rx) socketeer_tx \<Rightarrow> bool" where
  "tx_typed cfgs tx \<longleftrightarrow> tx_sender tx < length cfgs \<and> tx_terminal_error tx = tx_sender tx"

definition rx_typed :: "loop_config list \<Rightarrow> ('tx, 'rx, 'hd, 'h) socketeer_rx \<Rightarrow> bool" where
  "rx_typed cfgs rx \<longleftrightarrow>
     rx_receiver rx < length cfgs \<and> rx_socket_handle rx = rx_receiver rx
     \<and> rx_terminal_error rx = rx_receiver rx \<and> cfgs ! rx_receiver rx = config_of (rx_options rx)"

definition handles_typed :: "loop_config list \<Rightarrow> ('tx, 'rx, 'hd, 'h, 'n, 't, 'r, 'o, 'w) app \<Rightarrow> bool" where
  "handles_typed cfgs s \<longleftrightarrow>
     list_all (whole_typed cfgs) (wholes s) \<and> list_all (tx_typed cfgs) (tx_halves s)
     \<and> list_all (rx_typed cfgs) (rx_halves s)"

text \<open>The connections: reachable states, which count the ends given.\<close>

definition store_typed ::
  "('t, 'r, 'o, 'w) runtime \<Rightarrow> nat \<Rightarrow> nat multiset \<Rightarrow> nat multiset \<Rightarrow> ('t, 'r, 'o, 'w) store \<Rightarrow> bool" where
  "store_typed R n txs rxs store \<longleftrightarrow>
     (\<forall>a < length store.
        reachable R (fst (store ! a)) n (snd (store ! a))
        \<and> tx_handles (snd (store ! a)) = count txs a
        \<and> count rxs a = of_bool (rx_handle (snd (store ! a))))"

definition well_typed ::
  "('tx, 'rx, 'hd, 'h, 'n, 't, 'r, 'o, 'w) app_env \<Rightarrow> ('tx, 'rx, 'hd, 'h, 'n, 't, 'r, 'o, 'w) app \<Rightarrow> bool" where
  "well_typed A s \<longleftrightarrow>
     handles_typed (map fst (conns s)) s
     \<and> store_typed (app_runtime A) (channel_size A) (send_ends s) (receive_ends s) (conns s)"

section \<open>Connections\<close>

lemma exec_handles:
  assumes "exec R cfg act s = Some s'"
  shows "tx_handles s' = (case act of CloneTx \<Rightarrow> Suc (tx_handles s) | DropTx \<Rightarrow> tx_handles s - 1 | _ \<Rightarrow> tx_handles s)"
    and "rx_handle s' \<longleftrightarrow> rx_handle s \<and> act \<noteq> DropRx"
  using assms
  by (cases act; auto simp: start_call_def split: if_splits option.splits poll.splits sum.splits task.splits)+

lemma at_connD:
  assumes "at_conn R a act store = Some store'"
  obtains s where "a < length store" "exec R (fst (store ! a)) act (snd (store ! a)) = Some s"
    "store' = store[a := (fst (store ! a), s)]"
  using assms by (auto simp: at_conn_def split: if_splits)

lemma at_conn_cfgs: "at_conn R a act store = Some store' \<Longrightarrow> map fst store' = map fst store"
  by (elim at_connD) (auto intro!: nth_equalityI simp: nth_list_update)

lemma exec_Join: "close_connection i s = Ready (s', out) \<Longrightarrow> s' = s \<or> exec R cfg Join s = Some s'"
  by (auto simp: close_connection_def Let_def split_beta
      split: call.splits call_outcome.splits task.splits option.splits)

text \<open>A step that neither adds nor drops an end, and the three that do.\<close>

lemma store_typed_step:
  assumes "store_typed R n txs rxs store" and "at_conn R a act store = Some store'"
    and "act \<noteq> CloneTx" and "act \<noteq> DropTx" and "act \<noteq> DropRx"
  shows "store_typed R n txs rxs store'"
proof -
  from assms(2) obtain s where s: "a < length store" "exec R (fst (store ! a)) act (snd (store ! a)) = Some s"
    "store' = store[a := (fst (store ! a), s)]" by (rule at_connD)
  from exec_handles [OF s(2)] assms(3-5) have "tx_handles s = tx_handles (snd (store ! a))"
    "rx_handle s = rx_handle (snd (store ! a))" by (auto split: action.splits)
  with assms(1) s show ?thesis
    by (auto simp: store_typed_def nth_list_update intro: reachable.step)
qed

lemma store_typed_clone:
  assumes "store_typed R n txs rxs store" and "at_conn R a CloneTx store = Some store'"
  shows "store_typed R n (add_mset a txs) rxs store'"
proof -
  from assms(2) obtain s where s: "a < length store" "exec R (fst (store ! a)) CloneTx (snd (store ! a)) = Some s"
    "store' = store[a := (fst (store ! a), s)]" by (rule at_connD)
  from exec_handles [OF s(2)] assms(1) s reachable.step [OF _ s(2)] show ?thesis
    by (auto simp: store_typed_def nth_list_update simp del: exec.simps)
qed

lemma store_typed_drop_tx:
  assumes "store_typed R n txs rxs store" and "at_conn R a DropTx store = Some store'"
  shows "store_typed R n (txs - {#a#}) rxs store'"
proof -
  from assms(2) obtain s where s: "a < length store" "exec R (fst (store ! a)) DropTx (snd (store ! a)) = Some s"
    "store' = store[a := (fst (store ! a), s)]" by (rule at_connD)
  from exec_handles [OF s(2)] assms(1) s reachable.step [OF _ s(2)] show ?thesis
    by (auto simp: store_typed_def nth_list_update simp del: exec.simps)
qed

lemma store_typed_drop_rx:
  assumes "store_typed R n txs rxs store" and "at_conn R a DropRx store = Some store'"
  shows "store_typed R n txs (rxs - {#a#}) store'"
proof -
  from assms(2) obtain s where s: "a < length store" "exec R (fst (store ! a)) DropRx (snd (store ! a)) = Some s"
    "store' = store[a := (fst (store ! a), s)]" by (rule at_connD)
  from exec_handles [OF s(2)] assms(1) s reachable.step [OF _ s(2)] show ?thesis
    by (auto simp: store_typed_def nth_list_update simp del: exec.simps)
qed

text \<open>Every end that is alive can be dropped, and cloned from.\<close>

lemma drop_enabled:
  assumes "store_typed R n txs rxs store" and "a < length store"
  shows "a \<in># txs \<Longrightarrow> at_conn R a DropTx store \<noteq> None" and "a \<in># txs \<Longrightarrow> at_conn R a CloneTx store \<noteq> None"
    and "a \<in># rxs \<Longrightarrow> at_conn R a DropRx store \<noteq> None"
  using assms by (auto simp: store_typed_def at_conn_def simp flip: count_greater_zero_iff)

section \<open>Handles\<close>

lemma mset_without: "i < length xs \<Longrightarrow> mset xs = add_mset (xs ! i) (mset (without i xs))"
  by (subst id_take_nth_drop [of i xs]) (simp_all add: without_def)

lemma list_all_without: "list_all P xs \<Longrightarrow> list_all P (without i xs)"
  by (auto simp: list_all_iff without_def dest: in_set_takeD in_set_dropD)

lemma list_all_at: "list_all P xs \<Longrightarrow> i < length xs \<Longrightarrow> P (xs ! i)"
  by (simp add: list_all_length)

lemmas handle_lists = list_all_without list_all_at

lemma typed_more:
  "whole_typed cfgs sk \<Longrightarrow> whole_typed (cfgs @ cfgs') sk" "tx_typed cfgs tx \<Longrightarrow> tx_typed (cfgs @ cfgs') tx"
  "rx_typed cfgs rx \<Longrightarrow> rx_typed (cfgs @ cfgs') rx"
  by (auto simp: whole_typed_def tx_typed_def rx_typed_def nth_append)

lemma handles_typed_more: "handles_typed cfgs s \<Longrightarrow> handles_typed (cfgs @ cfgs') s"
  by (auto simp: handles_typed_def list_all_iff intro: typed_more)

lemma split_typed:
  "whole_typed cfgs sk \<Longrightarrow> tx_typed cfgs (fst (split clone sk)) \<and> rx_typed cfgs (snd (split clone sk))
    \<and> tx_sender (fst (split clone sk)) = sk_sender sk \<and> rx_receiver (snd (split clone sk)) = sk_receiver sk"
  by (simp add: split_def whole_typed_def tx_typed_def rx_typed_def)

lemma clone_typed:
  "tx_typed cfgs tx \<Longrightarrow> tx_typed cfgs (clone_tx clone tx)" "tx_sender (clone_tx clone tx) = tx_sender tx"
  by (simp_all add: clone_tx_def tx_typed_def)

lemma reunite_typed:
  assumes "rx_typed cfgs rx" and "tx_typed cfgs tx"
  shows "case reunite rx tx of
      Inr sk \<Rightarrow> whole_typed cfgs sk \<and> sk_sender sk = tx_sender tx \<and> sk_receiver sk = rx_receiver rx
        \<and> tx_sender tx = rx_receiver rx
    | Inl e \<Rightarrow> re_tx e = tx \<and> re_rx e = rx \<and> tx_sender tx \<noteq> rx_receiver rx"
  using assms by (auto simp: reunite_def from_parts_def whole_typed_def tx_typed_def rx_typed_def)

text \<open>Connecting adds a connection with one sender and one receiver, or nothing.\<close>

lemma connect_typed:
  assumes "connect_with_codec N H R P n u opts C hdl k store = (k', store', out)" and "store_typed R n txs rxs store"
    and "\<And>a. a \<in># txs \<Longrightarrow> a < length store" and "\<And>a. a \<in># rxs \<Longrightarrow> a < length store"
  shows "\<exists>cfgs. map fst store' = map fst store @ cfgs \<and> list_all (whole_typed (map fst store')) (established out)
    \<and> store_typed R n (txs + image_mset sk_sender (mset (established out)))
        (rxs + image_mset sk_receiver (mset (established out))) store'"
  using assms(1)
proof (cases rule: connect_cases)
  case (established u rq w hdl' ctx s)
  have new: "count txs (length store) = 0" "count rxs (length store) = 0"
    using assms(3,4) by (meson count_eq_zero_iff less_irrefl)+
  from established(5) have s: "tx_handles s = 1" "rx_handle s" "reachable R (config_of opts) n s"
    by (auto simp: init_sys_def intro: reachable.start)
  have "store_typed R n (add_mset (length store) txs) (add_mset (length store) rxs) store'"
    using assms(2) new s by (auto simp: store_typed_def established(6) nth_append less_Suc_eq)
  with established show ?thesis
    by (auto simp: established_def whole_typed_def nth_append)
qed (use assms(2) in \<open>auto simp: established_def\<close>)

lemma ends_valid:
  assumes "handles_typed (map fst (conns s)) s"
  shows "a \<in># send_ends s \<Longrightarrow> a < length (conns s)" "a \<in># receive_ends s \<Longrightarrow> a < length (conns s)"
  using assms
  by (auto simp: handles_typed_def send_ends_def receive_ends_def list_all_iff whole_typed_def tx_typed_def rx_typed_def)

lemma drop_whole_typed:
  assumes "drop_whole R sk store = Some store'" and "store_typed R n txs rxs store"
  shows "store_typed R n (txs - {#sk_sender sk#}) (rxs - {#sk_receiver sk#}) store'" "map fst store' = map fst store"
  using assms by (auto simp: drop_whole_def at_conn_cfgs split: option.splits
      intro: store_typed_drop_tx store_typed_drop_rx)

lemma drop_whole_enabled:
  assumes "store_typed R n txs rxs store" and "sk_sender sk \<in># txs" and "sk_receiver sk \<in># rxs"
    and "sk_sender sk < length store" and "sk_receiver sk < length store"
  shows "drop_whole R sk store \<noteq> None"
proof -
  from drop_enabled(3) [OF assms(1,5,3)] obtain store1 where 1: "at_conn R (sk_receiver sk) DropRx store = Some store1"
    by blast
  from at_conn_cfgs [OF this] have "length store1 = length store" by (metis length_map)
  with drop_enabled(1) [OF store_typed_drop_rx [OF assms(1) 1] _ assms(2)] assms(4) 1 show ?thesis
    by (simp add: drop_whole_def)
qed

section \<open>The typing is kept\<close>

lemma well_typedD:
  assumes "well_typed A s"
  shows "handles_typed (map fst (conns s)) s"
    and "store_typed (app_runtime A) (channel_size A) (send_ends s) (receive_ends s) (conns s)"
  using assms by (simp_all add: well_typed_def)

lemma typed_at:
  assumes "handles_typed cfgs s"
  shows "i < length (wholes s) \<Longrightarrow> whole_typed cfgs (wholes s ! i)"
    and "i < length (tx_halves s) \<Longrightarrow> tx_typed cfgs (tx_halves s ! i)"
    and "i < length (rx_halves s) \<Longrightarrow> rx_typed cfgs (rx_halves s ! i)"
  using assms by (simp_all add: handles_typed_def list_all_at)

text \<open>A call through a handle, or a step of a connection by itself.\<close>

lemma well_typed_at_conn:
  assumes "well_typed A s" and "at_conn (app_runtime A) a act (conns s) = Some store"
    and "act \<noteq> CloneTx" and "act \<noteq> DropTx" and "act \<noteq> DropRx"
  shows "well_typed A (s\<lparr>conns := store\<rparr>)"
  using assms(1) store_typed_step [OF well_typedD(2) [OF assms(1)] assms(2-5)] at_conn_cfgs [OF assms(2)]
  by (simp add: well_typed_def send_ends_def receive_ends_def handles_typed_def)

lemma well_typed_move:
  assumes "well_typed A s" and "conns s' = conns s" and "handles_typed (map fst (conns s)) s'"
    and "send_ends s' = send_ends s" and "receive_ends s' = receive_ends s"
  shows "well_typed A s'"
  using assms by (simp add: well_typed_def)

lemma well_typed_split:
  assumes "well_typed A s" and "app_exec A (AppSplit i) s = Some s'"
  shows "well_typed A s'"
proof -
  from assms(2) have i: "i < length (wholes s)" by (simp split: if_splits)
  note typed = well_typedD(1) [OF assms(1)]
  note halves = split_typed [OF typed_at(1) [OF typed i], of "app_clone A"]
  from assms(2) i have s': "s' = s\<lparr>wholes := without i (wholes s),
      tx_halves := tx_halves s @ [fst (split (app_clone A) (wholes s ! i))],
      rx_halves := rx_halves s @ [snd (split (app_clone A) (wholes s ! i))]\<rparr>"
    by (simp add: split_beta)
  show ?thesis
  proof (rule well_typed_move [OF assms(1)])
    show "handles_typed (map fst (conns s)) s'"
      using typed halves by (simp add: s' handles_typed_def list_all_without)
  qed (use halves mset_without [OF i] in \<open>simp_all add: s' send_ends_def receive_ends_def\<close>)
qed

lemma well_typed_reunite:
  assumes "well_typed A s" and "app_exec A (AppReunite j i) s = Some s'"
  shows "well_typed A s'"
proof -
  from assms(2) have ij: "j < length (rx_halves s)" "i < length (tx_halves s)" by (simp_all split: if_splits)
  note typed = well_typedD(1) [OF assms(1)]
  note whole = reunite_typed [OF typed_at(3) [OF typed ij(1)] typed_at(2) [OF typed ij(2)]]
  note moved = mset_without [OF ij(1)] mset_without [OF ij(2)]
  show ?thesis
  proof (cases "reunite (rx_halves s ! j) (tx_halves s ! i)")
    case (Inr sk)
    with assms(2) ij have s': "s' = s\<lparr>wholes := wholes s @ [sk], tx_halves := without i (tx_halves s),
        rx_halves := without j (rx_halves s)\<rparr>" by simp
    show ?thesis
    proof (rule well_typed_move [OF assms(1)])
      show "handles_typed (map fst (conns s)) s'"
        using typed whole Inr by (simp add: s' handles_typed_def list_all_without)
    qed (use whole Inr moved in \<open>simp_all add: s' send_ends_def receive_ends_def\<close>)
  next
    case (Inl e)
    with assms(2) ij have s': "s' = s\<lparr>tx_halves := without i (tx_halves s) @ [re_tx e],
        rx_halves := without j (rx_halves s) @ [re_rx e]\<rparr>" by simp
    show ?thesis
    proof (rule well_typed_move [OF assms(1)])
      show "handles_typed (map fst (conns s)) s'"
        using typed whole Inl ij typed_at [OF typed] by (simp add: s' handles_typed_def list_all_without)
    qed (use whole Inl moved in \<open>simp_all add: s' send_ends_def receive_ends_def\<close>)
  qed
qed

lemma well_typed_clone:
  assumes "well_typed A s" and "app_exec A (AppClone i) s = Some s'"
  shows "well_typed A s'"
proof -
  from assms(2) obtain store where i: "i < length (tx_halves s)"
    and store: "at_conn (app_runtime A) (tx_sender (tx_halves s ! i)) CloneTx (conns s) = Some store"
    and s': "s' = s\<lparr>conns := store, tx_halves := tx_halves s @ [clone_tx (app_clone A) (tx_halves s ! i)]\<rparr>"
    by (auto split: if_splits)
  note typed = well_typedD(1) [OF assms(1)]
  note cloned = clone_typed(1) [OF typed_at(2) [OF typed i], of "app_clone A"] clone_typed(2) [of "app_clone A"]
  from store_typed_clone [OF well_typedD(2) [OF assms(1)] store] typed cloned at_conn_cfgs [OF store]
  show ?thesis by (simp add: well_typed_def handles_typed_def s' send_ends_def receive_ends_def)
qed

lemma well_typed_drop_half:
  assumes "well_typed A s"
  shows "app_exec A (AppDropTx i) s = Some s' \<Longrightarrow> well_typed A s'" "app_exec A (AppDropRx j) s = Some s' \<Longrightarrow> well_typed A s'"
proof -
  note typed = well_typedD(1) [OF assms(1)] and stores = well_typedD(2) [OF assms(1)]
  {
    assume "app_exec A (AppDropTx i) s = Some s'"
    then obtain store where i: "i < length (tx_halves s)"
      and store: "at_conn (app_runtime A) (tx_sender (tx_halves s ! i)) DropTx (conns s) = Some store"
      and s': "s' = s\<lparr>conns := store, tx_halves := without i (tx_halves s)\<rparr>"
      by (auto split: if_splits)
    from store_typed_drop_tx [OF stores store] typed at_conn_cfgs [OF store] mset_without [OF i]
    show "well_typed A s'"
      by (simp add: well_typed_def handles_typed_def s' send_ends_def receive_ends_def list_all_without)
  next
    assume "app_exec A (AppDropRx j) s = Some s'"
    then obtain store where j: "j < length (rx_halves s)"
      and store: "at_conn (app_runtime A) (rx_receiver (rx_halves s ! j)) DropRx (conns s) = Some store"
      and s': "s' = s\<lparr>conns := store, rx_halves := without j (rx_halves s)\<rparr>"
      by (auto split: if_splits)
    from store_typed_drop_rx [OF stores store] typed at_conn_cfgs [OF store] mset_without [OF j]
    show "well_typed A s'"
      by (simp add: well_typed_def handles_typed_def s' send_ends_def receive_ends_def list_all_without)
  }
qed

text \<open>A whole handle is used up, and perhaps another put in its place.\<close>

lemma well_typed_consume:
  assumes typed: "handles_typed (map fst (conns s)) s" and i: "i < length (wholes s)"
    and cfgs: "map fst store = map fst (conns s) @ cfgs" and fresh: "list_all (whole_typed (map fst store)) fresh"
    and stores: "store_typed (app_runtime A) (channel_size A) (send_ends s + image_mset sk_sender (mset fresh))
        (receive_ends s + image_mset sk_receiver (mset fresh)) store"
    and drop: "drop_whole (app_runtime A) (wholes s ! i) store = Some store'"
  shows "well_typed A (s\<lparr>net := k, conns := store', wholes := without i (wholes s) @ fresh\<rparr>)"
proof -
  from drop_whole_typed [OF drop stores] handles_typed_more [OF typed, of cfgs] cfgs fresh mset_without [OF i]
  show ?thesis
    by (simp add: well_typed_def handles_typed_def send_ends_def receive_ends_def list_all_without ac_simps)
qed

lemma well_typed_drop_whole:
  assumes "well_typed A s" and "app_exec A (AppDropWhole i) s = Some s'"
  shows "well_typed A s'"
proof -
  from assms(2) obtain store where i: "i < length (wholes s)"
    and drop: "drop_whole (app_runtime A) (wholes s ! i) (conns s) = Some store"
    and s': "s' = s\<lparr>conns := store, wholes := without i (wholes s)\<rparr>" by (auto split: if_splits)
  from well_typed_consume [OF well_typedD(1) [OF assms(1)] i _ _ _ drop, of "[]" "[]" "net s"] well_typedD(2) [OF assms(1)]
  show ?thesis by (simp add: s')
qed

lemma well_typed_connect:
  assumes "well_typed A s" and "app_exec A (AppConnect u opts C hdl) s = Some s'"
  shows "well_typed A s'"
proof -
  note typed = well_typedD(1) [OF assms(1)] and stores = well_typedD(2) [OF assms(1)]
  obtain k store out where c: "connect_with_codec (app_connector A) (app_headers A) (app_runtime A) (app_handler A)
      (channel_size A) u opts C hdl (net s) (conns s) = (k, store, out)" by (rule prod_cases3)
  with assms(2) have s': "s' = s\<lparr>net := k, conns := store, wholes := wholes s @ established out\<rparr>" by simp
  from connect_typed [OF c stores ends_valid [OF typed]] handles_typed_more [OF typed] show ?thesis
    by (auto simp: s' well_typed_def handles_typed_def send_ends_def receive_ends_def ac_simps)
qed

lemma well_typed_reconnect:
  assumes "well_typed A s" and "app_exec A (AppReconnect i close_sent) s = Some s'"
  shows "well_typed A s'"
proof -
  note typed = well_typedD(1) [OF assms(1)] and stores = well_typedD(2) [OF assms(1)]
  obtain k store out where c: "reconnect (app_connector A) (app_headers A) (app_runtime A) (app_handler A)
      (channel_size A) close_sent (wholes s ! i) (net s) (conns s) = (k, store, out)" by (rule prod_cases3)
  with assms(2) obtain store' where i: "i < length (wholes s)"
    and drop: "drop_whole (app_runtime A) (wholes s ! i) store = Some store'"
    and s': "s' = s\<lparr>net := k, conns := store', wholes := without i (wholes s) @ established out\<rparr>"
    by (auto split: if_splits)
  have "\<exists>cfgs. map fst store = map fst (conns s) @ cfgs \<and> list_all (whole_typed (map fst store)) (established out)
      \<and> store_typed (app_runtime A) (channel_size A) (send_ends s + image_mset sk_sender (mset (established out)))
          (receive_ends s + image_mset sk_receiver (mset (established out))) store"
  proof (cases close_sent)
    case Panicked
    with c stores show ?thesis by (simp add: reconnect_def established_def Let_def)
  next
    case (Returned r)
    with c have "connect_with_codec (app_connector A) (app_headers A) (app_runtime A) (app_handler A) (channel_size A)
        (as_str (sk_url (wholes s ! i))) (sk_options (wholes s ! i)) (sk_codec (wholes s ! i))
        (on_disconnected (app_handler A) (sk_handler (wholes s ! i))) (net s) (conns s) = (k, store, out)"
      by (simp add: reconnect_def Let_def)
    from connect_typed [OF this stores ends_valid [OF typed]] show ?thesis .
  qed
  with well_typed_consume [OF typed i _ _ _ drop] show ?thesis unfolding s' by blast
qed

lemma well_typed_closed:
  assumes "well_typed A s" and "app_exec A (AppClosed i call) s = Some s'"
  shows "well_typed A s'"
proof -
  note typed = well_typedD(1) [OF assms(1)] and stores = well_typedD(2) [OF assms(1)]
  let ?a = "sk_socket_handle (wholes s ! i)"
  from assms(2) obtain c out store where i: "i < length (wholes s)" "?a < length (conns s)"
    and close: "close_connection call (snd (conns s ! ?a)) = Ready (c, out)"
    and drop: "drop_whole (app_runtime A) (wholes s ! i) ((conns s)[?a := (fst (conns s ! ?a), c)]) = Some store"
    and s': "s' = s\<lparr>conns := store, wholes := without i (wholes s)\<rparr>"
    by (auto simp: Let_def split: if_splits poll.splits)
  have closed: "store_typed (app_runtime A) (channel_size A) (send_ends s) (receive_ends s)
      ((conns s)[?a := (fst (conns s ! ?a), c)])"
    using exec_Join [OF close, of "app_runtime A" "fst (conns s ! ?a)"]
  proof
    assume "exec (app_runtime A) (fst (conns s ! ?a)) Join (snd (conns s ! ?a)) = Some c"
    with i(2) have "at_conn (app_runtime A) ?a Join (conns s) = Some ((conns s)[?a := (fst (conns s ! ?a), c)])"
      by (simp add: at_conn_def del: exec.simps)
    from store_typed_step [OF stores this] show ?thesis by simp
  qed (use stores in simp)
  have "map fst ((conns s)[?a := (fst (conns s ! ?a), c)]) = map fst (conns s)"
    using i(2) by (auto intro!: nth_equalityI simp: nth_list_update)
  with well_typed_consume [OF typed i(1) _ _ _ drop, of "[]" "[]" "net s"] closed show ?thesis by (simp add: s')
qed

lemma well_typed_step:
  assumes "well_typed A s" and "app_exec A act s = Some s'"
  shows "well_typed A s'"
proof (cases act)
  case (AppStep a c)
  with assms well_typed_at_conn [OF assms(1), of a c] show ?thesis by (cases c) (auto simp del: exec.simps)
next
  case (AppWhole i c)
  with assms well_typed_at_conn [OF assms(1), of _ c] show ?thesis
    by (cases c) (auto simp del: exec.simps split: if_splits)
next
  case (AppTx i c)
  with assms well_typed_at_conn [OF assms(1), of _ c] show ?thesis
    by (cases c) (auto simp del: exec.simps split: if_splits)
next
  case (AppRx i c)
  with assms well_typed_at_conn [OF assms(1), of _ c] show ?thesis
    by (cases c) (auto simp del: exec.simps split: if_splits)
next
  case AppConnect
  show ?thesis by (rule well_typed_connect [OF assms(1) assms(2) [unfolded AppConnect]])
next
  case AppSplit
  show ?thesis by (rule well_typed_split [OF assms(1) assms(2) [unfolded AppSplit]])
next
  case AppClone
  show ?thesis by (rule well_typed_clone [OF assms(1) assms(2) [unfolded AppClone]])
next
  case AppReunite
  show ?thesis by (rule well_typed_reunite [OF assms(1) assms(2) [unfolded AppReunite]])
next
  case AppDropWhole
  show ?thesis by (rule well_typed_drop_whole [OF assms(1) assms(2) [unfolded AppDropWhole]])
next
  case AppDropTx
  show ?thesis by (rule well_typed_drop_half(1) [OF assms(1) assms(2) [unfolded AppDropTx]])
next
  case AppDropRx
  show ?thesis by (rule well_typed_drop_half(2) [OF assms(1) assms(2) [unfolded AppDropRx]])
next
  case AppReconnect
  show ?thesis by (rule well_typed_reconnect [OF assms(1) assms(2) [unfolded AppReconnect]])
next
  case AppClosed
  show ?thesis by (rule well_typed_closed [OF assms(1) assms(2) [unfolded AppClosed]])
qed

lemma app_reachable_typed: "app_reachable A s \<Longrightarrow> well_typed A s"
proof (induction rule: app_reachable.induct)
  case (start k)
  show ?case
    by (simp add: app_start_def well_typed_def handles_typed_def store_typed_def)
next
  case (step s act s')
  then show ?case using well_typed_step by blast
qed

section \<open>What the typing gives\<close>

lemma end_at:
  assumes "handles_typed (map fst (conns s)) s"
  shows "i < length (wholes s) \<Longrightarrow> sk_sender (wholes s ! i) \<in># send_ends s \<and> sk_receiver (wholes s ! i) \<in># receive_ends s"
    and "i < length (tx_halves s) \<Longrightarrow> tx_sender (tx_halves s ! i) \<in># send_ends s"
    and "j < length (rx_halves s) \<Longrightarrow> rx_receiver (rx_halves s ! j) \<in># receive_ends s"
  by (auto simp: send_ends_def receive_ends_def)

text \<open>
  C12. Handles are well typed in every program: all fields of a handle point to one existing connection
  whose loop runs with the options of the handle, and every connection, itself in a reachable state,
  counts exactly the senders that exist for it and knows whether its receiver does. So no step gets
  stuck on a handle: each can be dropped, and each send half cloned, at any time.
\<close>

theorem programs_well_typed:
  assumes "app_reachable A s"
  shows "well_typed A s
    \<and> (\<forall>i < length (wholes s). app_exec A (AppDropWhole i) s \<noteq> None)
    \<and> (\<forall>i < length (tx_halves s). app_exec A (AppDropTx i) s \<noteq> None \<and> app_exec A (AppClone i) s \<noteq> None)
    \<and> (\<forall>j < length (rx_halves s). app_exec A (AppDropRx j) s \<noteq> None)"
proof -
  note ok = app_reachable_typed [OF assms]
  note typed = well_typedD(1) [OF ok] and stores = well_typedD(2) [OF ok]
  note valid = ends_valid [OF typed]
  have "app_exec A (AppDropWhole i) s \<noteq> None" if i: "i < length (wholes s)" for i
    using drop_whole_enabled [OF stores] end_at(1) [OF typed i] valid i by auto
  moreover have "app_exec A (AppDropTx i) s \<noteq> None \<and> app_exec A (AppClone i) s \<noteq> None" if i: "i < length (tx_halves s)" for i
    using drop_enabled(1,2) [OF stores valid(1)] end_at(2) [OF typed i] i by auto
  moreover have "app_exec A (AppDropRx j) s \<noteq> None" if j: "j < length (rx_halves s)" for j
    using drop_enabled(3) [OF stores valid(2)] end_at(3) [OF typed j] j by auto
  ultimately show ?thesis using ok by blast
qed

text \<open>A program over the scripted transport, for the witnesses.\<close>

definition demo_env ::
  "(message, message, unit, (string \<times> string) list, nat, payload chan, message chan, reply slot, script) app_env" where
  "demo_env =
     \<lparr>app_connector = demo_connector, app_headers = alist_headers, app_runtime = reference_runtime scripted,
      app_handler = noop_handler, app_clone = id, channel_size = 4\<rparr>"

definition demo_open :: "(message, message, unit, (string \<times> string) list, script) app_action" where
  "demo_open = AppConnect ''ws://h/'' (connect_options_default alist_headers) raw_codec ()"

lemmas app_eval = demo_env_def demo_open_def demo_connector_def connect_defs Let_def insert_all_def
  connect_options_default_def alist_headers_def app_start_def at_conn_def without_def split_def clone_tx_def
  established_def drop_whole_def reunite_def from_parts_def

lemma programs_well_typed_witness:
  "\<exists>s. app_run demo_env [demo_open, AppSplit 0, AppClone 0, AppReunite 0 1] (app_start 0) = Some s
     \<and> length (wholes s) = 1 \<and> length (tx_halves s) = 1 \<and> tx_handles (snd (conns s ! 0)) = 2
     \<and> app_exec demo_env (AppDropWhole 0) s \<noteq> None \<and> app_exec demo_env (AppDropTx 0) s \<noteq> None"
proof -
  obtain s where s: "app_run demo_env [demo_open, AppSplit 0, AppClone 0, AppReunite 0 1] (app_start 0) = Some s"
    "length (wholes s) = 1" "length (tx_halves s) = 1" "tx_handles (snd (conns s ! 0)) = 2"
    by (simp add: app_eval eval_simps)
  from programs_well_typed [OF app_run_reachable [OF app_reachable.start s(1)]] s show ?thesis by auto
qed

lemma count_map: "count (image_mset f (mset xs)) a = length (filter (\<lambda>x. f x = a) xs)"
  by (induction xs) auto

lemma app_connection:
  assumes "app_reachable A s" and "a < length (conns s)"
  shows "reachable (app_runtime A) (fst (conns s ! a)) (channel_size A) (snd (conns s ! a))"
    and "tx_handles (snd (conns s ! a)) = count (send_ends s) a"
    and "count (receive_ends s) a = of_bool (rx_handle (snd (conns s ! a)))"
  using well_typedD(2) [OF app_reachable_typed [OF assms(1)]] assms(2) by (simp_all add: store_typed_def)

text \<open>
  C13. The channels know their users. In every program and over every runtime, the send queue of a
  connection has as many senders as there are whole handles and send halves on it, so the loop sees it
  closed exactly when there is none left; and the receive channel is open exactly when a whole handle or
  a receive half on the connection exists, of which there is never more than one.
\<close>

theorem channels_know_users:
  assumes "app_reachable A s" and "tokio (app_runtime A) vt vr vo" and "a < length (conns s)"
  shows "senders (vt (tx_chan (conn (snd (conns s ! a)))))
      = length (filter (\<lambda>sk. sk_sender sk = a) (wholes s)) + length (filter (\<lambda>tx. tx_sender tx = a) (tx_halves s))
    \<and> (rx_alive (vr (rx_chan (conn (snd (conns s ! a)))))
        \<longleftrightarrow> (\<exists>sk \<in> set (wholes s). sk_receiver sk = a) \<or> (\<exists>rx \<in> set (rx_halves s). rx_receiver rx = a))
    \<and> length (filter (\<lambda>sk. sk_receiver sk = a) (wholes s)) + length (filter (\<lambda>rx. rx_receiver rx = a) (rx_halves s)) \<le> 1"
proof -
  note app = app_connection [OF assms(1,3)]
  from tokio.view_shape [OF assms(2) app(1)] have
    "senders (vt (tx_chan (conn (snd (conns s ! a))))) = tx_handles (snd (conns s ! a))"
    "rx_alive (vr (rx_chan (conn (snd (conns s ! a))))) \<longleftrightarrow> rx_handle (snd (conns s ! a))"
    by (simp_all add: shape_inv_def)
  moreover have "length (filter (\<lambda>sk. sk_receiver sk = a) (wholes s)) + length (filter (\<lambda>rx. rx_receiver rx = a) (rx_halves s))
      = of_bool (rx_handle (snd (conns s ! a)))"
    using app(3) by (simp add: receive_ends_def count_map)
  moreover have "0 < count (receive_ends s) a
      \<longleftrightarrow> (\<exists>sk \<in> set (wholes s). sk_receiver sk = a) \<or> (\<exists>rx \<in> set (rx_halves s). rx_receiver rx = a)"
    by (auto simp: receive_ends_def)
  ultimately show ?thesis using app(2,3) by (simp add: send_ends_def count_map)
qed

lemma channels_know_users_witness:
  "\<exists>s. app_run demo_env [demo_open, demo_open, AppSplit 0, AppClone 0, AppDropRx 0] (app_start 0) = Some s
     \<and> senders (tx_chan (conn (snd (conns s ! 0)))) = 2 \<and> \<not> rx_alive (rx_chan (conn (snd (conns s ! 0))))"
proof -
  obtain s where s: "app_run demo_env [demo_open, demo_open, AppSplit 0, AppClone 0, AppDropRx 0] (app_start 0) = Some s"
    "0 < length (conns s)" "map sk_sender (wholes s) = [1]" "map sk_receiver (wholes s) = [1]"
    "map tx_sender (tx_halves s) = [0, 0]" "rx_halves s = []"
    by (simp add: app_eval eval_simps)
  have "tokio (app_runtime demo_env) id id id" using reference_runtime_tokio by (simp add: demo_env_def)
  from channels_know_users [OF app_run_reachable [OF app_reachable.start s(1)] this s(2)] s show ?thesis
    by (auto simp: Cons_eq_map_conv)
qed

text \<open>
  C14. Reuniting compares the two error slots, and that is enough: in every program it succeeds exactly
  when the halves belong to the same connection, channels and all. The handle it gives is well typed and
  holds the only receiver of its connection; a refused pair comes back as it was. The comparison does not
  tell one split from another: a clone kept from an earlier split of the connection is reunited with the
  receive half of a later one (the second program of the witness), where the documentation promises an
  error for halves of different splits.
\<close>

theorem reunite_same_connection:
  assumes "app_reachable A s" and "j < length (rx_halves s)" and "i < length (tx_halves s)"
  shows "case reunite (rx_halves s ! j) (tx_halves s ! i) of
      Inr sk \<Rightarrow> rx_receiver (rx_halves s ! j) = tx_sender (tx_halves s ! i) \<and> sk_sender sk = tx_sender (tx_halves s ! i)
        \<and> whole_typed (map fst (conns s)) sk \<and> sk_codec sk = rx_codec (rx_halves s ! j)
        \<and> rx_handle (snd (conns s ! sk_receiver sk))
    | Inl e \<Rightarrow> rx_receiver (rx_halves s ! j) \<noteq> tx_sender (tx_halves s ! i)
        \<and> re_tx e = tx_halves s ! i \<and> re_rx e = rx_halves s ! j"
proof -
  note typed = well_typedD(1) [OF app_reachable_typed [OF assms(1)]]
  have "rx_receiver (rx_halves s ! j) \<in># receive_ends s" using end_at(3) [OF typed assms(2)] .
  with ends_valid(2) [OF typed] app_connection(3) [OF assms(1)] have "rx_handle (snd (conns s ! rx_receiver (rx_halves s ! j)))"
    by (metis (full_types) count_eq_zero_iff of_bool_eq(1))
  with reunite_typed [OF typed_at(3) [OF typed assms(2)] typed_at(2) [OF typed assms(3)]] show ?thesis
    by (auto simp: reunite_def from_parts_def split: sum.splits if_splits)
qed

lemma reunite_same_connection_witness:
  "\<exists>s e. app_run demo_env [demo_open, demo_open, AppSplit 0, AppSplit 0] (app_start 0) = Some s
     \<and> reunite (rx_halves s ! 0) (tx_halves s ! 1) = Err e \<and> re_tx e = tx_halves s ! 1
     \<and> rx_receiver (rx_halves s ! 0) \<noteq> tx_sender (tx_halves s ! 1)
     \<and> (\<exists>s' sk. app_run demo_env [demo_open, AppSplit 0, AppClone 0, AppReunite 0 0, AppSplit 0] (app_start 0) = Some s'
          \<and> length (tx_halves s') = 2 \<and> length (rx_halves s') = 1
          \<and> (\<forall>i < 2. reunite (rx_halves s' ! 0) (tx_halves s' ! i) = Ok sk \<and> sk_sender sk = tx_sender (tx_halves s' ! i)))"
proof -
  obtain s e where s: "app_run demo_env [demo_open, demo_open, AppSplit 0, AppSplit 0] (app_start 0) = Some s"
    "length (rx_halves s) = 2" "length (tx_halves s) = 2" "reunite (rx_halves s ! 0) (tx_halves s ! 1) = Err e"
    by (simp add: app_eval eval_simps)
  obtain s' sk where s': "app_run demo_env [demo_open, AppSplit 0, AppClone 0, AppReunite 0 0, AppSplit 0] (app_start 0) = Some s'"
    "length (tx_halves s') = 2" "length (rx_halves s') = 1"
    "\<forall>i < 2. reunite (rx_halves s' ! 0) (tx_halves s' ! i) = Ok sk"
    by (simp add: app_eval eval_simps numeral_2_eq_2 all_conj_distrib less_Suc_eq imp_disjL)
  have "sk_sender sk = tx_sender (tx_halves s' ! i)" if "i < 2" for i
    using reunite_same_connection [OF app_run_reachable [OF app_reachable.start s'(1)], of 0 i] s' that by auto
  with s' reunite_same_connection [OF app_run_reachable [OF app_reachable.start s(1)], of 0 1] s show ?thesis by auto
qed

text \<open>Runs of one connection are runs of the program.\<close>

lemma run_at_conn:
  assumes "run (app_runtime A) (fst (conns s ! a)) acts (snd (conns s ! a)) = Some t" and "list_all needs_nothing acts"
    and "a < length (conns s)"
  shows "app_run A (map (AppStep a) acts) s = Some (s\<lparr>conns := (conns s)[a := (fst (conns s ! a), t)]\<rparr>)"
  using assms
proof (induction acts arbitrary: s)
  case (Cons act acts)
  from Cons.prems(1) obtain u where u: "exec (app_runtime A) (fst (conns s ! a)) act (snd (conns s ! a)) = Some u"
    "run (app_runtime A) (fst (conns s ! a)) acts u = Some t" by (auto split: option.splits)
  let ?s = "s\<lparr>conns := (conns s)[a := (fst (conns s ! a), u)]\<rparr>"
  from Cons.prems u have "app_exec A (AppStep a act) s = Some ?s" by (simp add: at_conn_def del: exec.simps)
  with Cons.IH [of ?s] Cons.prems u show ?case by (simp del: exec.simps app_exec.simps)
next
  case Nil
  then have "t = snd (conns s ! a)" by simp
  then show ?case by simp
qed

lemma send_rounds:
  "list_all needs_nothing (concat (replicate j send_round))" "length (concat (replicate j send_round)) = 2 * j"
  by (induction j) auto

text \<open>
  C15. Nothing is leaked: a connection on which nobody can send any more, because every whole handle and
  every send half on it was dropped, moved into a closed or reconnected handle, or given up, ends by its
  own steps in every program, however it got there, after offering to the socket what is still queued.
\<close>

theorem unused_connection_finishes:
  assumes "app_reachable A s" and "tokio (app_runtime A) vt vr vo" and "a < length (conns s)"
    and "\<forall>sk \<in> set (wholes s). sk_sender sk \<noteq> a" and "\<forall>tx \<in> set (tx_halves s). tx_sender tx \<noteq> a"
  shows "\<exists>acts s'. app_run A (map (AppStep a) acts) s = Some s' \<and> finished (task (snd (conns s' ! a)))
    \<and> length acts \<le> 2 * channel_size A + 6"
proof -
  let ?R = "app_runtime A" and ?cfg = "fst (conns s ! a)" and ?s = "snd (conns s ! a)" and ?n = "channel_size A"
  note app = app_connection [OF assms(1,3)]
  have none: "tx_handles ?s = 0" using app(2) assms(4,5) by (simp add: send_ends_def count_map filter_empty_conv)
  have "\<exists>acts t. run ?R ?cfg acts ?s = Some t \<and> list_all needs_nothing acts \<and> finished (task t)
      \<and> length acts \<le> 2 * ?n + 6"
  proof (cases "active (task ?s)")
    case True
    from tokio.abandoned_finishes [OF assms(2) app(1) True none] obtain k t where k: "k \<le> ?n + 1" "finished (task t)"
      "run ?R ?cfg ((if selecting (task ?s) then [] else [Work]) @ concat (replicate k send_round) @ [Exit, Exit, Exit]) ?s = Some t"
      by blast
    with send_rounds show ?thesis
      by (intro exI [where x = "(if selecting (task ?s) then [] else [Work]) @ concat (replicate k send_round) @ [Exit, Exit, Exit]"])
        (auto simp: send_rounds simp del: run.simps)
  next
    case False
    from tokio.exit_finishes [OF assms(2) app(1) False] obtain k t where "k \<le> 3" "run ?R ?cfg (replicate k Exit) ?s = Some t"
      "finished (task t)" by blast
    then show ?thesis
      by (intro exI [where x = "replicate k Exit"]) (auto simp: list_all_iff)
  qed
  then obtain acts t where "run ?R ?cfg acts ?s = Some t" "list_all needs_nothing acts" "finished (task t)"
    "length acts \<le> 2 * ?n + 6" by blast
  with run_at_conn [OF this(1,2) assms(3)] assms(3) show ?thesis
    by (intro exI [where x = acts] exI [where x = "s\<lparr>conns := (conns s)[a := (?cfg, t)]\<rparr>"]) (simp del: app_run.simps)
qed

lemma unused_connection_finishes_witness:
  "\<exists>s acts s'. app_run demo_env [demo_open, AppSplit 0, AppTx 0 (SendUnconfirmed (Text ''a'')), AppDropTx 0] (app_start 0) = Some s
     \<and> length (rx_halves s) = 1 \<and> active (task (snd (conns s ! 0)))
     \<and> app_run demo_env (map (AppStep 0) acts) s = Some s' \<and> finished (task (snd (conns s' ! 0)))"
proof -
  obtain s where s: "app_run demo_env [demo_open, AppSplit 0, AppTx 0 (SendUnconfirmed (Text ''a'')), AppDropTx 0] (app_start 0) = Some s"
    "0 < length (conns s)" "wholes s = []" "tx_halves s = []" "length (rx_halves s) = 1" "active (task (snd (conns s ! 0)))"
    by (simp add: app_eval eval_simps)
  have "tokio (app_runtime demo_env) id id id" using reference_runtime_tokio by (simp add: demo_env_def)
  from unused_connection_finishes [OF app_run_reachable [OF app_reachable.start s(1)] this s(2)] s show ?thesis
    by (auto simp del: app_run.simps)
qed

end
