(* ===== verification/Echo_Format.thy ===== *)
theory Echo_Format
  imports Codecs "HOL-Library.List_Lexorder" "HOL-Library.Char_ord"
begin

text \<open>
  The control messages of the mock servers (\<open>EchoControlMessage\<close> of \<open>src/mock_server.rs\<close>) with the
  order that \<open>derive(PartialOrd)\<close> gives them, and concrete JSON and MessagePack formats for them.

  The two formats are instances of the serialiser parameters of \<open>Codecs\<close>, for the interpretations of
  its locales and for examples: they write what serde's externally tagged enums look like in the two
  formats (a string for a unit variant, a map with one entry for a newtype variant) and read exactly
  what they write. Nothing in the development depends on them.
\<close>

section \<open>Control messages\<close>

datatype echo_control_message =
    EchoMessage string
  | EchoSendPing
  | EchoClose
  | EchoAbort

text \<open>The derived order: by variant in the order of declaration, then by the field.\<close>

fun variant :: "echo_control_message \<Rightarrow> nat" where
  "variant (EchoMessage _) = 0"
| "variant EchoSendPing = 1"
| "variant EchoClose = 2"
| "variant EchoAbort = 3"

fun field :: "echo_control_message \<Rightarrow> string" where
  "field (EchoMessage s) = s"
| "field _ = []"

lemma variant_field: "variant a = variant b \<Longrightarrow> field a = field b \<Longrightarrow> a = b"
  by (cases a; cases b) auto

instantiation echo_control_message :: linorder
begin

definition less_eq_echo_control_message :: "echo_control_message \<Rightarrow> echo_control_message \<Rightarrow> bool" where
  "less_eq_echo_control_message a b \<longleftrightarrow>
     variant a < variant b \<or> variant a = variant b \<and> field a \<le> field b"

definition less_echo_control_message :: "echo_control_message \<Rightarrow> echo_control_message \<Rightarrow> bool" where
  "less_echo_control_message a b \<longleftrightarrow>
     variant a < variant b \<or> variant a = variant b \<and> field a < field b"

instance
  by standard (auto simp: less_eq_echo_control_message_def less_echo_control_message_def intro: variant_field)

end

section \<open>JSON\<close>

abbreviation quote :: char where "quote \<equiv> CHR 0x22"
abbreviation backslash :: char where "backslash \<equiv> CHR 0x5C"

definition hex_digits :: string where
  "hex_digits = ''0123456789abcdef''"

fun index_of :: "char \<Rightarrow> string \<Rightarrow> nat option" where
  "index_of c [] = None"
| "index_of c (x # xs) = (if x = c then Some 0 else map_option Suc (index_of c xs))"

lemma index_of_nth: "distinct xs \<Longrightarrow> n < length xs \<Longrightarrow> index_of (xs ! n) xs = Some n"
proof (induction xs arbitrary: n)
  case (Cons x xs)
  then show ?case by (cases n) (auto simp: nth_mem)
qed simp

definition hex :: "nat \<Rightarrow> char" where
  "hex n = hex_digits ! n"

definition unhex :: "char \<Rightarrow> nat option" where
  "unhex c = index_of c hex_digits"

lemma unhex_hex: "n < 16 \<Longrightarrow> unhex (hex n) = Some n"
  unfolding unhex_def hex_def by (rule index_of_nth) (auto simp: hex_digits_def)

text \<open>The short escapes: the escaped character and its letter.\<close>

definition short_escapes :: "(char \<times> char) list" where
  "short_escapes =
     [(quote, quote), (backslash, backslash), (CHR 0x08, CHR ''b''), (CHR 0x09, CHR ''t''),
      (CHR 0x0A, CHR ''n''), (CHR 0x0C, CHR ''f''), (CHR 0x0D, CHR ''r'')]"

definition escape :: "char \<Rightarrow> string" where
  "escape c =
     (case map_of short_escapes c of
        Some e \<Rightarrow> [backslash, e]
      | None \<Rightarrow>
          if of_char c < (32 :: nat)
          then backslash # ''u00'' @ [hex (of_char c div 16), hex (of_char c mod 16)]
          else [c])"

definition read_escape :: "string \<Rightarrow> (char \<times> string) option" where
  "read_escape s =
     (case s of
        [] \<Rightarrow> None
      | e # rest \<Rightarrow>
          (case map_of (map prod.swap short_escapes) e of
             Some c \<Rightarrow> Some (c, rest)
           | None \<Rightarrow>
               (case s of
                  u # z # z' # h # l # rest \<Rightarrow>
                    if [u, z, z'] = ''u00''
                    then (case (unhex h, unhex l) of
                            (Some a, Some b) \<Rightarrow> Some (char_of (16 * a + b), rest)
                          | _ \<Rightarrow> None)
                    else None
                | _ \<Rightarrow> None)))"

lemma read_escape_shorter [termination_simp]: "read_escape s = Some (c, rest) \<Longrightarrow> length rest < length s"
  by (auto simp: read_escape_def split: list.splits option.splits if_splits)

fun unescape :: "string \<Rightarrow> (string \<times> string) option" where
  "unescape [] = None"
| "unescape (c # cs) =
     (if c = quote then Some ([], cs)
      else if c = backslash
      then (case read_escape cs of
              None \<Rightarrow> None
            | Some (d, rest) \<Rightarrow> map_option (apfst (Cons d)) (unescape rest))
      else map_option (apfst (Cons c)) (unescape cs))"

lemma short_escapes_inverse:
  "map_of short_escapes c = Some e \<Longrightarrow> map_of (map prod.swap short_escapes) e = Some c"
  by (auto simp: short_escapes_def split: if_splits)

lemma unescape_escape: "unescape (escape c @ rest) = map_option (apfst (Cons c)) (unescape rest)"
proof (cases "map_of short_escapes c")
  case (Some e)
  then show ?thesis by (simp add: escape_def read_escape_def short_escapes_inverse [OF Some])
next
  case None
  show ?thesis
  proof (cases "of_char c < (32 :: nat)")
    case True
    have "map_of (map prod.swap short_escapes) (CHR ''u'') = None" by (simp add: short_escapes_def)
    moreover have "unhex (hex (of_char c div 16)) = Some (of_char c div 16)"
      "unhex (hex (of_char c mod 16)) = Some (of_char c mod 16)"
      using True by (simp_all add: unhex_hex)
    ultimately have "read_escape (''u00'' @ [hex (of_char c div 16), hex (of_char c mod 16)] @ rest) = Some (c, rest)"
      by (simp add: read_escape_def)
    with None True show ?thesis by (simp add: escape_def)
  next
    case False
    from None have "c \<noteq> quote" "c \<noteq> backslash" by (auto simp: short_escapes_def)
    with None False show ?thesis by (simp add: escape_def)
  qed
qed

lemma unescape_string: "unescape (concat (map escape s) @ quote # rest) = Some (s, rest)"
  by (induction s) (simp_all add: unescape_escape)

definition message_prefix :: string where
  "message_prefix = CHR ''{'' # quote # ''Message'' @ [quote, CHR '':'', quote]"

definition unit_variants :: "(string \<times> echo_control_message) list" where
  "unit_variants = [(''SendPing'', EchoSendPing), (''Close'', EchoClose), (''Abort'', EchoAbort)]"

fun variant_name :: "echo_control_message \<Rightarrow> string" where
  "variant_name (EchoMessage _) = ''Message''"
| "variant_name EchoSendPing = ''SendPing''"
| "variant_name EchoClose = ''Close''"
| "variant_name EchoAbort = ''Abort''"

fun echo_to_string :: "echo_control_message \<Rightarrow> string" where
  "echo_to_string (EchoMessage s) = message_prefix @ concat (map escape s) @ [quote, CHR ''}'']"
| "echo_to_string m = quote # variant_name m @ [quote]"

definition echo_from_str :: "string \<Rightarrow> (echo_control_message, codec_error) result" where
  "echo_from_str t =
     (if take (length message_prefix) t = message_prefix
      then (case unescape (drop (length message_prefix) t) of
              Some (s, rest) \<Rightarrow> if rest = ''}'' then Ok (EchoMessage s) else Err (CodecError ''trailing characters'')
            | None \<Rightarrow> Err (CodecError ''EOF while parsing a string''))
      else (case map_of (map (apfst (\<lambda>n. quote # n @ [quote])) unit_variants) t of
              Some m \<Rightarrow> Ok m
            | None \<Rightarrow> Err (CodecError ''unknown variant'')))"

definition echo_json :: "(echo_control_message, echo_control_message) serde_json" where
  "echo_json =
     \<lparr>to_string = (\<lambda>m. Ok (echo_to_string m)), from_str = echo_from_str,
      from_slice = (\<lambda>bs. echo_from_str (map (\<lambda>b. char_of (unat b)) bs))\<rparr>"

lemma echo_from_str_to_string: "echo_from_str (echo_to_string m) = Ok m"
proof (cases m)
  case (EchoMessage s)
  then show ?thesis using unescape_string [of s "''}''"] by (simp add: echo_from_str_def)
qed (simp_all add: echo_from_str_def message_prefix_def unit_variants_def)

interpretation echo_json: json_format echo_json
  by unfold_locales (auto simp: echo_json_def echo_from_str_to_string)

section \<open>MessagePack\<close>

definition to_bytes :: "string \<Rightarrow> bytes" where
  "to_bytes s = map (\<lambda>c. word_of_nat (of_char c)) s"

definition from_bytes :: "bytes \<Rightarrow> string" where
  "from_bytes bs = map (\<lambda>b. char_of (unat b)) bs"

lemma unat_byte: "n < 256 \<Longrightarrow> unat (word_of_nat n :: byte) = n"
  by (simp add: unat_of_nat take_bit_nat_eq_self)

lemma from_to_bytes: "from_bytes (to_bytes s) = s"
  by (simp add: from_bytes_def to_bytes_def comp_def unat_byte)

lemma length_to_bytes [simp]: "length (to_bytes s) = length s"
  by (simp add: to_bytes_def)

text \<open>Lengths in big-endian order.\<close>

fun be_bytes :: "nat \<Rightarrow> nat \<Rightarrow> bytes" where
  "be_bytes 0 n = []"
| "be_bytes (Suc k) n = be_bytes k (n div 256) @ [word_of_nat (n mod 256)]"

definition be_nat :: "bytes \<Rightarrow> nat" where
  "be_nat bs = foldl (\<lambda>n b. 256 * n + unat b) 0 bs"

lemma length_be_bytes [simp]: "length (be_bytes k n) = k"
  by (induction k arbitrary: n) auto

lemma be_nat_bytes: "n < 256 ^ k \<Longrightarrow> be_nat (be_bytes k n) = n"
proof (induction k arbitrary: n)
  case (Suc k)
  then have "n div 256 < 256 ^ k" by (simp add: less_mult_imp_div_less mult.commute)
  with Suc.IH [of "n div 256"] show ?case
    by (simp add: be_nat_def unat_byte)
qed (simp add: be_nat_def)

text \<open>A string: its length in the smallest of four forms, and its bytes.\<close>

definition pack_str :: "string \<Rightarrow> (bytes, codec_error) result" where
  "pack_str s =
     (let n = length s
      in if n < 32 then Ok (word_of_nat (160 + n) # to_bytes s)
         else if n < 256 ^ 1 then Ok (217 # be_bytes 1 n @ to_bytes s)
         else if n < 256 ^ 2 then Ok (218 # be_bytes 2 n @ to_bytes s)
         else if n < 256 ^ 4 then Ok (219 # be_bytes 4 n @ to_bytes s)
         else Err (CodecError ''string too long''))"

definition take_str :: "nat \<Rightarrow> bytes \<Rightarrow> (string \<times> bytes) option" where
  "take_str n bs = (if length bs < n then None else Some (from_bytes (take n bs), drop n bs))"

definition take_long :: "nat \<Rightarrow> bytes \<Rightarrow> (string \<times> bytes) option" where
  "take_long k bs = take_str (be_nat (take k bs)) (drop k bs)"

definition unpack_str :: "bytes \<Rightarrow> (string \<times> bytes) option" where
  "unpack_str bs =
     (case bs of
        [] \<Rightarrow> None
      | b # rest \<Rightarrow>
          if 160 \<le> unat b \<and> unat b < 192 then take_str (unat b - 160) rest
          else if b = 217 then take_long 1 rest
          else if b = 218 then take_long 2 rest
          else if b = 219 then take_long 4 rest
          else None)"

lemma take_str_to_bytes: "n = length s \<Longrightarrow> take_str n (to_bytes s @ rest) = Some (s, rest)"
  by (simp add: take_str_def from_to_bytes)

lemma take_long_to_bytes:
  "length s < 256 ^ k \<Longrightarrow> take_long k (be_bytes k (length s) @ to_bytes s @ rest) = Some (s, rest)"
  by (simp add: take_long_def be_nat_bytes take_str_to_bytes)

lemma unpack_pack_str:
  assumes "pack_str s = Ok bs"
  shows "unpack_str (bs @ rest) = Some (s, rest)"
proof -
  consider (fixed) "length s < 32" "bs = word_of_nat (160 + length s) # to_bytes s"
    | (str8) "length s < 256 ^ 1" "bs = 217 # be_bytes 1 (length s) @ to_bytes s"
    | (str16) "length s < 256 ^ 2" "bs = 218 # be_bytes 2 (length s) @ to_bytes s"
    | (str32) "length s < 256 ^ 4" "bs = 219 # be_bytes 4 (length s) @ to_bytes s"
    using assms by (auto simp: pack_str_def Let_def simp del: be_bytes.simps split: if_splits)
  then show ?thesis
  proof cases
    case fixed
    then show ?thesis
      using unat_byte [of "160 + length s"] by (simp add: unpack_str_def take_str_to_bytes)
  qed (simp_all add: unpack_str_def take_long_to_bytes del: be_bytes.simps power_one_right)
qed

definition echo_to_vec :: "echo_control_message \<Rightarrow> (bytes, codec_error) result" where
  "echo_to_vec m =
     (case m of
        EchoMessage s \<Rightarrow>
          and_then (pack_str ''Message'') (\<lambda>key. and_then (pack_str s) (\<lambda>bs. Ok (129 # key @ bs)))
      | _ \<Rightarrow> pack_str (variant_name m))"

definition echo_from_slice :: "bytes \<Rightarrow> (echo_control_message, codec_error) result" where
  "echo_from_slice bs =
     (if take 1 bs = [129]
      then (case unpack_str (drop 1 bs) of
              Some (key, rest) \<Rightarrow>
                if key = ''Message''
                then (case unpack_str rest of
                        Some (s, []) \<Rightarrow> Ok (EchoMessage s)
                      | _ \<Rightarrow> Err (CodecError ''invalid value''))
                else Err (CodecError ''unknown variant'')
            | None \<Rightarrow> Err (CodecError ''invalid type''))
      else (case unpack_str bs of
              Some (name, []) \<Rightarrow>
                (case map_of unit_variants name of
                   Some m \<Rightarrow> Ok m
                 | None \<Rightarrow> Err (CodecError ''unknown variant''))
            | _ \<Rightarrow> Err (CodecError ''invalid type'')))"

definition echo_msgpack :: "(echo_control_message, echo_control_message) rmp_serde" where
  "echo_msgpack = \<lparr>to_vec_named = echo_to_vec, rmp_from_slice = echo_from_slice\<rparr>"

lemma echo_from_slice_unit:
  assumes "pack_str (variant_name m) = Ok bs" and "map_of unit_variants (variant_name m) = Some m"
  shows "echo_from_slice bs = Ok m"
proof -
  have "take 1 bs \<noteq> [129]"
    using assms(1) by (cases m) (auto simp: pack_str_def Let_def)
  with assms unpack_pack_str [OF assms(1), of "[]"] show ?thesis by (simp add: echo_from_slice_def)
qed

lemma echo_from_slice_to_vec:
  assumes "echo_to_vec m = Ok bs"
  shows "echo_from_slice bs = Ok m"
proof (cases m)
  case (EchoMessage s)
  with assms obtain key body where k: "pack_str ''Message'' = Ok key" "pack_str s = Ok body"
    and bs: "bs = 129 # key @ body"
    by (auto simp: echo_to_vec_def pack_str_def Let_def split: if_splits)
  with EchoMessage show ?thesis
    using unpack_pack_str [OF k(1), of body] unpack_pack_str [OF k(2), of "[]"]
    by (simp add: echo_from_slice_def bs)
qed (use assms in \<open>auto simp: echo_to_vec_def unit_variants_def intro!: echo_from_slice_unit\<close>)

interpretation echo_msgpack: msgpack_format echo_msgpack
  by unfold_locales (auto simp: echo_msgpack_def echo_from_slice_to_vec)

end
