(* ===== verification/Mock_Server.thy ===== *)
theory Mock_Server
  imports Echo_Format Transport
begin

text \<open>
  The mock servers (\<open>src/mock_server.rs\<close>). A server is a loop over the items of its socket; what it
  does with one item is a function of its own, shared with no other server, as in the source; only
  the spelling of \<open>.await?\<close>, of \<open>.await.unwrap()\<close> and of the loop itself is shared. The loop is
  a partial function, since a peer may talk forever: it returns the result of the server function, a
  panic, or that it waits for the next item.
\<close>

section \<open>Servers\<close>

datatype server_outcome =
    ServerReturned "(bool, ws_error) result"
  | ServerPanicked
  | ServerWaiting bool

text \<open>One turn of the loop: go on with the flag \<open>shutting_down\<close>, or leave.\<close>

datatype turn = Continue bool | Leave server_outcome

text \<open>\<open>sink.send(m).await?\<close>, after which the loop goes on with the given flag.\<close>

definition reply_with :: "'w transport \<Rightarrow> message \<Rightarrow> bool \<Rightarrow> 'w \<Rightarrow> 'w \<times> turn" where
  "reply_with T m shutting_down w =
     (case ws_send T w m of
        (w', Inr _) \<Rightarrow> (w', Continue shutting_down)
      | (w', Inl e) \<Rightarrow> (w', Leave (ServerReturned (Err e))))"

text \<open>\<open>.await.unwrap()\<close>: an error is a panic.\<close>

definition unwrap_or_panic :: "'w \<times> (unit, ws_error) result \<Rightarrow> turn \<Rightarrow> 'w \<times> turn" where
  "unwrap_or_panic r next_turn =
     (case r of (w, Inr _) \<Rightarrow> (w, next_turn) | (w, Inl _) \<Rightarrow> (w, Leave ServerPanicked))"

definition server_close :: message where
  "server_close = Close (Some \<lparr>code = Normal, reason = ''''\<rparr>)"

definition answer_control ::
  "'w transport \<Rightarrow> message \<Rightarrow> echo_control_message \<Rightarrow> bool \<Rightarrow> 'w \<Rightarrow> 'w \<times> turn" where
  "answer_control T original control shutting_down w =
     (case control of
        EchoMessage _ \<Rightarrow> reply_with T original shutting_down w
      | EchoSendPing \<Rightarrow> reply_with T (Ping []) shutting_down w
      | EchoClose \<Rightarrow> reply_with T server_close True w
      | EchoAbort \<Rightarrow> (w, Leave (ServerReturned (Ok True))))"

definition answer_close :: "'w transport \<Rightarrow> bool \<Rightarrow> 'w \<Rightarrow> 'w \<times> turn" where
  "answer_close T shutting_down w =
     (if \<not> shutting_down
      then unwrap_or_panic (ws_close T w) (Leave (ServerReturned (Ok shutting_down)))
      else (w, Leave (ServerReturned (Ok shutting_down))))"

definition echo_turn ::
  "'w transport \<Rightarrow> (echo_control_message, echo_control_message) serde_json
    \<Rightarrow> (message, ws_error) result \<Rightarrow> bool \<Rightarrow> 'w \<Rightarrow> 'w \<times> turn" where
  "echo_turn T J item shutting_down w =
     (case item of
        Inr (Text text) \<Rightarrow>
          (case from_str J text of
             Inl _ \<Rightarrow> (w, Leave ServerPanicked)
           | Inr control \<Rightarrow> answer_control T (Text text) control shutting_down w)
      | Inr (Ping _) \<Rightarrow> unwrap_or_panic (ws_send T w (Pong [])) (Continue shutting_down)
      | Inr (Pong _) \<Rightarrow> (w, Continue shutting_down)
      | Inr (Close _) \<Rightarrow> answer_close T shutting_down w
      | _ \<Rightarrow> (w, Continue shutting_down))"

definition msgpack_answer_control ::
  "'w transport \<Rightarrow> bytes \<Rightarrow> echo_control_message \<Rightarrow> bool \<Rightarrow> 'w \<Rightarrow> 'w \<times> turn" where
  "msgpack_answer_control T bs control shutting_down w =
     (case control of
        EchoMessage _ \<Rightarrow> reply_with T (Binary bs) shutting_down w
      | EchoSendPing \<Rightarrow> reply_with T (Ping []) shutting_down w
      | EchoClose \<Rightarrow> reply_with T (Close (Some \<lparr>code = Normal, reason = ''''\<rparr>)) True w
      | EchoAbort \<Rightarrow> (w, Leave (ServerReturned (Ok True))))"

definition msgpack_answer_close :: "'w transport \<Rightarrow> bool \<Rightarrow> 'w \<Rightarrow> 'w \<times> turn" where
  "msgpack_answer_close T shutting_down w =
     (if \<not> shutting_down
      then unwrap_or_panic (ws_close T w) (Leave (ServerReturned (Ok shutting_down)))
      else (w, Leave (ServerReturned (Ok shutting_down))))"

definition msgpack_echo_turn ::
  "'w transport \<Rightarrow> (echo_control_message, echo_control_message) rmp_serde
    \<Rightarrow> (message, ws_error) result \<Rightarrow> bool \<Rightarrow> 'w \<Rightarrow> 'w \<times> turn" where
  "msgpack_echo_turn T M item shutting_down w =
     (case item of
        Inr (Binary bs) \<Rightarrow>
          (case rmp_from_slice M bs of
             Inl _ \<Rightarrow> (w, Leave ServerPanicked)
           | Inr control \<Rightarrow> msgpack_answer_control T bs control shutting_down w)
      | Inr (Ping _) \<Rightarrow> unwrap_or_panic (ws_send T w (Pong [])) (Continue shutting_down)
      | Inr (Close _) \<Rightarrow> msgpack_answer_close T shutting_down w
      | _ \<Rightarrow> (w, Continue shutting_down))"

partial_function (option) serve ::
  "'w transport \<Rightarrow> ((message, ws_error) result \<Rightarrow> bool \<Rightarrow> 'w \<Rightarrow> 'w \<times> turn) \<Rightarrow> bool \<Rightarrow> 'w
    \<Rightarrow> ('w \<times> server_outcome) option" where
  "serve T turn_of shutting_down w =
     (case ws_next T w of
        Pending \<Rightarrow> Some (w, ServerWaiting shutting_down)
      | Ready (w1, item) \<Rightarrow>
          (case item of
             None \<Rightarrow> Some (w1, ServerReturned (Ok shutting_down))
           | Some message \<Rightarrow>
               (case turn_of message shutting_down w1 of
                  (w2, Leave out) \<Rightarrow> Some (w2, out)
                | (w2, Continue shutting_down') \<Rightarrow> serve T turn_of shutting_down' w2)))"

text \<open>
  The same loop in steps, for a server that runs side by side with its peer: it awaits the next item,
  or has an item in hand and is answering it, which may have to wait for the socket, or is done.
\<close>

datatype server_task =
    Serving bool
  | Handling bool "(message, ws_error) result"
  | Stopped server_outcome

definition after_turn :: "turn \<Rightarrow> server_task" where
  "after_turn t = (case t of Continue shutting_down \<Rightarrow> Serving shutting_down | Leave out \<Rightarrow> Stopped out)"

fun serve_step ::
  "'w transport \<Rightarrow> ((message, ws_error) result \<Rightarrow> bool \<Rightarrow> 'w \<Rightarrow> 'w \<times> turn) \<Rightarrow> server_task \<Rightarrow> 'w
    \<Rightarrow> ('w \<times> server_task) option" where
  "serve_step T turn_of (Serving shutting_down) w =
     (case ws_next T w of
        Pending \<Rightarrow> None
      | Ready (w', None) \<Rightarrow> Some (w', Stopped (ServerReturned (Ok shutting_down)))
      | Ready (w', Some message) \<Rightarrow> Some (w', Handling shutting_down message))"
| "serve_step T turn_of (Handling shutting_down message) w =
     Some (map_prod id after_turn (turn_of message shutting_down w))"
| "serve_step T turn_of (Stopped out) w = None"

text \<open>The server function runs these steps until it has to wait or is done.\<close>

fun serve_from ::
  "'w transport \<Rightarrow> ((message, ws_error) result \<Rightarrow> bool \<Rightarrow> 'w \<Rightarrow> 'w \<times> turn) \<Rightarrow> server_task \<Rightarrow> 'w
    \<Rightarrow> ('w \<times> server_outcome) option" where
  "serve_from T turn_of (Serving shutting_down) w = serve T turn_of shutting_down w"
| "serve_from T turn_of (Handling shutting_down message) w =
     (case turn_of message shutting_down w of
        (w', Leave out) \<Rightarrow> Some (w', out)
      | (w', Continue shutting_down') \<Rightarrow> serve T turn_of shutting_down' w')"
| "serve_from T turn_of (Stopped out) w = Some (w, out)"

lemma serve_by_steps:
  "serve_step T turn_of k w = Some (w', k') \<Longrightarrow> serve_from T turn_of k w = serve_from T turn_of k' w'"
  by (cases k; cases k'; auto simp: after_turn_def serve.simps [of T turn_of _ w]
      split: poll.splits option.splits turn.splits prod.splits)

lemma serve_waits:
  "serve_step T turn_of (Serving sd) w = None \<Longrightarrow> serve T turn_of sd w = Some (w, ServerWaiting sd)"
  by (auto simp: serve.simps [of T turn_of sd w] split: poll.splits option.splits prod.splits)

definition echo_server ::
  "'w transport \<Rightarrow> (echo_control_message, echo_control_message) serde_json
    \<Rightarrow> 'w \<Rightarrow> ('w \<times> server_outcome) option" where
  "echo_server T J w = serve T (echo_turn T J) False w"

definition msgpack_echo_server ::
  "'w transport \<Rightarrow> (echo_control_message, echo_control_message) rmp_serde
    \<Rightarrow> 'w \<Rightarrow> ('w \<times> server_outcome) option" where
  "msgpack_echo_server T M w = serve T (msgpack_echo_turn T M) False w"

record auth_msg =
  action :: string
  token :: string

definition auth_ok :: message where
  "auth_ok = Text (CHR ''{'' # CHR 0x22 # ''status'' @ [CHR 0x22, CHR '':'', CHR 0x22] @ ''authenticated''
     @ [CHR 0x22, CHR ''}''])"

definition auth_error :: message where
  "auth_error = Text (CHR ''{'' # CHR 0x22 # ''status'' @ [CHR 0x22, CHR '':'', CHR 0x22] @ ''error''
     @ [CHR 0x22, CHR ''}''])"

text \<open>
  \<open>auth_echo_server\<close>: only a first item that is text and parses as an \<open>AuthMsg\<close> is looked at. The
  reunited socket is the socket.
\<close>

definition auth_echo_server ::
  "'w transport \<Rightarrow> (echo_control_message, echo_control_message) serde_json
    \<Rightarrow> (string \<Rightarrow> (auth_msg, codec_error) result) \<Rightarrow> 'w \<Rightarrow> ('w \<times> server_outcome) option" where
  "auth_echo_server T J parse_auth w =
     (case ws_next T w of
        Pending \<Rightarrow> Some (w, ServerWaiting False)
      | Ready (w1, item) \<Rightarrow>
          (case item of
             Some (Inr (Text text)) \<Rightarrow>
               (case parse_auth text of
                  Inr auth \<Rightarrow>
                    if action auth = ''auth'' \<and> token auth = ''test-token''
                    then (case ws_send T w1 auth_ok of
                            (w2, Inl e) \<Rightarrow> Some (w2, ServerReturned (Err e))
                          | (w2, Inr _) \<Rightarrow> echo_server T J w2)
                    else (case ws_send T w1 auth_error of
                            (w2, Inl e) \<Rightarrow> Some (w2, ServerReturned (Err e))
                          | (w2, Inr _) \<Rightarrow> Some (w2, ServerReturned (Ok True)))
                | Inl _ \<Rightarrow> echo_server T J w1)
           | _ \<Rightarrow> echo_server T J w1))"

text \<open>
  \<open>get_mock_address\<close>: connections are accepted one after the other, each served to its end before
  the next; the first handler that returns true ends the server, and a failed accept, upgrade or
  handler panics. The model is given the accepted sockets in order.
\<close>

datatype listener_outcome = Listening | ListenerDone | ListenerPanicked | ListenerBlocked

fun serve_connections ::
  "('w \<Rightarrow> ('w \<times> server_outcome) option) \<Rightarrow> ('w, ws_error) result list \<Rightarrow> listener_outcome" where
  "serve_connections handler [] = Listening"
| "serve_connections handler (conn # rest) =
     (case conn of
        Inl _ \<Rightarrow> ListenerPanicked
      | Inr w \<Rightarrow>
          (case handler w of
             Some (_, ServerReturned (Inr done)) \<Rightarrow>
               if done then ListenerDone else serve_connections handler rest
           | Some (_, ServerReturned (Inl _)) \<Rightarrow> ListenerPanicked
           | Some (_, ServerPanicked) \<Rightarrow> ListenerPanicked
           | Some (_, ServerWaiting _) \<Rightarrow> ListenerBlocked
           | None \<Rightarrow> ListenerBlocked))"

text \<open>
  The function itself binds a listener and asks for its address, a failure of which is a panic
  (\<open>None\<close>), spawns the accept loop, and returns the address without waiting for it.
\<close>

definition get_mock_address ::
  "('listener, 'e) result \<Rightarrow> ('listener \<Rightarrow> ('address, 'e) result) \<Rightarrow> ('w \<Rightarrow> ('w \<times> server_outcome) option)
    \<Rightarrow> ('w, ws_error) result list \<Rightarrow> ('address \<times> listener_outcome) option" where
  "get_mock_address bound local_addr socket_handler sockets =
     (case bound of
        Inl _ \<Rightarrow> None
      | Inr listener \<Rightarrow>
          (case local_addr listener of
             Inl _ \<Rightarrow> None
           | Inr server_address \<Rightarrow> Some (server_address, serve_connections socket_handler sockets)))"

lemmas turn_defs = reply_with_def unwrap_or_panic_def answer_control_def answer_close_def
  msgpack_answer_control_def msgpack_answer_close_def echo_turn_def msgpack_echo_turn_def

section \<open>The loop\<close>

text \<open>A turn function that only sends and closes: it keeps a backlog from growing.\<close>

definition keeps_backlog ::
  "('w \<Rightarrow> nat) \<Rightarrow> ((message, ws_error) result \<Rightarrow> bool \<Rightarrow> 'w \<Rightarrow> 'w \<times> turn) \<Rightarrow> bool" where
  "keeps_backlog backlog turn_of \<longleftrightarrow> (\<forall>m sd w. backlog (fst (turn_of m sd w)) \<le> backlog w)"

context finite_backlog
begin

lemma serve_total:
  assumes "keeps_backlog backlog turn_of"
  shows "serve T turn_of sd w \<noteq> None"
proof (induction "backlog w" arbitrary: sd w rule: less_induct)
  case less
  show ?case
  proof (cases "ws_next T w")
    case Pending
    then show ?thesis by (subst serve.simps) simp
  next
    case (Ready p)
    obtain w1 item where p: "p = (w1, item)" by (cases p)
    with Ready backlog_next have w1: "backlog w1 < backlog w" by simp
    show ?thesis
    proof (cases item)
      case None
      with Ready p show ?thesis by (subst serve.simps) simp
    next
      case (Some m)
      obtain w2 t where t: "turn_of m sd w1 = (w2, t)" by (cases "turn_of m sd w1")
      with assms w1 have "backlog w2 < backlog w"
        unfolding keeps_backlog_def by (metis fst_conv order_le_less_trans)
      with less.hyps Ready p Some t show ?thesis
        by (subst serve.simps) (auto split: turn.split)
    qed
  qed
qed

lemma backlog_send_fst: "backlog (fst (ws_send T w m)) \<le> backlog w"
  using backlog_send [OF surjective_pairing] .

lemma backlog_close_fst: "backlog (fst (ws_close T w)) \<le> backlog w"
  using backlog_close [OF surjective_pairing] .

lemma turns_keep_backlog:
  "backlog (fst (reply_with T m sd w)) \<le> backlog w"
  "backlog (fst (unwrap_or_panic (ws_send T w m) t)) \<le> backlog w"
  "backlog (fst (unwrap_or_panic (ws_close T w) t)) \<le> backlog w"
  using backlog_send_fst [of w m] backlog_close_fst [of w]
  by (auto simp: reply_with_def unwrap_or_panic_def split: prod.splits sum.splits)

lemma echo_turns_keep_backlog:
  "keeps_backlog backlog (echo_turn T J)" "keeps_backlog backlog (msgpack_echo_turn T M)"
  by (auto simp: keeps_backlog_def echo_turn_def msgpack_echo_turn_def answer_control_def answer_close_def
      msgpack_answer_control_def msgpack_answer_close_def turns_keep_backlog split: sum.split message.split echo_control_message.split)

end

end
