(* ===== verification/Mock_Spec.thy ===== *)
theory Mock_Spec
  imports Mock_Server
begin

text \<open>
  What the mock servers do: an abstract echo service on control messages, which both the JSON and the
  MessagePack server refine; that they end; where their errors come from; and what the authenticating
  server really requires.
\<close>

section \<open>The abstract echo service\<close>

text \<open>What a client may put on the stream, and what a server does, without the encoding.\<close>

datatype client_item = Control echo_control_message | Protocol message | Broken ws_error | HungUp

datatype server_reply = Echo echo_control_message | Reply message

datatype server_event =
    Got client_item
  | Replied server_reply "(unit, ws_error) result"
  | ClosedSink "(unit, ws_error) result"

text \<open>The outcome of the next operation of the socket: the next of the list, success when it is used up.\<close>

fun outcome :: "(unit, ws_error) result list \<Rightarrow> (unit, ws_error) result \<times> (unit, ws_error) result list" where
  "outcome [] = (Ok (), [])"
| "outcome (r # rs) = (r, rs)"

definition reply_event ::
  "client_item \<Rightarrow> server_reply \<Rightarrow> (unit, ws_error) result \<Rightarrow> (ws_error \<Rightarrow> server_outcome)
    \<Rightarrow> server_event list \<times> server_outcome \<Rightarrow> server_event list \<times> server_outcome" where
  "reply_event x m r on_err continue =
     (case r of
        Inr _ \<Rightarrow> (Got x # Replied m r # fst continue, snd continue)
      | Inl e \<Rightarrow> ([Got x, Replied m r], on_err e))"

fun echo_service ::
  "bool \<Rightarrow> client_item list \<Rightarrow> (unit, ws_error) result list \<Rightarrow> server_event list \<times> server_outcome" where
  "echo_service sd [] rs = ([], ServerWaiting sd)"
| "echo_service sd (x # xs) rs =
     (let (r, rs') = outcome rs in
      case x of
        HungUp \<Rightarrow> ([Got x], ServerReturned (Ok sd))
      | Broken e \<Rightarrow> apfst (Cons (Got x)) (echo_service sd xs rs)
      | Protocol m \<Rightarrow>
          (case m of
             Ping _ \<Rightarrow> reply_event x (Reply (Pong [])) r (\<lambda>_. ServerPanicked) (echo_service sd xs rs')
           | Close _ \<Rightarrow>
               if sd then ([Got x], ServerReturned (Ok True))
               else ([Got x, ClosedSink r], case r of Inr _ \<Rightarrow> ServerReturned (Ok False) | Inl _ \<Rightarrow> ServerPanicked)
           | _ \<Rightarrow> apfst (Cons (Got x)) (echo_service sd xs rs))
      | Control c \<Rightarrow>
          (case c of
             EchoMessage _ \<Rightarrow>
               reply_event x (Echo c) r (\<lambda>e. ServerReturned (Err e)) (echo_service sd xs rs')
           | EchoSendPing \<Rightarrow>
               reply_event x (Reply (Ping [])) r (\<lambda>e. ServerReturned (Err e)) (echo_service sd xs rs')
           | EchoClose \<Rightarrow>
               reply_event x (Reply server_close) r (\<lambda>e. ServerReturned (Err e)) (echo_service True xs rs')
           | EchoAbort \<Rightarrow> ([Got x], ServerReturned (Ok True))))"

section \<open>Refinement\<close>

text \<open>The stream and the record of the wire that an encoding of the control messages gives.\<close>

fun item_of :: "(echo_control_message \<Rightarrow> message) \<Rightarrow> client_item \<Rightarrow> ws_item" where
  "item_of enc (Control c) = Some (Ok (enc c))"
| "item_of enc (Protocol m) = Some (Ok m)"
| "item_of enc (Broken e) = Some (Err e)"
| "item_of enc HungUp = None"

fun reply_of :: "(echo_control_message \<Rightarrow> message) \<Rightarrow> server_reply \<Rightarrow> message" where
  "reply_of enc (Echo c) = enc c"
| "reply_of enc (Reply m) = m"

fun event_of :: "(echo_control_message \<Rightarrow> message) \<Rightarrow> server_event \<Rightarrow> wire_event" where
  "event_of enc (Got x) = Received (item_of enc x)"
| "event_of enc (Replied m r) = Sent (reply_of enc m) r"
| "event_of enc (ClosedSink r) = SinkClosed r"

definition script_of ::
  "(echo_control_message \<Rightarrow> message) \<Rightarrow> client_item list \<Rightarrow> (unit, ws_error) result list \<Rightarrow> script" where
  "script_of enc xs rs = \<lparr>inbox = map (item_of enc) xs, outcomes = rs\<rparr>"

definition observe :: "(('w \<times> wire_event list) \<times> server_outcome) option \<Rightarrow> (wire_event list \<times> server_outcome) option" where
  "observe = map_option (map_prod snd id)"

text \<open>A turn function that serves an encoding of the control messages.\<close>

definition serves ::
  "(echo_control_message \<Rightarrow> message) \<Rightarrow> echo_control_message set
    \<Rightarrow> ((message, ws_error) result \<Rightarrow> bool \<Rightarrow> script \<times> wire_event list \<Rightarrow> (script \<times> wire_event list) \<times> turn) \<Rightarrow> bool" where
  "serves enc valid turn_of \<longleftrightarrow>
     (\<forall>sd w.
        (\<forall>c \<in> valid. turn_of (Ok (enc c)) sd w =
           (case c of
              EchoMessage _ \<Rightarrow> reply_with (logged scripted) (enc c) sd w
            | EchoSendPing \<Rightarrow> reply_with (logged scripted) (Ping []) sd w
            | EchoClose \<Rightarrow> reply_with (logged scripted) server_close True w
            | EchoAbort \<Rightarrow> (w, Leave (ServerReturned (Ok True)))))
      \<and> (\<forall>b. turn_of (Ok (Ping b)) sd w = unwrap_or_panic (ws_send (logged scripted) w (Pong [])) (Continue sd))
      \<and> (\<forall>b. turn_of (Ok (Pong b)) sd w = (w, Continue sd))
      \<and> (\<forall>b. turn_of (Ok (Frame b)) sd w = (w, Continue sd))
      \<and> (\<forall>f. turn_of (Ok (Close f)) sd w =
           (if sd then (w, Leave (ServerReturned (Ok True)))
            else unwrap_or_panic (ws_close (logged scripted) w) (Leave (ServerReturned (Ok False)))))
      \<and> (\<forall>e. turn_of (Err e) sd w = (w, Continue sd)))"

definition item_ok :: "echo_control_message set \<Rightarrow> client_item \<Rightarrow> bool" where
  "item_ok valid x \<longleftrightarrow>
     (case x of Control c \<Rightarrow> c \<in> valid | Protocol m \<Rightarrow> \<not> is_data m | _ \<Rightarrow> True)"

lemma logged_script:
  "ws_send (logged scripted) (script_of enc xs rs, l) m
     = (let (r, rs') = outcome rs in ((script_of enc xs rs', l @ [Sent m r]), r))"
  "ws_close (logged scripted) (script_of enc xs rs, l)
     = (let (r, rs') = outcome rs in ((script_of enc xs rs', l @ [SinkClosed r]), r))"
  "ws_next (logged scripted) (script_of enc (x # xs) rs, l)
     = Ready ((script_of enc xs rs, l @ [Received (item_of enc x)]), item_of enc x)"
  "ws_next (logged scripted) (script_of enc [] rs, l) = Pending"
  by (cases rs; simp add: logged_def scripted_def next_outcome_def script_of_def)+

lemma observe_simps [simp]:
  "observe (Some ((w, l), out)) = Some (l, out)"
  by (simp add: observe_def)

lemma serve_next:
  "serve (logged scripted) turn_of sd (script_of enc (x # xs) rs, l) =
     (case item_of enc x of
        None \<Rightarrow> Some ((script_of enc xs rs, l @ [Received None]), ServerReturned (Ok sd))
      | Some m \<Rightarrow>
          (case turn_of m sd (script_of enc xs rs, l @ [Received (Some m)]) of
             (w2, Leave out) \<Rightarrow> Some (w2, out)
           | (w2, Continue sd') \<Rightarrow> serve (logged scripted) turn_of sd' w2))"
  by (subst serve.simps) (simp add: logged_script split: option.split)

lemma serve_refines:
  assumes "serves enc valid turn_of" and "list_all (item_ok valid) xs"
  shows "observe (serve (logged scripted) turn_of sd (script_of enc xs rs, l))
    = Some (l @ map (event_of enc) (fst (echo_service sd xs rs)), snd (echo_service sd xs rs))"
  using assms(2)
proof (induction sd xs rs arbitrary: l rule: echo_service.induct)
  case (1 sd rs)
  then show ?case by (subst serve.simps) (simp add: logged_script)
next
  case (2 sd x xs rs)
  obtain r rs' where out: "outcome rs = (r, rs')" by (cases "outcome rs")
  note step = assms(1) [unfolded serves_def, rule_format]
  show ?case
  proof (cases x)
    case (Control c)
    with 2 step out show ?thesis
      by (cases c; cases r) (simp_all add: serve_next reply_with_def logged_script reply_event_def item_ok_def)
  next
    case (Protocol m)
    with 2 step out show ?thesis
      by (cases m; cases r) (auto simp: serve_next unwrap_or_panic_def logged_script reply_event_def
          item_ok_def)
  next
    case (Broken e)
    with 2 step out show ?thesis by (simp add: serve_next)
  next
    case HungUp
    with 2 out show ?thesis by (simp add: serve_next)
  qed
qed

text \<open>The frames and the encodable messages of a codec for control messages.\<close>

definition frame_of :: "(echo_control_message, echo_control_message) codec \<Rightarrow> echo_control_message \<Rightarrow> message" where
  "frame_of C c = (case encode C c of Inr m \<Rightarrow> m | Inl _ \<Rightarrow> Text [])"

definition encodable :: "(echo_control_message, echo_control_message) codec \<Rightarrow> echo_control_message set" where
  "encodable C = {c. \<not> is_err (encode C c)}"

lemma encodable_frame: "c \<in> encodable C \<Longrightarrow> encode C c = Ok (frame_of C c)"
  by (cases "encode C c") (auto simp: encodable_def frame_of_def)

lemma json_serves:
  assumes "json_format J"
  shows "serves (frame_of (json_codec J)) (encodable (json_codec J)) (echo_turn (logged scripted) J)"
proof -
  have "\<exists>t. frame_of (json_codec J) c = Text t \<and> from_str J t = Ok c" if "c \<in> encodable (json_codec J)" for c
  proof -
    from encodable_frame [OF that] obtain t where "to_string J c = Ok t" "frame_of (json_codec J) c = Text t"
      by (auto simp: json_codec_def json_encode_Ok)
    with json_format.from_str_to_string [OF assms] show ?thesis by blast
  qed
  then show ?thesis by (fastforce simp: serves_def echo_turn_def answer_control_def answer_close_def
      split: echo_control_message.split)
qed

lemma msgpack_serves:
  assumes "msgpack_format M"
  shows "serves (frame_of (msgpack_codec M)) (encodable (msgpack_codec M)) (msgpack_echo_turn (logged scripted) M)"
proof -
  have "\<exists>bs. frame_of (msgpack_codec M) c = Binary bs \<and> rmp_from_slice M bs = Ok c" if "c \<in> encodable (msgpack_codec M)" for c
  proof -
    from encodable_frame [OF that] obtain bs where "to_vec_named M c = Ok bs" "frame_of (msgpack_codec M) c = Binary bs"
      by (auto simp: msgpack_codec_def msgpack_encode_Ok)
    with msgpack_format.from_slice_to_vec [OF assms] show ?thesis by blast
  qed
  then show ?thesis by (fastforce simp: serves_def msgpack_echo_turn_def msgpack_answer_control_def
      msgpack_answer_close_def server_close_def split: echo_control_message.split)
qed

text \<open>
  C36. Both echo servers implement the same abstract service: fed with the same control messages in
  their own encoding, the same protocol frames and errors, and a socket that behaves the same, they
  read and send the same things in the same order, up to the encoding, and end in the same way.
\<close>

theorem echo_servers_agree:
  assumes "json_format J" and "msgpack_format M"
    and "list_all (item_ok (encodable (json_codec J) \<inter> encodable (msgpack_codec M))) xs"
  shows "observe (echo_server (logged scripted) J (script_of (frame_of (json_codec J)) xs rs, []))
        = Some (map (event_of (frame_of (json_codec J))) (fst (echo_service False xs rs)), snd (echo_service False xs rs))
    \<and> observe (msgpack_echo_server (logged scripted) M (script_of (frame_of (msgpack_codec M)) xs rs, []))
        = Some (map (event_of (frame_of (msgpack_codec M))) (fst (echo_service False xs rs)), snd (echo_service False xs rs))"
proof -
  have "item_ok A x" "item_ok B x" if "item_ok (A \<inter> B) x" for A B x
    using that by (auto simp: item_ok_def split: client_item.splits)
  then have "list_all (item_ok (encodable (json_codec J))) xs" "list_all (item_ok (encodable (msgpack_codec M))) xs"
    using assms(3) unfolding list_all_iff by blast+
  with serve_refines [OF json_serves [OF assms(1)], of xs False rs "[]"]
    serve_refines [OF msgpack_serves [OF assms(2)], of xs False rs "[]"]
  show ?thesis by (simp add: echo_server_def msgpack_echo_server_def)
qed

lemma echo_encodable: "EchoMessage ''hi'' \<in> encodable (json_codec echo_json) \<inter> encodable (msgpack_codec echo_msgpack)"
  by (simp add: encodable_def json_codec_def json_encode_def echo_json_def msgpack_codec_def msgpack_encode_def
      echo_msgpack_def echo_to_vec_def pack_str_def)

lemma echo_servers_agree_witness:
  "\<exists>j m. encode (json_codec echo_json) (EchoMessage ''hi'') = Ok j
    \<and> encode (msgpack_codec echo_msgpack) (EchoMessage ''hi'') = Ok m
    \<and> observe (echo_server (logged scripted) echo_json
        (script_of (frame_of (json_codec echo_json)) [Protocol (Ping []), Control (EchoMessage ''hi''), HungUp] [], []))
      = Some ([Received (Some (Ok (Ping []))), Sent (Pong []) (Ok ()), Received (Some (Ok j)), Sent j (Ok ()),
               Received None], ServerReturned (Ok False))
    \<and> observe (msgpack_echo_server (logged scripted) echo_msgpack
        (script_of (frame_of (msgpack_codec echo_msgpack)) [Protocol (Ping []), Control (EchoMessage ''hi''), HungUp] [], []))
      = Some ([Received (Some (Ok (Ping []))), Sent (Pong []) (Ok ()), Received (Some (Ok m)), Sent m (Ok ()),
               Received None], ServerReturned (Ok False))"
proof -
  have "list_all (item_ok (encodable (json_codec echo_json) \<inter> encodable (msgpack_codec echo_msgpack)))
      [Protocol (Ping []), Control (EchoMessage ''hi''), HungUp]"
    using echo_encodable by (simp add: item_ok_def)
  from echo_servers_agree [OF echo_json.json_format_axioms echo_msgpack.msgpack_format_axioms this, of "[]"]
    encodable_frame [of "EchoMessage ''hi''"] echo_encodable
  show ?thesis by (auto simp: reply_event_def)
qed

lemma echo_service_messages:
  "echo_service False (map (\<lambda>s. Control (EchoMessage s)) ss) []
     = (concat (map (\<lambda>s. [Got (Control (EchoMessage s)), Replied (Echo (EchoMessage s)) (Ok ())]) ss), ServerWaiting False)"
  by (induction ss) (simp_all add: reply_event_def)

lemma sends_echoes:
  "sends (map (event_of enc) (concat (map (\<lambda>s. [Got (Control (EchoMessage s)), Replied (Echo (EchoMessage s)) (Ok ())]) ss)))
     = map (\<lambda>s. (enc (EchoMessage s), Ok ())) ss"
  by (induction ss) simp_all

text \<open>
  The round trip a client sees: when it sends any strings as \<open>Message\<close> controls through the
  JSON codec, over a socket that accepts everything, the server sends back as many frames, in order,
  and each decodes to the value sent.
\<close>

theorem echo_round_trip:
  assumes "json_format J" and "\<And>s. s \<in> set ss \<Longrightarrow> EchoMessage s \<in> encodable (json_codec J)"
  shows "\<exists>l. observe (echo_server (logged scripted) J
        (script_of (frame_of (json_codec J)) (map (\<lambda>s. Control (EchoMessage s)) ss) [], [])) = Some (l, ServerWaiting False)
    \<and> map (\<lambda>(frame, r). (decode (json_codec J) frame, r)) (sends l) = map (\<lambda>s. (Ok (EchoMessage s), Ok ())) ss"
proof -
  let ?C = "json_codec J"
  have "list_all (item_ok (encodable ?C)) (map (\<lambda>s. Control (EchoMessage s)) ss)"
    using assms(2) by (auto simp: list_all_iff item_ok_def)
  from serve_refines [OF json_serves [OF assms(1)] this, of False "[]" "[]"]
  have run: "observe (echo_server (logged scripted) J (script_of (frame_of ?C) (map (\<lambda>s. Control (EchoMessage s)) ss) [], []))
      = Some (map (event_of (frame_of ?C))
          (concat (map (\<lambda>s. [Got (Control (EchoMessage s)), Replied (Echo (EchoMessage s)) (Ok ())]) ss)), ServerWaiting False)"
    by (simp add: echo_server_def echo_service_messages)
  have "decode ?C (frame_of ?C (EchoMessage s)) = Ok (EchoMessage s)" if "s \<in> set ss" for s
    by (rule lossless_codec.decode_encode [OF json_format.lossless [OF assms(1)] encodable_frame [OF assms(2) [OF that]]])
  then have "map (\<lambda>(frame, r). (decode ?C frame, r)) (map (\<lambda>s. (frame_of ?C (EchoMessage s), Ok ())) ss)
      = map (\<lambda>s. (Ok (EchoMessage s), Ok () :: (unit, ws_error) result)) ss"
    by simp
  with run show ?thesis by (simp add: sends_echoes)
qed

lemma echo_round_trip_witness:
  "\<exists>l. observe (echo_server (logged scripted) echo_json
        (script_of (frame_of (json_codec echo_json)) [Control (EchoMessage ''hi'')] [], [])) = Some (l, ServerWaiting False)
    \<and> map (\<lambda>(frame, r). (decode (json_codec echo_json) frame, r)) (sends l) = [(Ok (EchoMessage ''hi''), Ok ())]"
  using echo_round_trip [OF echo_json.json_format_axioms, of "[''hi'']"] echo_encodable by simp

section \<open>Termination\<close>

text \<open>
  The servers end: on a socket with a finite backlog all three return, panic, or come to wait for
  the peer; and the authenticating server adds nothing that could loop.
\<close>

theorem echo_servers_terminate:
  assumes "finite_backlog T backlog"
  shows "echo_server T J w \<noteq> None \<and> msgpack_echo_server T M w \<noteq> None \<and> auth_echo_server T J parse_auth w \<noteq> None"
proof -
  note total = finite_backlog.serve_total [OF assms finite_backlog.echo_turns_keep_backlog(1) [OF assms]]
    finite_backlog.serve_total [OF assms finite_backlog.echo_turns_keep_backlog(2) [OF assms]]
  then show ?thesis
    by (auto simp: echo_server_def msgpack_echo_server_def auth_echo_server_def
        split: poll.splits option.splits sum.splits message.splits prod.splits)
qed

lemma echo_servers_terminate_witness:
  "echo_server scripted echo_json \<lparr>inbox = [Some (Ok (Ping [])), Some (Ok (Text ''x''))], outcomes = []\<rparr> \<noteq> None"
  using echo_servers_terminate [OF scripted.finite_backlog_axioms] by blast

section \<open>Errors\<close>

lemma serve_error_turn:
  assumes "serve T turn_of sd w = Some res" and "snd res = ServerReturned (Err e)"
  shows "\<exists>m sd' w'. turn_of m sd' w' = (fst res, Leave (ServerReturned (Err e)))"
  using assms
proof (induction T turn_of sd w res rule: serve.raw_induct [rotated 1, consumes 1, case_names 1])
  case (1 f T turn_of sd w res)
  from 1(2) show ?case
  proof (cases "ws_next T w")
    case (Ready p)
    obtain w1 item where p: "p = (w1, item)" by (cases p)
    show ?thesis
    proof (cases item)
      case (Some m)
      obtain w2 t where t: "turn_of m sd w1 = (w2, t)" by (cases "turn_of m sd w1")
      show ?thesis
      proof (cases t)
        case (Continue sd')
        with 1 Ready p Some t show ?thesis by simp
      next
        case (Leave out)
        with 1 Ready p Some t have "turn_of m sd w1 = (fst res, Leave (ServerReturned (Err e)))" by auto
        then show ?thesis by blast
      qed
    qed (use 1 Ready p in auto)
  qed (use 1 in auto)
qed

lemma reply_with_error:
  "reply_with (logged T) m sd w = (w', Leave (ServerReturned (Err e))) \<Longrightarrow> \<exists>f. snd w' = snd w @ [Sent f (Err e)]"
  by (auto simp: reply_with_def logged_def split_beta split: sum.splits)

lemma unwrap_no_error: "unwrap_or_panic r t = (w', Leave (ServerReturned (Err e))) \<Longrightarrow> t = Leave (ServerReturned (Err e))"
  by (auto simp: unwrap_or_panic_def split: prod.splits sum.splits)

lemma turn_error:
  "echo_turn (logged T) J m sd w = (w', Leave (ServerReturned (Err e))) \<Longrightarrow> \<exists>f. snd w' = snd w @ [Sent f (Err e)]"
  "msgpack_echo_turn (logged T) M m sd w = (w', Leave (ServerReturned (Err e))) \<Longrightarrow> \<exists>f. snd w' = snd w @ [Sent f (Err e)]"
  by (auto simp: echo_turn_def msgpack_echo_turn_def answer_control_def answer_close_def
      msgpack_answer_control_def msgpack_answer_close_def split: sum.splits message.splits echo_control_message.splits if_splits
      dest: reply_with_error dest!: unwrap_no_error)

text \<open>
  An echo server reports an error only when one of its own sends failed, and then it is that
  send's error and the last thing that happened on the socket. Errors of the stream, such as the
  socket being closed unexpectedly, are never reported.
\<close>

theorem echo_error_source:
  assumes "echo_server (logged T) J w = Some (w', ServerReturned (Err e))
    \<or> msgpack_echo_server (logged T) M w = Some (w', ServerReturned (Err e))"
  shows "\<exists>l f. snd w' = l @ [Sent f (Err e)]"
  using assms
proof
  assume "echo_server (logged T) J w = Some (w', ServerReturned (Err e))"
  from serve_error_turn [OF this [unfolded echo_server_def]] obtain m sd w1 where
    "echo_turn (logged T) J m sd w1 = (w', Leave (ServerReturned (Err e)))" by auto
  then show ?thesis by (blast dest: turn_error(1))
next
  assume "msgpack_echo_server (logged T) M w = Some (w', ServerReturned (Err e))"
  from serve_error_turn [OF this [unfolded msgpack_echo_server_def]] obtain m sd w1 where
    "msgpack_echo_turn (logged T) M m sd w1 = (w', Leave (ServerReturned (Err e)))" by auto
  then show ?thesis by (blast dest: turn_error(2))
qed

lemma echo_error_source_witness:
  "\<exists>w' l f. echo_server (logged scripted) echo_json
        (script_of (frame_of (json_codec echo_json)) [Broken (WsError ''reset''), Control EchoSendPing] [Err (WsError ''gone'')], [])
      = Some (w', ServerReturned (Err (WsError ''gone'')))
    \<and> snd w' = l @ [Sent f (Err (WsError ''gone''))]"
proof -
  let ?w = "(script_of (frame_of (json_codec echo_json)) [Broken (WsError ''reset''), Control EchoSendPing] [Err (WsError ''gone'')], [])"
  have "EchoSendPing \<in> encodable (json_codec echo_json)"
    by (simp add: encodable_def json_codec_def json_encode_def echo_json_def)
  then have "observe (echo_server (logged scripted) echo_json ?w)
      = Some (map (event_of (frame_of (json_codec echo_json)))
          [Got (Broken (WsError ''reset'')), Got (Control EchoSendPing), Replied (Reply (Ping [])) (Err (WsError ''gone''))],
        ServerReturned (Err (WsError ''gone'')))"
    using serve_refines [OF json_serves [OF echo_json.json_format_axioms],
        of "[Broken (WsError ''reset''), Control EchoSendPing]" False "[Err (WsError ''gone'')]" "[]"]
    by (simp add: echo_server_def item_ok_def reply_event_def)
  then obtain w' where "echo_server (logged scripted) echo_json ?w = Some (w', ServerReturned (Err (WsError ''gone'')))"
    by (auto simp: observe_def)
  with echo_error_source [OF disjI1 [OF this]] show ?thesis by blast
qed

section \<open>Authentication\<close>

text \<open>
  C37. What the authenticating server really requires, by its first item. A well-formed request with
  the right action and token is answered with the ok status and the client is served by the echo
  server from then on (a failed answer is returned as the server's error); a well-formed request with
  a wrong action or token is answered with the error status and the server is done; any other first
  item (a text that does not parse, another frame, an error, the end) is swallowed without any reply,
  and the client is served as if it had authenticated.
\<close>

theorem auth_gate:
  assumes "ws_next (logged T) w = Ready (w1, item)"
  shows "(\<forall>text auth. item = Some (Ok (Text text)) \<and> parse_auth text = Ok auth
        \<and> action auth = ''auth'' \<and> token auth = ''test-token''
        \<longrightarrow> (\<exists>w' r. snd w' = snd w @ [Received item, Sent auth_ok r]
               \<and> auth_echo_server (logged T) J parse_auth w
                 = (case r of Inl e \<Rightarrow> Some (w', ServerReturned (Err e)) | Inr _ \<Rightarrow> echo_server (logged T) J w')))
    \<and> (\<forall>text auth. item = Some (Ok (Text text)) \<and> parse_auth text = Ok auth
        \<and> \<not> (action auth = ''auth'' \<and> token auth = ''test-token'')
        \<longrightarrow> (\<exists>w' r. snd w' = snd w @ [Received item, Sent auth_error r]
               \<and> auth_echo_server (logged T) J parse_auth w
                 = Some (w', ServerReturned (case r of Inl e \<Rightarrow> Err e | Inr _ \<Rightarrow> Ok True))))
    \<and> ((\<forall>text auth. item = Some (Ok (Text text)) \<longrightarrow> parse_auth text \<noteq> Ok auth)
        \<longrightarrow> auth_echo_server (logged T) J parse_auth w = echo_server (logged T) J w1
          \<and> snd w1 = snd w @ [Received item])"
proof (intro conjI allI impI)
  have log: "snd w1 = snd w @ [Received item]" by (rule logged.log_next [OF assms])
  then have sent: "ws_send (logged T) w1 m = (w2, r) \<Longrightarrow> snd w2 = snd w @ [Received item, Sent m r]" for m w2 r
    using logged.log_send by fastforce
  show "\<exists>w' r. snd w' = snd w @ [Received item, Sent auth_ok r]
      \<and> auth_echo_server (logged T) J parse_auth w
        = (case r of Inl e \<Rightarrow> Some (w', ServerReturned (Err e)) | Inr _ \<Rightarrow> echo_server (logged T) J w')"
    if first: "item = Some (Ok (Text t)) \<and> parse_auth t = Ok auth \<and> action auth = ''auth'' \<and> token auth = ''test-token''"
    for t auth
  proof -
    obtain w2 r where send: "ws_send (logged T) w1 auth_ok = (w2, r)" by (cases "ws_send (logged T) w1 auth_ok")
    with first assms sent [OF send] show ?thesis
      by (intro exI [where x = w2] exI [where x = r]) (auto simp: auth_echo_server_def split: sum.split)
  qed
  show "\<exists>w' r. snd w' = snd w @ [Received item, Sent auth_error r]
      \<and> auth_echo_server (logged T) J parse_auth w
        = Some (w', ServerReturned (case r of Inl e \<Rightarrow> Err e | Inr _ \<Rightarrow> Ok True))"
    if first: "item = Some (Ok (Text t)) \<and> parse_auth t = Ok auth \<and> \<not> (action auth = ''auth'' \<and> token auth = ''test-token'')"
    for t auth
  proof -
    obtain w2 r where send: "ws_send (logged T) w1 auth_error = (w2, r)" by (cases "ws_send (logged T) w1 auth_error")
    with first assms sent [OF send] show ?thesis
      by (intro exI [where x = w2] exI [where x = r]) (auto simp: auth_echo_server_def split: sum.split)
  qed
  show "auth_echo_server (logged T) J parse_auth w = echo_server (logged T) J w1"
    if "\<forall>text auth. item = Some (Ok (Text text)) \<longrightarrow> parse_auth text \<noteq> Ok auth"
    using that assms by (auto simp: auth_echo_server_def split: option.split sum.split message.split)
  show "snd w1 = snd w @ [Received item]" by (rule log)
qed

lemma auth_gate_witness:
  "\<exists>l. observe (auth_echo_server (logged scripted) echo_json (\<lambda>_. Err (CodecError ''expected value''))
        (script_of (frame_of (json_codec echo_json)) [Protocol (Binary []), Control (EchoMessage ''hi'')] [], []))
      = Some (l, ServerWaiting False)
    \<and> map fst (sends l) = [frame_of (json_codec echo_json) (EchoMessage ''hi'')]"
proof -
  let ?enc = "frame_of (json_codec echo_json)"
  let ?w1 = "(script_of ?enc [Control (EchoMessage ''hi'')] [], [Received (Some (Ok (Binary [])))])"
  have "ws_next (logged scripted) (script_of ?enc [Protocol (Binary []), Control (EchoMessage ''hi'')] [], [])
      = Ready (?w1, Some (Ok (Binary [])))"
    by (simp add: logged_script)
  from auth_gate [OF this, of "\<lambda>_. Err (CodecError ''expected value'')" echo_json]
  have "auth_echo_server (logged scripted) echo_json (\<lambda>_. Err (CodecError ''expected value''))
      (script_of ?enc [Protocol (Binary []), Control (EchoMessage ''hi'')] [], [])
    = echo_server (logged scripted) echo_json ?w1" by simp
  then show ?thesis
    using serve_refines [OF json_serves [OF echo_json.json_format_axioms],
        of "[Control (EchoMessage ''hi'')]" False "[]" "[Received (Some (Ok (Binary [])))]"] echo_encodable
    by (simp add: echo_server_def item_ok_def reply_event_def)
qed

section \<open>The listener\<close>

text \<open>A connection that was accepted and served by a handler that returned false.\<close>

definition refused_stop ::
  "('w \<Rightarrow> ('w \<times> server_outcome) option) \<Rightarrow> ('w, ws_error) result \<Rightarrow> bool" where
  "refused_stop handler conn \<longleftrightarrow> (\<exists>w w'. conn = Ok w \<and> handler w = Some (w', ServerReturned (Ok False)))"

definition stops_at :: "('w \<Rightarrow> ('w \<times> server_outcome) option) \<Rightarrow> ('w, ws_error) result \<Rightarrow> bool" where
  "stops_at handler conn \<longleftrightarrow> (\<exists>w w'. conn = Ok w \<and> handler w = Some (w', ServerReturned (Ok True)))"

lemma serve_connections_Cons:
  "serve_connections handler (conn # conns) = ListenerDone \<longleftrightarrow>
     stops_at handler conn \<or> refused_stop handler conn \<and> serve_connections handler conns = ListenerDone"
  by (auto simp: stops_at_def refused_stop_def split: sum.split option.split server_outcome.split)

lemma first_after_Cons:
  "(\<exists>earlier y later. x # xs = earlier @ y # later \<and> P y \<and> list_all Q earlier) \<longleftrightarrow>
     P x \<or> Q x \<and> (\<exists>earlier y later. xs = earlier @ y # later \<and> P y \<and> list_all Q earlier)"
  (is "?l \<longleftrightarrow> ?r")
proof
  assume ?l
  then obtain earlier y later where l: "x # xs = earlier @ y # later" "P y" "list_all Q earlier" by blast
  then show ?r by (cases earlier) auto
next
  assume ?r
  then show ?l
  proof
    assume "P x"
    then show ?l by (intro exI [where x = "[]"]) simp
  next
    assume "Q x \<and> (\<exists>earlier y later. xs = earlier @ y # later \<and> P y \<and> list_all Q earlier)"
    then obtain earlier y later where "Q x" "xs = earlier @ y # later" "P y" "list_all Q earlier" by blast
    then show ?l by (intro exI [where x = "x # earlier"]) auto
  qed
qed

text \<open>
  The mock listener serves connections in order and stops exactly at the first handler that
  returns true, provided all before it returned false: it is done if and only if there is such a
  connection.
\<close>

theorem listener_stops:
  "serve_connections handler conns = ListenerDone \<longleftrightarrow>
     (\<exists>earlier conn later. conns = earlier @ conn # later \<and> stops_at handler conn
        \<and> list_all (refused_stop handler) earlier)"
proof (induction conns)
  case (Cons conn conns)
  then show ?case by (simp only: serve_connections_Cons first_after_Cons)
qed simp

lemma listener_stops_witness:
  "\<exists>conns. serve_connections (echo_server scripted echo_json) conns = ListenerDone \<and> length conns = 2"
proof -
  let ?enc = "frame_of (json_codec echo_json)"
  let ?conns = "[Ok \<lparr>inbox = [None], outcomes = []\<rparr>, Ok \<lparr>inbox = [item_of ?enc (Control EchoAbort)], outcomes = []\<rparr>]"
  have "\<exists>w'. echo_server scripted echo_json \<lparr>inbox = [item_of ?enc (Control EchoAbort)], outcomes = []\<rparr>
      = Some (w', ServerReturned (Ok True))"
    unfolding echo_server_def using echo_from_str_to_string [of EchoAbort]
    by (subst serve.simps) (simp add: scripted_def frame_of_def json_codec_def json_encode_def echo_json_def
        echo_turn_def answer_control_def)
  moreover have "\<exists>w'. echo_server scripted echo_json \<lparr>inbox = [None], outcomes = []\<rparr> = Some (w', ServerReturned (Ok False))"
    unfolding echo_server_def by (subst serve.simps) (simp add: scripted_def)
  ultimately have "serve_connections (echo_server scripted echo_json) ?conns = ListenerDone"
    unfolding listener_stops by (intro exI [where x = "[Ok \<lparr>inbox = [None], outcomes = []\<rparr>]"]) (auto simp: refused_stop_def stops_at_def)
  then show ?thesis by (intro exI [where x = ?conns]) simp
qed

end
