(* ===== verification/Debug_Output.thy ===== *)
theory Debug_Output
  imports Client
begin

text \<open>
  The rest of what the crate implements for its types: constructors, \<open>Default\<close> and \<open>Clone\<close> of the
  codecs, and \<open>Debug\<close> output, in the form that the standard library's formatter gives \<open>{:?}\<close>. The codecs
  of the crate have no state, so that every one of a kind is the same; of a connection only the URL is
  shown, and \<open>..\<close> stands for the rest.
\<close>

section \<open>Constructors of the codecs\<close>

definition json_codec_new :: "('tx, 'rx) serde_json \<Rightarrow> ('tx, 'rx) codec" where
  "json_codec_new J = json_codec J"

definition json_codec_default :: "('tx, 'rx) serde_json \<Rightarrow> ('tx, 'rx) codec" where
  "json_codec_default J = json_codec_new J"

definition json_codec_clone :: "('tx, 'rx) codec \<Rightarrow> ('tx, 'rx) codec" where
  "json_codec_clone self = self"

definition json_codec_fmt :: "('tx, 'rx) codec \<Rightarrow> string" where
  "json_codec_fmt self = ''JsonCodec''"

definition msgpack_codec_new :: "('tx, 'rx) rmp_serde \<Rightarrow> ('tx, 'rx) codec" where
  "msgpack_codec_new M = msgpack_codec M"

definition msgpack_codec_default :: "('tx, 'rx) rmp_serde \<Rightarrow> ('tx, 'rx) codec" where
  "msgpack_codec_default M = msgpack_codec_new M"

definition msgpack_codec_clone :: "('tx, 'rx) codec \<Rightarrow> ('tx, 'rx) codec" where
  "msgpack_codec_clone self = self"

definition msgpack_codec_fmt :: "('tx, 'rx) codec \<Rightarrow> string" where
  "msgpack_codec_fmt self = ''MsgPackCodec''"

definition raw_codec_new :: "(message, message) codec" where
  "raw_codec_new = raw_codec"

text \<open>Of \<open>RawCodec\<close> both are derived.\<close>

definition raw_codec_clone :: "(message, message) codec \<Rightarrow> (message, message) codec" where
  "raw_codec_clone self = self"

definition raw_codec_fmt :: "(message, message) codec \<Rightarrow> string" where
  "raw_codec_fmt self = ''RawCodec''"

section \<open>Debug output of the handles\<close>

text \<open>\<open>debug_struct(name).field(..)...finish_non_exhaustive()\<close>.\<close>

fun debug_fields :: "(string \<times> string) list \<Rightarrow> string" where
  "debug_fields [] = ''''"
| "debug_fields ((name, value) # rest) = name @ '': '' @ value @ '', '' @ debug_fields rest"

definition debug_non_exhaustive :: "string \<Rightarrow> (string \<times> string) list \<Rightarrow> string" where
  "debug_non_exhaustive name shown = name @ '' { '' @ debug_fields shown @ ''.. }''"

text \<open>The \<open>Debug\<close> of a URL is the \<open>url\<close> crate's.\<close>

definition socketeer_fmt :: "(url \<Rightarrow> string) \<Rightarrow> ('tx, 'rx, 'hd, 'h) socketeer \<Rightarrow> string" where
  "socketeer_fmt debug_url self = debug_non_exhaustive ''Socketeer'' [(''url'', debug_url (sk_url self))]"

definition socketeer_tx_fmt :: "('tx, 'rx) socketeer_tx \<Rightarrow> string" where
  "socketeer_tx_fmt self = debug_non_exhaustive ''SocketeerTx'' []"

definition socketeer_rx_fmt :: "(url \<Rightarrow> string) \<Rightarrow> ('tx, 'rx, 'hd, 'h) socketeer_rx \<Rightarrow> string" where
  "socketeer_rx_fmt debug_url self = debug_non_exhaustive ''SocketeerRx'' [(''url'', debug_url (rx_url self))]"

definition reunite_error_fmt :: "('tx, 'rx, 'hd, 'h) reunite_error \<Rightarrow> string" where
  "reunite_error_fmt self = debug_non_exhaustive ''ReuniteError'' []"

lemmas fmt_defs = socketeer_fmt_def socketeer_tx_fmt_def socketeer_rx_fmt_def reunite_error_fmt_def
  debug_non_exhaustive_def

text \<open>
  The output tells the kinds of handles apart, and of a handle it tells the URL and nothing else:
  splitting and reuniting keep what is shown, and two handles look alike only if their URLs do.
\<close>

lemma socketeer_fmt_url:
  "socketeer_fmt debug_url sk = socketeer_fmt debug_url sk' \<longleftrightarrow> debug_url (sk_url sk) = debug_url (sk_url sk')"
  by (simp add: fmt_defs)

lemma socketeer_rx_fmt_split:
  "socketeer_rx_fmt debug_url (snd (split clone sk))
     = ''SocketeerRx { url: '' @ debug_url (sk_url sk) @ '', .. }''"
  by (simp add: fmt_defs split_def)

lemma fmt_kinds:
  "socketeer_fmt debug_url sk \<noteq> socketeer_tx_fmt tx" "socketeer_fmt debug_url sk \<noteq> socketeer_rx_fmt debug_url rx"
  "socketeer_rx_fmt debug_url rx \<noteq> socketeer_tx_fmt tx" "reunite_error_fmt e \<noteq> socketeer_tx_fmt tx"
  by (simp_all add: fmt_defs)

end
