(* ===== verification/Codec_Spec.thy ===== *)
theory Codec_Spec
  imports Echo_Format Configs
begin

text \<open>What the codecs and the connection options promise.\<close>

section \<open>Codecs\<close>

text \<open>
  The codecs speak in data frames: JSON writes text and reads text and binary, MessagePack
  writes and reads binary only, both give any other frame back in \<open>UnexpectedMessageType\<close>, and
  every other failure of theirs is a \<open>Codec\<close> error of the serialiser.
\<close>

theorem codecs_frames:
  "(encode (json_codec J) v = Ok frame \<longrightarrow> (\<exists>t. frame = Text t))
   \<and> (encode (msgpack_codec M) w = Ok frame \<longrightarrow> (\<exists>bs. frame = Binary bs))
   \<and> (decode (json_codec J) frame = Err e \<longrightarrow>
        (if is_data frame then kind_of e = KCodec else e = UnexpectedMessageType frame))
   \<and> (decode (msgpack_codec M) frame = Err e \<longrightarrow>
        (case frame of Binary _ \<Rightarrow> kind_of e = KCodec | _ \<Rightarrow> e = UnexpectedMessageType frame))"
  by (cases frame) (auto simp: json_codec_def msgpack_codec_def json_encode_Ok msgpack_encode_Ok map_err_eq_Inl)

lemma codecs_frames_witness:
  "decode (json_codec echo_json) (Ping []) = Err (UnexpectedMessageType (Ping []))
   \<and> (\<exists>t. json_encode echo_json EchoClose = Ok t \<and> (\<exists>s. t = Text s))"
proof -
  have "decode (json_codec echo_json) (Ping []) = Err (UnexpectedMessageType (Ping []))"
    by (simp add: json_codec_def)
  moreover obtain t where "encode (json_codec echo_json) EchoClose = Ok t"
    by (simp add: json_codec_def json_encode_def echo_json_def)
  ultimately show ?thesis
    using codecs_frames [of echo_json EchoClose t echo_msgpack EchoClose "UnexpectedMessageType (Ping [])"]
    by (simp add: json_codec_def)
qed

section \<open>Options and requests\<close>

text \<open>
  C35. The upgrade request: for every header name, the extra headers of the options, if they have the
  name, replace whatever \<open>into_client_request\<close> generated for it, and only the last of several values
  survives; all other headers and the rest of the request are untouched. Setting a header twice in the
  builder keeps the second value.
\<close>

theorem request_headers:
  assumes "header_map H get_all"
    and "into_client_request (as_str u) = Ok base"
    and "build_request H into_client_request (build (set_header H name v (set_header H name v' b))) u = Ok rq"
  shows "get_all (headers rq) name = [v]
    \<and> overrides get_all (extra_headers (build (set_header H name v (set_header H name v' b)))) (headers base) (headers rq)
    \<and> request_head rq = request_head base"
  using header_map.build_request_overrides [OF assms] header_map.header_last_wins [OF assms(1), of name v v' b]
  by (simp add: overrides_def)

lemma request_headers_witness:
  "\<exists>rq. build_request alist_headers (\<lambda>s. Ok \<lparr>request_head = s, headers = [(''host'', ''h''), (''cookie'', ''a'')]\<rparr>)
        (build (set_header alist_headers ''cookie'' ''c'' (set_header alist_headers ''cookie'' ''b'' (builder alist_headers))))
        (Url ''ws://h/'') = Ok rq
     \<and> values_of ''cookie'' (headers rq) = [''c''] \<and> request_head rq = ''ws://h/''"
proof -
  let ?b = "build (set_header alist_headers ''cookie'' ''c'' (set_header alist_headers ''cookie'' ''b'' (builder alist_headers)))"
  let ?into = "\<lambda>s. Ok \<lparr>request_head = s, headers = [(''host'', ''h''), (''cookie'', ''a'')]\<rparr>"
  obtain rq where rq: "build_request alist_headers ?into ?b (Url ''ws://h/'') = Ok rq"
    by (simp add: build_request_def)
  have base: "?into (as_str (Url ''ws://h/'')) = Ok \<lparr>request_head = ''ws://h/'', headers = [(''host'', ''h''), (''cookie'', ''a'')]\<rparr>"
    by simp
  from request_headers [OF alist.header_map_axioms base rq] rq show ?thesis by auto
qed

end
