(* ===== verification/Unit_Tests.thy ===== *)
theory Unit_Tests
  imports Debug_Output Codec_Spec "HOL-Library.Sublist"
begin

text \<open>
  The unit tests of \<open>src/codec.rs\<close> and \<open>src/config.rs\<close>, each as a predicate that says that the test passes: a
  failed \<open>unwrap\<close> or assertion is false. The tests run on \<open>serde_json\<close>, \<open>rmp-serde\<close> and \<open>HeaderMap\<close>, which
  are parameters here, so that passing is proved for every implementation that keeps its documentation
  and of which the one fact holds that a test adds (that it refuses a certain text, say).
\<close>

section \<open>Tests of the codecs\<close>

record test_msg =
  tm_id :: "32 word"
  tm_name :: string

definition sample :: test_msg where
  "sample = \<lparr>tm_id = 42, tm_name = ''hello''\<rparr>"

fun unwrap_is :: "('a, 'e) result \<Rightarrow> ('a \<Rightarrow> bool) \<Rightarrow> bool" where
  "unwrap_is (Inr x) P = P x"
| "unwrap_is (Inl e) P = False"

fun unwrap_err_is :: "('a, 'e) result \<Rightarrow> ('e \<Rightarrow> bool) \<Rightarrow> bool" where
  "unwrap_err_is (Inl e) P = P e"
| "unwrap_err_is (Inr x) P = False"

abbreviation unexpected :: "error \<Rightarrow> bool" where
  "unexpected e \<equiv> (case e of UnexpectedMessageType _ \<Rightarrow> True | _ \<Rightarrow> False)"

abbreviation codec_failure :: "error \<Rightarrow> bool" where
  "codec_failure e \<equiv> (case e of Codec _ \<Rightarrow> True | _ \<Rightarrow> False)"

type_synonym test_json = "(test_msg, test_msg) serde_json"
type_synonym test_msgpack = "(test_msg, test_msg) rmp_serde"

definition id_field :: string where
  "id_field = [quote] @ ''id'' @ [quote] @ '':42''"

definition name_field :: string where
  "name_field = [quote] @ ''name'' @ [quote] @ '':'' @ [quote] @ ''hello'' @ [quote]"

definition json_codec_encodes_to_text :: "test_json \<Rightarrow> bool" where
  "json_codec_encodes_to_text J =
     unwrap_is (encode (json_codec_new J) sample)
       (\<lambda>frame. case frame of
          Text text \<Rightarrow> sublist id_field text \<and> sublist name_field text
        | _ \<Rightarrow> False)"

definition json_codec_round_trips_text :: "test_json \<Rightarrow> bool" where
  "json_codec_round_trips_text J =
     unwrap_is (encode (json_codec_new J) sample)
       (\<lambda>frame. unwrap_is (decode (json_codec_new J) frame) (\<lambda>m. m = sample))"

definition json_codec_decodes_binary_for_back_compat :: "test_json \<Rightarrow> (test_msg \<Rightarrow> (bytes, codec_error) result) \<Rightarrow> bool" where
  "json_codec_decodes_binary_for_back_compat J to_vec =
     unwrap_is (to_vec sample)
       (\<lambda>bytes. unwrap_is (decode (json_codec_new J) (Binary bytes)) (\<lambda>decoded. decoded = sample))"

definition json_codec_rejects_ping_frame :: "test_json \<Rightarrow> bool" where
  "json_codec_rejects_ping_frame J = unwrap_err_is (decode (json_codec_new J) (Ping [])) unexpected"

definition json_codec_surfaces_decode_failure_as_codec_error :: "test_json \<Rightarrow> bool" where
  "json_codec_surfaces_decode_failure_as_codec_error J = unwrap_err_is (decode (json_codec_new J) (Text ''not json'')) codec_failure"

definition msgpack_codec_encodes_to_binary :: "test_msgpack \<Rightarrow> bool" where
  "msgpack_codec_encodes_to_binary M =
     unwrap_is (encode (msgpack_codec_new M) sample) (\<lambda>frame. case frame of Binary _ \<Rightarrow> True | _ \<Rightarrow> False)"

definition msgpack_codec_round_trips_binary :: "test_msgpack \<Rightarrow> bool" where
  "msgpack_codec_round_trips_binary M =
     unwrap_is (encode (msgpack_codec_new M) sample)
       (\<lambda>frame. unwrap_is (decode (msgpack_codec_new M) frame) (\<lambda>m. m = sample))"

definition msgpack_codec_rejects_text_frame :: "test_msgpack \<Rightarrow> bool" where
  "msgpack_codec_rejects_text_frame M =
     unwrap_err_is (decode (msgpack_codec_new M) (Text ''not msgpack'')) unexpected"

definition bytes_of :: "string \<Rightarrow> bytes" where
  "bytes_of s = map (\<lambda>c. word_of_nat (of_char c)) s"

definition msgpack_codec_surfaces_decode_failure_as_codec_error :: "test_msgpack \<Rightarrow> bool" where
  "msgpack_codec_surfaces_decode_failure_as_codec_error M =
     unwrap_err_is (decode (msgpack_codec_new M) (Binary (bytes_of ''not msgpack''))) codec_failure"

definition raw_round_trips :: "message \<Rightarrow> bool" where
  "raw_round_trips frame \<longleftrightarrow>
     unwrap_is (encode raw_codec_new frame) (\<lambda>m. m = frame) \<and> unwrap_is (decode raw_codec_new frame) (\<lambda>m. m = frame)"

definition raw_codec_round_trips_text :: bool where
  "raw_codec_round_trips_text = raw_round_trips (Text ''raw text'')"

definition raw_codec_round_trips_binary :: bool where
  "raw_codec_round_trips_binary = raw_round_trips (Binary (bytes_of ''raw bytes''))"

definition raw_codec_passes_protocol_frames_through :: bool where
  "raw_codec_passes_protocol_frames_through =
     unwrap_is (decode raw_codec_new (Ping (bytes_of ''ping''))) (\<lambda>m. m = Ping (bytes_of ''ping''))"

definition json_codec_debug_default_clone :: "test_json \<Rightarrow> bool" where
  "json_codec_debug_default_clone J =
     (let codec = json_codec_default J; cloned = json_codec_clone codec in json_codec_fmt codec = ''JsonCodec'')"

definition msgpack_codec_debug_default_clone :: "test_msgpack \<Rightarrow> bool" where
  "msgpack_codec_debug_default_clone M =
     (let codec = msgpack_codec_default M; cloned = msgpack_codec_clone codec in msgpack_codec_fmt codec = ''MsgPackCodec'')"

definition raw_codec_debug_clone :: bool where
  "raw_codec_debug_clone =
     (let codec = raw_codec_new; cloned = raw_codec_clone codec in raw_codec_fmt codec = ''RawCodec'')"

section \<open>Tests of the options\<close>

text \<open>
  What the tests use of \<open>HeaderMap\<close> beyond the crate: the first value of a name (\<open>get\<close>), the number of
  values (\<open>len\<close>) and equality.
\<close>

record 'h header_tests =
  hm_get :: "'h \<Rightarrow> string \<Rightarrow> string option"
  hm_len :: "'h \<Rightarrow> nat"

definition builder_default_matches_default :: "'h header_ops \<Rightarrow> bool" where
  "builder_default_matches_default H =
     (let built = build (builder H); default = connect_options_default H
      in keepalive_interval built = keepalive_interval default
         \<and> custom_keepalive_message built = custom_keepalive_message default
         \<and> extra_headers built = extra_headers default)"

definition builder_sets_each_field :: "'h header_ops \<Rightarrow> 'h header_tests \<Rightarrow> bool" where
  "builder_sets_each_field H T =
     (let opts = build (set_header H ''x-test'' ''v''
                   (set_custom_keepalive_message (Some (Text ''ping''))
                     (set_keepalive_interval None (builder H))))
      in keepalive_interval opts = None \<and> custom_keepalive_message opts = Some (Text ''ping'')
         \<and> hm_get T (extra_headers opts) ''x-test'' = Some ''v'')"

definition headers_replaces_whole_map :: "'h header_ops \<Rightarrow> 'h header_tests \<Rightarrow> bool" where
  "headers_replaces_whole_map H T =
     (let hs = hm_insert H (hm_insert H (hm_new H) ''a'' ''1'') ''b'' ''2'';
          opts = build (set_headers hs (set_header H ''z'' ''0'' (builder H)))
      in hm_len T (extra_headers opts) = 2 \<and> hm_get T (extra_headers opts) ''a'' = Some ''1''
         \<and> hm_get T (extra_headers opts) ''z'' = None)"

section \<open>They pass\<close>

lemmas codec_new_defs = json_codec_new_def json_codec_default_def json_codec_clone_def json_codec_fmt_def
  msgpack_codec_new_def msgpack_codec_default_def msgpack_codec_clone_def msgpack_codec_fmt_def
  raw_codec_new_def raw_codec_clone_def raw_codec_fmt_def

text \<open>The JSON that the crate \<open>serde_json\<close> writes for the sample.\<close>

definition sample_json :: string where
  "sample_json = ''{'' @ id_field @ '','' @ name_field @ ''}''"

lemma sample_json_fields: "sublist id_field sample_json" "sublist name_field sample_json"
  unfolding sample_json_def sublist_def
  by (metis append.assoc) (metis append.assoc)

text \<open>
  The unit tests of the codecs and of the options pass, for every JSON and MessagePack serialiser and
  every header map that keep their documentation: that they read back what they wrote, JSON from bytes
  too, write the sample as its JSON text, and refuse what is not of their format.
\<close>

theorem unit_tests_pass:
  assumes "json_format J" and "to_string J sample = Ok sample_json" and "to_vec sample = Ok bs"
    and "from_slice J bs = Ok sample" and "from_str J ''not json'' = Err ej"
    and "msgpack_format M" and "to_vec_named M sample = Ok bs'" and "rmp_from_slice M (bytes_of ''not msgpack'') = Err em"
    and "header_map H get_all" and "\<And>h k. hm_get T h k = (case get_all h k of [] \<Rightarrow> None | v # vs \<Rightarrow> Some v)"
    and "hm_len T (hm_new H) = 0" and "\<And>h k v. get_all h k = [] \<Longrightarrow> hm_len T (hm_insert H h k v) = Suc (hm_len T h)"
  shows "json_codec_encodes_to_text J \<and> json_codec_round_trips_text J \<and> json_codec_decodes_binary_for_back_compat J to_vec
    \<and> json_codec_rejects_ping_frame J \<and> json_codec_surfaces_decode_failure_as_codec_error J \<and> json_codec_debug_default_clone J
    \<and> msgpack_codec_encodes_to_binary M \<and> msgpack_codec_round_trips_binary M \<and> msgpack_codec_rejects_text_frame M
    \<and> msgpack_codec_surfaces_decode_failure_as_codec_error M \<and> msgpack_codec_debug_default_clone M
    \<and> raw_codec_round_trips_text \<and> raw_codec_round_trips_binary \<and> raw_codec_passes_protocol_frames_through \<and> raw_codec_debug_clone
    \<and> builder_default_matches_default H \<and> builder_sets_each_field H T \<and> headers_replaces_whole_map H T"
proof -
  have json: "encode (json_codec_new J) sample = Inr (Text sample_json)"
    by (simp add: codec_new_defs json_codec_def json_encode_def assms(2))
  have msgpack: "encode (msgpack_codec_new M) sample = Inr (Binary bs')"
    by (simp add: codec_new_defs msgpack_codec_def msgpack_encode_def assms(7))
  have "json_codec_encodes_to_text J \<and> json_codec_round_trips_text J \<and> json_codec_decodes_binary_for_back_compat J to_vec
      \<and> json_codec_rejects_ping_frame J \<and> json_codec_surfaces_decode_failure_as_codec_error J \<and> json_codec_debug_default_clone J"
    using json json_format.from_str_to_string [OF assms(1,2)] sample_json_fields assms(3-5)
    by (simp add: json_codec_encodes_to_text_def json_codec_round_trips_text_def json_codec_decodes_binary_for_back_compat_def
        json_codec_rejects_ping_frame_def json_codec_surfaces_decode_failure_as_codec_error_def json_codec_debug_default_clone_def
        codec_new_defs json_codec_def)
  moreover have "msgpack_codec_encodes_to_binary M \<and> msgpack_codec_round_trips_binary M \<and> msgpack_codec_rejects_text_frame M
      \<and> msgpack_codec_surfaces_decode_failure_as_codec_error M \<and> msgpack_codec_debug_default_clone M"
    using msgpack msgpack_format.from_slice_to_vec [OF assms(6,7)] assms(8)
    by (simp add: msgpack_codec_encodes_to_binary_def msgpack_codec_round_trips_binary_def msgpack_codec_rejects_text_frame_def
        msgpack_codec_surfaces_decode_failure_as_codec_error_def msgpack_codec_debug_default_clone_def codec_new_defs msgpack_codec_def)
  moreover have "raw_codec_round_trips_text \<and> raw_codec_round_trips_binary \<and> raw_codec_passes_protocol_frames_through \<and> raw_codec_debug_clone"
    by (simp add: raw_codec_round_trips_text_def raw_codec_round_trips_binary_def raw_codec_passes_protocol_frames_through_def
        raw_codec_debug_clone_def raw_round_trips_def codec_new_defs raw_codec_def raw_encode_def raw_decode_def)
  moreover have "builder_default_matches_default H \<and> builder_sets_each_field H T \<and> headers_replaces_whole_map H T"
    using assms(10-12) header_map.get_all_new [OF assms(9)] header_map.get_all_insert [OF assms(9)]
    by (simp add: builder_default_matches_default_def builder_sets_each_field_def headers_replaces_whole_map_def
        builder_defs)
  ultimately show ?thesis by (intro conjI) simp_all
qed

text \<open>Serialisers that know one value, for the witness.\<close>

definition sample_serde :: test_json where
  "sample_serde =
     \<lparr>to_string = (\<lambda>m. if m = sample then Ok sample_json else Err (CodecError ''unsupported'')),
      from_str = (\<lambda>t. if t = sample_json then Ok sample else Err (CodecError ''expected ident'')),
      from_slice = (\<lambda>bs. if bs = bytes_of sample_json then Ok sample else Err (CodecError ''expected ident''))\<rparr>"

definition sample_msgpack :: test_msgpack where
  "sample_msgpack =
     \<lparr>to_vec_named = (\<lambda>m. if m = sample then Ok [130] else Err (CodecError ''unsupported'')),
      rmp_from_slice = (\<lambda>bs. if bs = [130] then Ok sample else Err (CodecError ''wrong msgpack marker''))\<rparr>"

definition alist_tests :: "(string \<times> string) list header_tests" where
  "alist_tests = \<lparr>hm_get = (\<lambda>h k. case values_of k h of [] \<Rightarrow> None | v # vs \<Rightarrow> Some v), hm_len = length\<rparr>"

lemma unit_tests_pass_witness:
  "json_codec_encodes_to_text sample_serde \<and> msgpack_codec_round_trips_binary sample_msgpack
    \<and> headers_replaces_whole_map alist_headers alist_tests"
proof -
  have json: "json_format sample_serde" "to_string sample_serde sample = Ok sample_json"
    "from_slice sample_serde (bytes_of sample_json) = Ok sample"
    "from_str sample_serde ''not json'' = Err (CodecError ''expected ident'')"
    by (auto simp: json_format_def sample_serde_def sample_json_def split: if_splits)
  have msgpack: "msgpack_format sample_msgpack" "to_vec_named sample_msgpack sample = Ok [130]"
    "rmp_from_slice sample_msgpack (bytes_of ''not msgpack'') = Err (CodecError ''wrong msgpack marker'')"
    by (auto simp: msgpack_format_def sample_msgpack_def bytes_of_def split: if_splits)
  have "length (filter (\<lambda>kv. fst kv \<noteq> k) h) = length h" if "values_of k h = []" for k :: string and h :: "(string \<times> string) list"
    using that by (induction h) (auto split: if_splits)
  then have headers: "hm_get alist_tests h k = (case values_of k h of [] \<Rightarrow> None | v # vs \<Rightarrow> Some v)"
    "hm_len alist_tests (hm_new alist_headers) = 0"
    "values_of k h = [] \<Longrightarrow> hm_len alist_tests (hm_insert alist_headers h k v) = Suc (hm_len alist_tests h)" for h k v
    by (simp_all add: alist_tests_def alist_headers_def)
  have bytes: "(\<lambda>m. Ok (bytes_of sample_json)) sample = Ok (bytes_of sample_json)" by simp
  from unit_tests_pass [OF json(1,2) bytes json(3,4) msgpack alist.header_map_axioms headers] show ?thesis by simp
qed

end
