(* ===== verification/Duplex.thy ===== *)
theory Duplex
  imports Transport "HOL-Library.Sublist"
begin

text \<open>
  Two peers on one connection: a pair of transports on a shared state, one per end. What TCP and the
  WebSocket protocol promise of them is the locale \<open>duplex\<close>: the data frames sent at one end are read
  at the other, each once, in order. Nothing is said of the control frames, which a WebSocket
  implementation also answers by itself, nor of when and how an operation fails, but for this: a send
  that fails puts the frame on its way or not, a failed read takes none, and when an end is dropped,
  frames on their way may be lost from the back.

  The reference link at the end keeps the promise with two lists.
\<close>

section \<open>The promise\<close>

abbreviation data_only :: "message list \<Rightarrow> message list" where
  "data_only \<equiv> filter is_data"

definition data_offered :: "wire_event list \<Rightarrow> message list" where
  "data_offered l = data_only (offered l)"

lemma data_offered_simps [simp]:
  "data_offered [] = []" "data_offered (l @ l') = data_offered l @ data_offered l'"
  "data_offered [Sent m r] = (if is_data m then [m] else [])"
  "data_offered [SinkClosed r] = []" "data_offered [Received x] = []"
  by (simp_all add: data_offered_def)

text \<open>One end of the connection: \<open>out\<close> and \<open>inn\<close> are the data frames on their way from and to it.\<close>

definition puts_data :: "'n transport \<Rightarrow> ('n \<Rightarrow> message list) \<Rightarrow> ('n \<Rightarrow> message list) \<Rightarrow> bool" where
  "puts_data T out inn \<longleftrightarrow>
     (\<forall>w m w' r. ws_send T w m = (w', r) \<longrightarrow> inn w' = inn w
        \<and> (out w' = out w @ data_only [m] \<or> r \<noteq> Inr () \<and> out w' = out w))
     \<and> (\<forall>w w' r. ws_close T w = (w', r) \<longrightarrow> inn w' = inn w \<and> out w' = out w)"

definition takes_data :: "'n transport \<Rightarrow> ('n \<Rightarrow> message list) \<Rightarrow> ('n \<Rightarrow> message list) \<Rightarrow> bool" where
  "takes_data T out inn \<longleftrightarrow>
     (\<forall>w w' x. ws_next T w = Ready (w', x) \<longrightarrow> out w' = out w \<and> inn w = data_of (Received x) @ inn w')"

locale duplex =
  fixes C S :: "'n transport" and drop_client drop_server :: "'n \<Rightarrow> 'n" and up down :: "'n \<Rightarrow> message list"
  assumes client_puts: "puts_data C up down" and client_takes: "takes_data C up down"
    and server_puts: "puts_data S down up" and server_takes: "takes_data S down up"
    and client_drops: "prefix (up (drop_client w)) (up w) \<and> prefix (down (drop_client w)) (down w)"
    and server_drops: "prefix (up (drop_server w)) (up w) \<and> prefix (down (drop_server w)) (down w)"

lemma puts_dataD:
  assumes "puts_data T out inn" and "ws_send T w m = (w', r)"
  shows "inn w' = inn w" "out w' = out w @ data_only [m] \<or> r \<noteq> Inr () \<and> out w' = out w"
  using assms by (simp_all only: puts_data_def)

lemma puts_data_closeD:
  assumes "puts_data T out inn" and "ws_close T w = (w', r)"
  shows "inn w' = inn w" "out w' = out w"
  using assms by (simp_all only: puts_data_def)

lemma takes_dataD:
  assumes "takes_data T out inn" and "ws_next T w = Ready (w', x)"
  shows "out w' = out w" "inn w = data_of (Received x) @ inn w'"
  using assms by (simp_all only: takes_data_def)

section \<open>The reference link\<close>

text \<open>
  Everything sent arrives. When a peer has dropped the connection, the other reads what is still on
  its way and then the end of the stream. Closing the sink sends a close frame.
\<close>

record link =
  to_server :: "message list"
  to_client :: "message list"
  client_left :: bool
  server_left :: bool

definition client_end :: "link transport" where
  "client_end =
     \<lparr>ws_send = (\<lambda>k m. (k\<lparr>to_server := to_server k @ [m]\<rparr>, Ok ())),
      ws_close = (\<lambda>k. (k\<lparr>to_server := to_server k @ [Close None]\<rparr>, Ok ())),
      ws_next = (\<lambda>k. case to_client k of
          m # ms \<Rightarrow> Ready (k\<lparr>to_client := ms\<rparr>, Some (Ok m))
        | [] \<Rightarrow> if server_left k then Ready (k, None) else Pending)\<rparr>"

definition server_end :: "link transport" where
  "server_end =
     \<lparr>ws_send = (\<lambda>k m. (k\<lparr>to_client := to_client k @ [m]\<rparr>, Ok ())),
      ws_close = (\<lambda>k. (k\<lparr>to_client := to_client k @ [Close None]\<rparr>, Ok ())),
      ws_next = (\<lambda>k. case to_server k of
          m # ms \<Rightarrow> Ready (k\<lparr>to_server := ms\<rparr>, Some (Ok m))
        | [] \<Rightarrow> if client_left k then Ready (k, None) else Pending)\<rparr>"

definition fresh_link :: link where
  "fresh_link = \<lparr>to_server = [], to_client = [], client_left = False, server_left = False\<rparr>"

lemma client_end_simps [simp]:
  "ws_send client_end k m = (k\<lparr>to_server := to_server k @ [m]\<rparr>, Ok ())"
  "ws_close client_end k = (k\<lparr>to_server := to_server k @ [Close None]\<rparr>, Ok ())"
  "ws_next client_end k = (case to_client k of
      m # ms \<Rightarrow> Ready (k\<lparr>to_client := ms\<rparr>, Some (Ok m))
    | [] \<Rightarrow> if server_left k then Ready (k, None) else Pending)"
  by (simp_all add: client_end_def)

lemma server_end_simps [simp]:
  "ws_send server_end k m = (k\<lparr>to_client := to_client k @ [m]\<rparr>, Ok ())"
  "ws_close server_end k = (k\<lparr>to_client := to_client k @ [Close None]\<rparr>, Ok ())"
  "ws_next server_end k = (case to_server k of
      m # ms \<Rightarrow> Ready (k\<lparr>to_server := ms\<rparr>, Some (Ok m))
    | [] \<Rightarrow> if client_left k then Ready (k, None) else Pending)"
  by (simp_all add: server_end_def)

definition leave_client :: "link \<Rightarrow> link" where
  "leave_client k = k\<lparr>client_left := True\<rparr>"

definition leave_server :: "link \<Rightarrow> link" where
  "leave_server k = k\<lparr>server_left := True\<rparr>"

interpretation reference_link: duplex client_end server_end leave_client leave_server
  "\<lambda>k. data_only (to_server k)" "\<lambda>k. data_only (to_client k)"
  by unfold_locales
    (auto simp: puts_data_def takes_data_def leave_client_def leave_server_def split: list.splits if_splits)

end
