(* ===== verification/Echo_World.thy ===== *)
theory Echo_World
  imports Duplex Mock_Server Connection
begin

text \<open>
  The client and the echo server together: the whole connection of \<open>System\<close> at one end of a duplex
  connection, the loop of \<open>echo_server\<close> at the other. A step is a step of the client or of the server,
  so every interleaving of the two programs is a run. The network is a parameter. It may have little
  room: an operation of a sink completes only when there is room in its direction.
\<close>

section \<open>The two programs\<close>

record ('t, 'r, 'o, 'n) env =
  client_runtime :: "('t, 'r, 'o, 'n) runtime"
  client_config :: loop_config
  server_ops :: "'n transport"
  server_json :: "(echo_control_message, echo_control_message) serde_json"
  client_drops :: "'n \<Rightarrow> 'n"
  server_drops :: "'n \<Rightarrow> 'n"
  room_up :: "'n \<Rightarrow> bool"
  room_down :: "'n \<Rightarrow> bool"

record ('t, 'r, 'o, 'n) world =
  client :: "('t, 'r, 'o, 'n) sys"
  server :: server_task
  server_log :: "wire_event list"

abbreviation network :: "('t, 'r, 'o, 'n) world \<Rightarrow> 'n" where
  "network w \<equiv> fst (ws (conn (client w)))"

abbreviation client_log :: "('t, 'r, 'o, 'n) world \<Rightarrow> wire_event list" where
  "client_log w \<equiv> wire (client w)"

definition on_network :: "'n \<Rightarrow> ('t, 'r, 'o, 'n) sys \<Rightarrow> ('t, 'r, 'o, 'n) sys" where
  "on_network k s = s\<lparr>conn := (conn s)\<lparr>ws := (k, wire s)\<rparr>\<rparr>"

text \<open>The jobs of the client's loop that use the sink.\<close>

fun uses_sink :: "task \<Rightarrow> bool" where
  "uses_sink (Busy (SendJob (Some p) h)) = True"
| "uses_sink (Busy (TimerJob h)) = True"
| "uses_sink (Busy (ReadJob (Some (Inr (Ping b))))) = True"
| "uses_sink (Busy (ReadJob (Some (Inr (Close f))))) = True"
| "uses_sink _ = False"

datatype 'n world_action = Client "'n action" | Server

fun by_network :: "'n action \<Rightarrow> bool" where
  "by_network (Network k) = True"
| "by_network _ = False"

text \<open>When the loop is done its ends of the socket are dropped with it.\<close>

definition client_exec ::
  "('t, 'r, 'o, 'n) env \<Rightarrow> 'n action \<Rightarrow> ('t, 'r, 'o, 'n) world \<Rightarrow> ('t, 'r, 'o, 'n) world option" where
  "client_exec E a w =
     (if by_network a \<or> a = Work \<and> uses_sink (task (client w)) \<and> \<not> room_up E (network w) then None
      else case exec (client_runtime E) (client_config E) a (client w) of
             None \<Rightarrow> None
           | Some s \<Rightarrow>
               Some (w\<lparr>client :=
                 if finished (task s) \<and> \<not> finished (task (client w))
                 then on_network (client_drops E (fst (ws (conn s)))) s else s\<rparr>))"

text \<open>A server that is done has dropped its end of the socket. Whether a step used the sink is read off its log.\<close>

fun answering :: "server_task \<Rightarrow> bool" where
  "answering (Handling sd m) = True"
| "answering _ = False"

fun stopped :: "server_task \<Rightarrow> bool" where
  "stopped (Stopped out) = True"
| "stopped _ = False"

definition server_exec ::
  "('t, 'r, 'o, 'n) env \<Rightarrow> ('t, 'r, 'o, 'n) world \<Rightarrow> ('t, 'r, 'o, 'n) world option" where
  "server_exec E w =
     (case serve_step (logged (server_ops E)) (echo_turn (logged (server_ops E)) (server_json E)) (server w)
             (network w, server_log w) of
        None \<Rightarrow> None
      | Some ((k, l), t) \<Rightarrow>
          if answering (server w) \<and> l \<noteq> server_log w \<and> \<not> room_down E (network w) then None
          else Some (w\<lparr>client := on_network (if stopped t then server_drops E k else k) (client w),
                      server := t, server_log := l\<rparr>))"

fun world_exec ::
  "('t, 'r, 'o, 'n) env \<Rightarrow> 'n world_action \<Rightarrow> ('t, 'r, 'o, 'n) world \<Rightarrow> ('t, 'r, 'o, 'n) world option" where
  "world_exec E (Client a) w = client_exec E a w"
| "world_exec E Server w = server_exec E w"

definition init_world ::
  "('t, 'r, 'o, 'n) env \<Rightarrow> nat \<Rightarrow> 'n \<Rightarrow> ('t, 'r, 'o, 'n) world option" where
  "init_world E channel_size k =
     map_option (\<lambda>s. \<lparr>client = s, server = Serving False, server_log = []\<rparr>)
       (init_sys (client_runtime E) channel_size k)"

fun world_run ::
  "('t, 'r, 'o, 'n) env \<Rightarrow> 'n world_action list \<Rightarrow> ('t, 'r, 'o, 'n) world \<Rightarrow> ('t, 'r, 'o, 'n) world option" where
  "world_run E [] w = Some w"
| "world_run E (a # as) w = (case world_exec E a w of None \<Rightarrow> None | Some w' \<Rightarrow> world_run E as w')"

inductive world_reachable ::
  "('t, 'r, 'o, 'n) env \<Rightarrow> nat \<Rightarrow> 'n \<Rightarrow> ('t, 'r, 'o, 'n) world \<Rightarrow> bool" for E channel_size k where
  start: "init_world E channel_size k = Some w \<Longrightarrow> world_reachable E channel_size k w"
| step: "world_reachable E channel_size k w \<Longrightarrow> world_exec E a w = Some w' \<Longrightarrow> world_reachable E channel_size k w'"

lemma world_run_reachable:
  "world_reachable E n k w \<Longrightarrow> world_run E as w = Some w' \<Longrightarrow> world_reachable E n k w'"
  by (induction as arbitrary: w) (auto split: option.splits intro: world_reachable.step)

lemma init_world_run_reachable:
  "init_world E n k = Some w \<Longrightarrow> world_run E as w = Some w' \<Longrightarrow> world_reachable E n k w'"
  by (blast intro: world_run_reachable world_reachable.start)

lemma on_network_simps [simp]:
  "task (on_network k s) = task s" "wire (on_network k s) = wire s" "fst (ws (conn (on_network k s))) = k"
  "queued (on_network k s) = queued s" "delivered (on_network k s) = delivered s"
  "rx_handle (on_network k s) = rx_handle s" "calls (on_network k s) = calls s"
  "tx_handles (on_network k s) = tx_handles s" "clock (on_network k s) = clock s"
  "taken (on_network k s) = taken s"
  "rx_chan (conn (on_network k s)) = rx_chan (conn s)" "tx_chan (conn (on_network k s)) = tx_chan (conn s)"
  "slots (conn (on_network k s)) = slots (conn s)"
  "terminal_error (conn (on_network k s)) = terminal_error (conn s)"
  by (simp_all add: on_network_def)

text \<open>
  Every run of the two programs is, for the client, a run of the connection in which the network does
  what the server and the dropped ends do to it.
\<close>

lemma exec_Network: "exec R cfg (Network k) s = Some (on_network k s)"
  by (simp add: on_network_def)

lemma client_reachable:
  "world_reachable E n k w \<Longrightarrow> reachable (client_runtime E) (client_config E) n (client w)"
proof (induction rule: world_reachable.induct)
  case (start w)
  then show ?case by (auto simp: init_world_def intro: reachable.start)
next
  case (step w a w')
  note net = reachable.step [OF _ exec_Network]
  show ?case
  proof (cases a)
    case (Client b)
    with step.hyps(2) obtain s where s: "exec (client_runtime E) (client_config E) b (client w) = Some s"
      "client w' = s \<or> client w' = on_network (client_drops E (fst (ws (conn s)))) s"
      by (auto simp: client_exec_def split: if_splits option.splits)
    from reachable.step [OF step.IH s(1)] s(2) net show ?thesis by metis
  next
    case Server
    with step.hyps(2) obtain k' where "client w' = on_network k' (client w)"
      by (auto simp: server_exec_def simp del: serve_step.simps split: option.splits prod.splits if_splits)
    with net step.IH show ?thesis by metis
  qed
qed

end
