(* ===== verification/Echo_Spec.thy ===== *)
theory Echo_Spec
  imports Echo_World Lifecycle
begin

text \<open>
  What the client sees of the echo server, end to end. The invariant follows the data frames once round:
  from the socket of the client over the network to the server, through the server, and back. With the
  invariants of the connection, from the queue of the client to the socket and from the socket to the
  consumer, it gives the properties.
\<close>

section \<open>One end of the connection\<close>

text \<open>
  What a step at one end does to the data frames: \<open>put\<close> is offered to the sink, \<open>sent\<close> gets on its way,
  \<open>got\<close> is read. When the end goes on (\<open>ok\<close>), all that was offered is on its way.
\<close>

definition end_step ::
  "('n \<Rightarrow> message list) \<Rightarrow> ('n \<Rightarrow> message list) \<Rightarrow> bool \<Rightarrow> 'n \<times> wire_event list \<Rightarrow> 'n \<times> wire_event list \<Rightarrow> bool" where
  "end_step out inn ok p q \<longleftrightarrow>
     (\<exists>put sent got. data_offered (snd q) = data_offered (snd p) @ put \<and> out (fst q) = out (fst p) @ sent
        \<and> prefix sent put \<and> (ok \<longrightarrow> sent = put)
        \<and> data_frames (snd q) = data_frames (snd p) @ got \<and> inn (fst p) = got @ inn (fst q))"

lemma end_step_refl [simp]: "end_step out inn ok p p"
  by (simp add: end_step_def)

lemma end_step_trans:
  assumes "end_step out inn True p q" and "end_step out inn ok q r"
  shows "end_step out inn ok p r"
  using assms unfolding end_step_def by force

lemma end_step_send:
  assumes "puts_data T out inn" and "ws_send (logged T) p m = (q, r)" and "ok \<Longrightarrow> r = Inr ()"
  shows "end_step out inn ok p q"
proof -
  from assms(2) obtain w where w: "ws_send T (fst p) m = (w, r)" "q = (w, snd p @ [Sent m r])"
    by (auto simp: logged_def split_beta prod_eq_iff)
  from puts_dataD [OF assms(1) w(1)] assms(3) show ?thesis
    by (auto simp: end_step_def w(2))
qed

lemma end_step_close:
  assumes "puts_data T out inn" and "ws_close (logged T) p = (q, r)"
  shows "end_step out inn ok p q"
proof -
  from assms(2) obtain w where w: "ws_close T (fst p) = (w, r)" "q = (w, snd p @ [SinkClosed r])"
    by (auto simp: logged_def split_beta prod_eq_iff)
  from puts_data_closeD [OF assms(1) w(1)] show ?thesis by (auto simp: end_step_def w(2))
qed

lemma end_step_next:
  assumes "takes_data T out inn" and "ws_next (logged T) p = Ready (q, x)"
  shows "end_step out inn ok p q"
proof -
  from assms(2) obtain w where w: "ws_next T (fst p) = Ready (w, x)" "q = (w, snd p @ [Received x])"
    by (cases "ws_next T (fst p)") (auto simp: logged_def split_beta prod_eq_iff)
  from takes_dataD [OF assms(1) w(1)] show ?thesis by (auto simp: end_step_def w(2))
qed

section \<open>The steps of the client\<close>

lemma loop_end_step:
  assumes "takes_data (ws_ops R) out inn"
    and "loop_step (logged_runtime R) cfg started now a k c = Some (c', k')"
  shows "end_step out inn ok (ws c) (ws c')"
proof (cases "ws c' = ws c")
  case False
  with assms(2) obtain x where "ws_next (logged (ws_ops R)) (ws c) = Ready (ws c', x)"
    by (cases k; cases a)
      (auto simp: loop_step_def select_arm_def backpressure_arm_def
        split: poll.splits option.splits if_splits sum.splits)
  then show ?thesis by (rule end_step_next [OF assms(1)])
qed simp

lemma send_socket_message_ws:
  assumes "send_socket_message (logged_runtime R) pm c = (c', st)"
  shows "case pm of None \<Rightarrow> ws c' = ws c
    | Some p \<Rightarrow> \<exists>r. ws_send (logged (ws_ops R)) (ws c) (payload_message p) = (ws c', r) \<and> (st = Running \<longrightarrow> r = Inr ())"
  using assms
  by (auto simp: send_socket_message_def respond_def Let_def not_is_err_unit
      split: option.splits prod.splits if_splits)

lemma handle_incoming_ws:
  assumes "handle_incoming (logged_runtime R) item c = (c', inc)"
  shows "ws c' = ws c
    \<or> (\<exists>m r. ws_send (logged (ws_ops R)) (ws c) m = (ws c', r) \<and> (inc = State Running \<longrightarrow> r = Inr ()) \<and> (\<exists>st. inc = State st))
    \<or> (\<exists>r. ws_close (logged (ws_ops R)) (ws c) = (ws c', r))"
  using assms
  by (auto simp: handle_incoming_def Let_def map_err_eq_Inl split: option.splits sum.splits message.splits prod.splits)

lemma send_keepalive_ws:
  assumes "send_keepalive (logged_runtime R) custom c = (c', st)"
  shows "\<exists>r. ws_send (logged (ws_ops R)) (ws c) (case custom of Some m \<Rightarrow> m | None \<Rightarrow> Ping []) = (ws c', r)
    \<and> (st = Running \<longrightarrow> r = Inr ())"
  using assms by (auto simp: send_keepalive_def Let_def split: prod.splits sum.splits)

lemma active_after: "active (resume h st) \<longleftrightarrow> st = Running" "active (after_state st) \<longleftrightarrow> st = Running"
  by (cases st; simp add: resume_case)+

lemma handler_end_step:
  assumes puts: "puts_data (ws_ops R) out inn" and handler: "handler_step (logged_runtime R) cfg j c = (c', k')"
  shows "end_step out inn (active k') (ws c) (ws c')"
proof (cases j)
  case (SendJob pm h)
  with handler obtain st where "send_socket_message (logged_runtime R) pm c = (c', st)" "k' = resume h st"
    by (auto simp: handler_step_def split: prod.splits)
  with send_socket_message_ws [OF this(1)] show ?thesis
    by (auto simp: active_after split: option.splits intro: end_step_send [OF puts])
next
  case (TimerJob h)
  with handler obtain st where "send_keepalive (logged_runtime R) (cfg_message cfg) c = (c', st)" "k' = resume h st"
    by (auto simp: handler_step_def split: prod.splits)
  with send_keepalive_ws [OF this(1)] show ?thesis
    by (auto simp: active_after intro: end_step_send [OF puts])
next
  case (ReadJob item)
  obtain c1 inc where inc: "handle_incoming (logged_runtime R) item c = (c1, inc)"
    by (cases "handle_incoming (logged_runtime R) item c")
  from inc ReadJob handler have ws: "ws c' = ws c1"
    by (auto simp: handler_step_def deliver_fast_def split: incoming.splits prod.splits sum.splits)
  from inc ReadJob handler have st: "inc = State st \<Longrightarrow> k' = after_state st" for st
    by (auto simp: handler_step_def)
  from handle_incoming_ws [OF inc] show ?thesis
  proof (elim disjE exE conjE)
    fix m r st
    assume "ws_send (logged (ws_ops R)) (ws c) m = (ws c1, r)" "inc = State Running \<longrightarrow> r = Ok ()" "inc = State st"
    with ws st show ?thesis by (auto simp: active_after intro: end_step_send [OF puts])
  qed (use ws in \<open>auto intro: end_step_close [OF puts]\<close>)
qed

text \<open>The other actions, of the handles and of the clock, do not touch the socket.\<close>

lemma exec_other_ws:
  assumes "exec R cfg a s = Some s'" and "a \<noteq> Work" and "\<And>arm. a \<noteq> Loop arm" and "\<not> by_network a"
  shows "ws (conn s') = ws (conn s)"
  using assms
  by (cases a) (auto simp: op_defs start_call_def Let_def
      split: if_splits poll.splits option.splits sum.splits prod.splits task.splits loop_state.splits)

lemma exec_end_step:
  assumes "puts_data (ws_ops R) out inn" and "takes_data (ws_ops R) out inn"
    and "exec R cfg a s = Some s'" and "\<not> by_network a"
  shows "end_step out inn (active (task s')) (ws (conn s)) (ws (conn s'))"
    and "ws (conn s') = ws (conn s) \<or> active (task s)"
    and "active (task s') \<Longrightarrow> active (task s)"
proof -
  have "end_step out inn (active (task s')) (ws (conn s)) (ws (conn s'))
      \<and> (ws (conn s') = ws (conn s) \<or> active (task s)) \<and> (active (task s') \<longrightarrow> active (task s))"
  proof (cases "a = Work \<or> (\<exists>arm. a = Loop arm)")
    case True
    then show ?thesis
    proof (elim disjE exE)
      assume a: "a = Work"
      with assms(3) obtain j where j: "task s = Busy j" using exec_work_disabled [of s R cfg] by fastforce
      with a assms(3) have "handler_step (logged_runtime R) cfg j (conn s) = (conn s', task s')"
        by (auto simp: work_step_def split: prod.splits)
      from handler_end_step [OF assms(1) this] j show ?thesis by simp
    next
      fix arm
      assume a: "a = Loop arm"
      with assms(3) obtain t where step: "loop_step (logged_runtime R) cfg (sleep_started s) (clock s) arm (task s) (conn s)
          = Some (conn s', t)" by (auto split: option.splits)
      have "selecting (task s)"
        using step by (cases "selecting (task s)") (simp_all add: no_arm_while_busy)
      with loop_end_step [OF assms(2) step] selecting_active show ?thesis by blast
    qed
  next
    case False
    with exec_other_ws [OF assms(3)] assms(4) have "ws (conn s') = ws (conn s)" by blast
    moreover have "active (task s') \<longrightarrow> active (task s)"
    proof (cases "a = Exit")
      case True
      with assms(3) show ?thesis
        by (auto simp: exit_step_def split: task.splits option.splits)
    next
      case no_exit: False
      with exec_keeps_task(1) [OF assms(3)] False show ?thesis by auto
    qed
    ultimately show ?thesis by simp
  qed
  then show "end_step out inn (active (task s')) (ws (conn s)) (ws (conn s'))"
    "ws (conn s') = ws (conn s) \<or> active (task s)" "active (task s') \<Longrightarrow> active (task s)" by blast+
qed

section \<open>The turns of the server\<close>

text \<open>The data frames that the server answers a frame with: a message comes back as it was.\<close>

definition echo_reply :: "(echo_control_message, echo_control_message) serde_json \<Rightarrow> message \<Rightarrow> message list" where
  "echo_reply J m =
     (case m of
        Text t \<Rightarrow> (case from_str J t of Inr (EchoMessage _) \<Rightarrow> [m] | _ \<Rightarrow> [])
      | _ \<Rightarrow> [])"

definition echoes :: "(echo_control_message, echo_control_message) serde_json \<Rightarrow> message list \<Rightarrow> message list" where
  "echoes J ms = concat (map (echo_reply J) ms)"

lemma echoes_simps [simp]:
  "echoes J [] = []" "echoes J (m # ms) = echo_reply J m @ echoes J ms" "echoes J (ms @ ms') = echoes J ms @ echoes J ms'"
  by (simp_all add: echoes_def)

lemma echo_reply_data: "\<not> is_data m \<Longrightarrow> echo_reply J m = []"
  by (cases m) (simp_all add: echo_reply_def)

lemma echoes_data: "echoes J (data_only ms) = echoes J ms"
  by (induction ms) (simp_all add: echo_reply_data)

lemma echoes_prefix: "prefix xs ys \<Longrightarrow> prefix (echoes J xs) (echoes J ys)"
  by (auto simp: prefix_def)

lemma echo_reply_only_data: "data_only (echo_reply J m) = echo_reply J m"
  by (auto simp: echo_reply_def split: message.split sum.split echo_control_message.split)

text \<open>A turn reads nothing and offers at most one frame; a turn after which the server goes on sent it.\<close>

definition turn_step ::
  "('n \<Rightarrow> message list) \<Rightarrow> ('n \<Rightarrow> message list) \<Rightarrow> message list \<Rightarrow> 'n \<times> wire_event list \<Rightarrow> ('n \<times> wire_event list) \<times> turn \<Rightarrow> bool" where
  "turn_step out inn reply p qt \<longleftrightarrow>
     end_step out inn (\<exists>sd. snd qt = Continue sd) p (fst qt)
     \<and> data_frames (snd (fst qt)) = data_frames (snd p)
     \<and> (\<exists>put. data_offered (snd (fst qt)) = data_offered (snd p) @ put \<and> prefix put reply
          \<and> ((\<exists>sd. snd qt = Continue sd) \<longrightarrow> put = reply))"

lemma turn_step_none: "reply = [] \<or> (\<forall>sd. t \<noteq> Continue sd) \<Longrightarrow> turn_step out inn reply p (p, t)"
  by (auto simp: turn_step_def)

lemma logged_send_frames:
  assumes "ws_send (logged T) p m = (q, r)"
  shows "data_frames (snd q) = data_frames (snd p)" "data_offered (snd q) = data_offered (snd p) @ data_only [m]"
  using assms by (auto simp: logged_ops)

lemma logged_close_frames:
  assumes "ws_close (logged T) p = (q, r)"
  shows "data_frames (snd q) = data_frames (snd p)" "data_offered (snd q) = data_offered (snd p)"
  using assms by (auto simp: logged_ops)

lemma turn_step_reply:
  assumes "puts_data T out inn" and "reply = data_only [m]"
  shows "turn_step out inn reply p (reply_with (logged T) m sd p)"
proof -
  obtain q r where q: "ws_send (logged T) p m = (q, r)" by (cases "ws_send (logged T) p m")
  from end_step_send [OF assms(1) q] logged_send_frames [OF q] assms(2) q show ?thesis
    by (cases r) (simp_all add: turn_step_def reply_with_def)
qed

lemma turn_step_unwrap_send:
  assumes "puts_data T out inn" and "reply = data_only [m]"
  shows "turn_step out inn reply p (unwrap_or_panic (ws_send (logged T) p m) (Continue sd))"
proof -
  obtain q r where q: "ws_send (logged T) p m = (q, r)" by (cases "ws_send (logged T) p m")
  from end_step_send [OF assms(1) q] logged_send_frames [OF q] assms(2) q show ?thesis
    by (cases r) (simp_all add: turn_step_def unwrap_or_panic_def)
qed

lemma turn_step_close:
  assumes "puts_data T out inn"
  shows "turn_step out inn [] p (answer_close (logged T) sd p)"
proof -
  obtain q r where q: "ws_close (logged T) p = (q, r)" by (cases "ws_close (logged T) p")
  from end_step_close [OF assms q] logged_close_frames [OF q] q show ?thesis
    by (cases r) (simp_all add: turn_step_def answer_close_def unwrap_or_panic_def)
qed

lemma echo_turn_step:
  assumes "puts_data T out inn"
  shows "turn_step out inn (case item of Inr m \<Rightarrow> echo_reply J m | Inl e \<Rightarrow> []) p (echo_turn (logged T) J item sd p)"
proof (cases item)
  case (Inr m)
  note puts = turn_step_reply [OF assms] turn_step_unwrap_send [OF assms] turn_step_close [OF assms]
  show ?thesis
    by (cases m) (auto simp: Inr echo_turn_def answer_control_def echo_reply_def server_close_def
        intro!: puts turn_step_none split: sum.split echo_control_message.split)
qed (simp add: echo_turn_def turn_step_none)

text \<open>What the server has read and not yet answered.\<close>

fun in_hand :: "server_task \<Rightarrow> message list" where
  "in_hand (Handling sd (Inr m)) = [m]"
| "in_hand _ = []"

lemma after_turn_facts [simp]:
  "stopped (after_turn t) \<longleftrightarrow> (\<forall>sd. t \<noteq> Continue sd)" "in_hand (after_turn t) = []"
  by (simp_all add: after_turn_def split: turn.split)

lemma echo_serve_step:
  assumes "puts_data T out inn" and "takes_data T out inn"
    and "serve_step (logged T) (echo_turn (logged T) J) k p = Some (q, k')"
  shows "end_step out inn (\<not> stopped k') p q \<and> \<not> stopped k
    \<and> (\<exists>got put. data_frames (snd q) = data_frames (snd p) @ got \<and> data_offered (snd q) = data_offered (snd p) @ put
        \<and> prefix put (echoes J (in_hand k @ got))
        \<and> (\<not> stopped k' \<longrightarrow> put @ echoes J (in_hand k') = echoes J (in_hand k @ got)))"
proof (cases k)
  case (Serving sd)
  with assms(3) obtain x where x: "ws_next (logged T) p = Ready (q, x)"
    "k' = (case x of None \<Rightarrow> Stopped (ServerReturned (Ok sd)) | Some m \<Rightarrow> Handling sd m)"
    by (auto split: poll.splits option.splits)
  have "data_frames (snd q) = data_frames (snd p) @ data_of (Received x)" "data_offered (snd q) = data_offered (snd p)"
    using x(1) by (auto simp: logged_def split_beta map_poll_eq_Ready)
  moreover have "echoes J (in_hand (Handling sd m)) = echoes J (data_of (Received (Some m)))" for m
    by (cases m) (simp_all add: echo_reply_data)
  ultimately show ?thesis
    using x(2) Serving end_step_next [OF assms(2) x(1)] by (auto simp del: in_hand.simps(1) split: option.split)
next
  case (Handling sd item)
  let ?reply = "case item of Inr m \<Rightarrow> echo_reply J m | Inl e \<Rightarrow> []"
  from Handling assms(3) obtain t where t: "echo_turn (logged T) J item sd p = (q, t)" "k' = after_turn t"
    by (auto simp: map_prod_def split: prod.splits)
  have "turn_step out inn ?reply p (q, t)"
    using echo_turn_step [OF assms(1), of J item p sd] t(1) by simp
  moreover have "?reply = echoes J (in_hand k)"
    using Handling by (simp split: sum.split)
  ultimately show ?thesis
    using t(2) Handling by (auto simp: turn_step_def)
qed (use assms(3) in simp)

section \<open>The invariant\<close>

text \<open>
  One direction of the connection: what the source has offered, what is on its way, what the
  destination has read. While both ends go on, nothing is missing.
\<close>

definition flows :: "bool \<Rightarrow> bool \<Rightarrow> message list \<Rightarrow> message list \<Rightarrow> message list \<Rightarrow> bool" where
  "flows source dest off transit received \<longleftrightarrow>
     prefix received off
     \<and> (dest \<longrightarrow> prefix (received @ transit) off \<and> (source \<longrightarrow> received @ transit = off))"

lemma flows_weaken:
  "flows source dest off transit received \<Longrightarrow> (source' \<Longrightarrow> source) \<Longrightarrow> (dest' \<Longrightarrow> dest)
    \<Longrightarrow> flows source' dest' off transit received"
  by (auto simp: flows_def)

lemma flows_put:
  assumes "flows True dest off transit received" and "prefix sent put" and "ok \<Longrightarrow> sent = put"
  shows "flows ok dest (off @ put) (transit @ sent) received"
  using assms by (auto simp: flows_def prefix_def)

lemma flows_take: "flows source True off (got @ transit) received \<Longrightarrow> flows source dest off transit (received @ got)"
  by (auto simp: flows_def prefix_def)

lemma flows_drop:
  assumes "flows source dest off transit received" and "prefix transit' transit" and "dest' \<Longrightarrow> dest"
    and "\<not> (source' \<and> dest')"
  shows "flows source' dest' off transit' received"
  using assms by (auto simp: flows_def prefix_def)

abbreviation serving :: "('t, 'r, 'o, 'n) world \<Rightarrow> bool" where
  "serving w \<equiv> \<not> stopped (server w)"

abbreviation looping :: "('t, 'r, 'o, 'n) world \<Rightarrow> bool" where
  "looping w \<equiv> active (task (client w))"

definition round_inv ::
  "('n \<Rightarrow> message list) \<Rightarrow> ('n \<Rightarrow> message list) \<Rightarrow> (echo_control_message, echo_control_message) serde_json
    \<Rightarrow> ('t, 'r, 'o, 'n) world \<Rightarrow> bool" where
  "round_inv up down J w \<longleftrightarrow>
     flows (looping w) (serving w) (data_offered (client_log w)) (up (network w)) (data_frames (server_log w))
     \<and> flows (serving w) (looping w) (data_offered (server_log w)) (down (network w)) (data_frames (client_log w))
     \<and> prefix (data_offered (server_log w)) (echoes J (data_frames (server_log w)))
     \<and> (serving w \<longrightarrow>
          data_offered (server_log w) @ echoes J (in_hand (server w)) = echoes J (data_frames (server_log w)))"

locale echo_network =
  duplex "ws_ops (client_runtime E)" "server_ops E" "client_drops E" "server_drops E" up down
  + tokio "client_runtime E" vt vr vo
  for E :: "('t, 'r, 'o, 'n) env" and up down vt vr vo
begin

lemma round_client:
  assumes "client_exec E a w = Some w'" and inv: "round_inv up down (server_json E) w"
  shows "round_inv up down (server_json E) w'"
proof -
  from assms(1) obtain s where s: "exec (client_runtime E) (client_config E) a (client w) = Some s" "\<not> by_network a"
    and w': "w' = w\<lparr>client := if finished (task s) \<and> \<not> finished (task (client w))
                 then on_network (client_drops E (fst (ws (conn s)))) s else s\<rparr>"
    by (auto simp: client_exec_def split: if_splits option.splits)
  define v where "v = w\<lparr>client := s\<rparr>"
  note step = exec_end_step [OF client_puts client_takes s]
  from inv have up: "flows (looping w) (serving w) (data_offered (client_log w)) (up (network w)) (data_frames (server_log w))"
    and down: "flows (serving w) (looping w) (data_offered (server_log w)) (down (network w)) (data_frames (client_log w))"
    by (simp_all add: round_inv_def)
  have "flows (looping v) (serving v) (data_offered (client_log v)) (up (network v)) (data_frames (server_log v))
      \<and> flows (serving v) (looping v) (data_offered (server_log v)) (down (network v)) (data_frames (client_log v))"
  proof (cases "ws (conn s) = ws (conn (client w))")
    case True
    with flows_weaken [OF up] flows_weaken [OF down] step(3) show ?thesis by (simp add: v_def)
  next
    case False
    with step(2) have on: "looping w" by blast
    from step(1) obtain put sent got where
      "data_offered (wire s) = data_offered (client_log w) @ put" "up (fst (ws (conn s))) = up (network w) @ sent"
      "prefix sent put" "active (task s) \<longrightarrow> sent = put"
      "data_frames (wire s) = data_frames (client_log w) @ got" "down (network w) = got @ down (fst (ws (conn s)))"
      unfolding end_step_def by blast
    with flows_put [OF up [unfolded eqTrueI [OF on]]] flows_take [of _ _ got] down on show ?thesis
      by (simp add: v_def)
  qed
  with inv have v: "round_inv up down (server_json E) v" by (simp add: round_inv_def v_def)
  show ?thesis
  proof (cases "finished (task s) \<and> \<not> finished (task (client w))")
    case True
    then have "\<not> active (task s)" using active_facts(2) by blast
    with True w' v client_drops [of "fst (ws (conn s))"] show ?thesis
      by (auto simp: round_inv_def v_def intro: flows_drop)
  next
    case False
    then have "w' = v" unfolding w' v_def by auto
    with v show ?thesis by simp
  qed
qed

lemma round_server:
  assumes "server_exec E w = Some w'" and inv: "round_inv up down (server_json E) w"
  shows "round_inv up down (server_json E) w'"
proof -
  let ?J = "server_json E" and ?m = "in_hand (server w)"
  from assms(1) obtain k l t where
    task: "serve_step (logged (server_ops E)) (echo_turn (logged (server_ops E)) ?J) (server w) (network w, server_log w)
        = Some ((k, l), t)"
    and w': "w' = w\<lparr>client := on_network (if stopped t then server_drops E k else k) (client w), server := t, server_log := l\<rparr>"
    by (auto simp: server_exec_def simp del: serve_step.simps split: option.splits prod.splits if_splits)
  note whole = echo_serve_step [OF server_puts server_takes task]
  then obtain put sent got where
    step: "data_offered l = data_offered (server_log w) @ put" "down k = down (network w) @ sent"
      "prefix sent put" "\<not> stopped t \<longrightarrow> sent = put"
      "data_frames l = data_frames (server_log w) @ got" "up (network w) = got @ up k"
    and on: "serving w"
    unfolding end_step_def snd_conv fst_conv by blast
  with whole have ans: "prefix put (echoes ?J (?m @ got))"
    "\<not> stopped t \<longrightarrow> put @ echoes ?J (in_hand t) = echoes ?J (?m @ got)"
    by auto
  from inv on have up: "flows (looping w) True (data_offered (client_log w)) (up (network w)) (data_frames (server_log w))"
    and down: "flows True (looping w) (data_offered (server_log w)) (down (network w)) (data_frames (client_log w))"
    and reply: "echoes ?J (data_frames (server_log w)) = data_offered (server_log w) @ echoes ?J ?m"
    unfolding round_inv_def by auto
  have flow: "flows (looping w) ok (data_offered (client_log w)) (up k) (data_frames l)" for ok
    using flows_take [of _ _ got] up step(5,6) by simp
  have rback: "flows (\<not> stopped t) (looping w) (data_offered l) (down k) (data_frames (client_log w))"
    using flows_put [OF down step(3), of "\<not> stopped t"] step(1,2,4) by simp
  have "echoes ?J (data_frames l) = data_offered (server_log w) @ echoes ?J (?m @ got)"
    using step(5) reply by simp
  with step(1) ans have answers: "prefix (data_offered l) (echoes ?J (data_frames l))"
    "\<not> stopped t \<Longrightarrow> data_offered l @ echoes ?J (in_hand t) = echoes ?J (data_frames l)"
    by simp_all
  show ?thesis
  proof (cases "stopped t")
    case True
    with w' flow [of False] rback server_drops [of k] answers(1) show ?thesis
      by (auto simp: round_inv_def intro: flows_drop)
  qed (use w' flow rback answers in \<open>auto simp: round_inv_def\<close>)
qed

lemma round_reachable:
  assumes "world_reachable E n k w" and "up k = []" and "down k = []"
  shows "round_inv up down (server_json E) w"
  using assms(1)
proof (induction rule: world_reachable.induct)
  case (start w)
  then show ?case using assms(2,3)
    by (auto simp: init_world_def init_sys_def init_conn_def round_inv_def flows_def split: option.splits)
next
  case (step w a w')
  then show ?case by (cases a) (auto intro: round_client round_server)
qed

end

section \<open>On the reference link\<close>

text \<open>
  Client and server over the reference link, with the reference channels. A direction has room as long
  as fewer than the given number of frames are on their way in it.
\<close>

definition link_env ::
  "loop_config \<Rightarrow> (echo_control_message, echo_control_message) serde_json \<Rightarrow> nat \<Rightarrow> nat
    \<Rightarrow> (payload chan, message chan, reply slot, link) env" where
  "link_env cfg J up_room down_room =
     \<lparr>client_runtime = reference_runtime client_end, client_config = cfg, server_ops = server_end,
      server_json = J, client_drops = leave_client, server_drops = leave_server,
      room_up = (\<lambda>k. length (to_server k) < up_room), room_down = (\<lambda>k. length (to_client k) < down_room)\<rparr>"

lemma link_env_simps [simp]:
  "client_runtime (link_env cfg J a b) = reference_runtime client_end" "client_config (link_env cfg J a b) = cfg"
  "server_ops (link_env cfg J a b) = server_end" "server_json (link_env cfg J a b) = J"
  "client_drops (link_env cfg J a b) = leave_client" "server_drops (link_env cfg J a b) = leave_server"
  "room_up (link_env cfg J a b) k \<longleftrightarrow> length (to_server k) < a"
  "room_down (link_env cfg J a b) k \<longleftrightarrow> length (to_client k) < b"
  by (simp_all add: link_env_def)

lemma reference_runtime_ws [simp]: "ws_ops (reference_runtime T) = T"
  by (simp add: reference_runtime_def)

interpretation link_world: echo_network "link_env cfg J a b" "\<lambda>k. data_only (to_server k)" "\<lambda>k. data_only (to_client k)" id id id
  for cfg J a b
  using reference_link.duplex_axioms reference_runtime_tokio
  by (simp add: echo_network_def)

end
