(* ===== verification/End_To_End.thy ===== *)
theory End_To_End
  imports Echo_Spec Outbound
begin

text \<open>
  The properties of client and echo server together: what the consumer receives are the messages that
  were sent, in order; when nothing is under way, all of them; and as long as both ends go on and the
  network has room, something can always happen. Without room the two can block each other for good.
\<close>

section \<open>From queue to consumer\<close>

lemma offered_sends: "offered l = map fst (sends l)"
proof (induction l)
  case (Cons e l)
  then show ?case by (cases e) simp_all
qed simp

lemma shuffles_map: "zs \<in> shuffles xs ys \<Longrightarrow> map f zs \<in> shuffles (map f xs) (map f ys)"
  by (induction xs ys arbitrary: zs rule: shuffles.induct) auto

lemma echoes_shuffles:
  "zs \<in> shuffles xs ys \<Longrightarrow> \<forall>m \<in> set ys. echo_reply J m = [] \<Longrightarrow> echoes J zs = echoes J xs"
  by (induction xs ys arbitrary: zs rule: shuffles.induct) (auto simp: echoes_def)

lemma sent_pairs_fst: "map fst (sent_pairs outs) = map payload_message (map fst outs)"
  by (induction outs) (auto simp: sent_pairs_def)

text \<open>What the server makes of the traffic of the client is what it makes of the payloads alone.\<close>

lemma client_echoes:
  assumes "tokio R vt vr vo" and "reachable R cfg n s" and "echo_reply J (keepalive_frame cfg) = []"
  shows "\<exists>rest. echoes J (map payload_message (queued s)) = echoes J (data_offered (wire s)) @ rest
    \<and> (inflight (task s) = [] \<and> buf (vt (tx_chan (conn s))) = [] \<and> active (task s) \<longrightarrow> rest = [])"
proof -
  from tokio.view_outbound [OF assms(1,2)] obtain outs ctrl dropped where
    q: "queued s = map fst outs @ inflight (task s) @ buf (vt (tx_chan (conn s))) @ dropped"
    and drop: "dropped \<noteq> [] \<longrightarrow> finished (task s)"
    and sends: "sends (wire s) \<in> shuffles (sent_pairs outs) ctrl" "fst ` set ctrl \<subseteq> control_frames cfg"
    by (auto simp: outbound_inv_def wire_rel_def)
  from sends(2) assms(3) have "\<forall>m \<in> set (map fst ctrl). echo_reply J m = []"
    by (auto simp: control_frames_def echo_reply_data)
  with echoes_shuffles [OF shuffles_map [OF sends(1)]] have
    "echoes J (data_offered (wire s)) = echoes J (map payload_message (map fst outs))"
    by (simp add: data_offered_def echoes_data offered_sends sent_pairs_fst)
  with q drop active_facts(2) [of "task s"] show ?thesis by auto
qed

text \<open>The consumer gets what was read off the stream, in that order, and in the end all of it.\<close>

lemma consumed_frames:
  assumes "tokio R vt vr vo" and "reachable R cfg n s"
  shows "prefix (delivered s) (data_frames (wire s))"
    and "task s = AtSelect \<Longrightarrow> rx_handle s \<Longrightarrow> buf (vr (rx_chan (conn s))) = [] \<Longrightarrow> delivered s = data_frames (wire s)"
  using tokio.view_inbound [OF assms] by (auto elim!: inbound_invE simp: prefix_def)

context echo_network
begin

lemma frames_in_order:
  assumes "world_reachable E n k w" and "up k = []" and "down k = []"
    and "echo_reply (server_json E) (keepalive_frame (client_config E)) = []"
  shows "prefix (data_frames (client_log w)) (echoes (server_json E) (map payload_message (queued (client w))))"
proof -
  let ?J = "server_json E"
  from round_reachable [OF assms(1-3)] have
    "prefix (data_frames (client_log w)) (data_offered (server_log w))"
    "prefix (data_offered (server_log w)) (echoes ?J (data_frames (server_log w)))"
    "prefix (data_frames (server_log w)) (data_offered (client_log w))"
    by (simp_all add: round_inv_def flows_def)
  moreover from client_echoes [OF tokio_axioms client_reachable [OF assms(1)] assms(4)] have
    "prefix (echoes ?J (data_offered (client_log w))) (echoes ?J (map payload_message (queued (client w))))"
    by (auto simp: prefix_def)
  ultimately show ?thesis by (blast intro: prefix_order.trans echoes_prefix)
qed

lemma back_in_order:
  assumes "world_reachable E n k w" and "up k = []" and "down k = []"
    and "echo_reply (server_json E) (keepalive_frame (client_config E)) = []"
  shows "prefix (delivered (client w)) (echoes (server_json E) (map payload_message (queued (client w))))"
  using frames_in_order [OF assms] consumed_frames(1) [OF tokio_axioms client_reachable [OF assms(1)]]
  by (blast intro: prefix_order.trans)

lemma back_complete:
  assumes "world_reachable E n k w" and "up k = []" and "down k = []"
    and "echo_reply (server_json E) (keepalive_frame (client_config E)) = []"
    and "server w = Serving sd" and "task (client w) = AtSelect" and "rx_handle (client w)"
    and "buf (vt (tx_chan (conn (client w)))) = []" and "buf (vr (rx_chan (conn (client w)))) = []"
    and "up (network w) = []" and "down (network w) = []"
  shows "delivered (client w) = echoes (server_json E) (map payload_message (queued (client w)))"
proof -
  note client = client_reachable [OF assms(1)]
  from round_reachable [OF assms(1-3)] assms(5,6,10,11) have
    "data_frames (client_log w) = echoes (server_json E) (data_offered (client_log w))"
    by (auto simp: round_inv_def flows_def)
  moreover from client_echoes [OF tokio_axioms client assms(4)] assms(6,8) have
    "echoes (server_json E) (map payload_message (queued (client w))) = echoes (server_json E) (data_offered (client_log w))"
    by auto
  moreover note consumed_frames(2) [OF tokio_axioms client assms(6,7,9)]
  ultimately show ?thesis by simp
qed

end

text \<open>Concrete runs over the reference link, for the witnesses.\<close>

definition link_run ::
  "loop_config \<Rightarrow> nat \<Rightarrow> nat \<Rightarrow> link world_action list
    \<Rightarrow> (payload chan, message chan, reply slot, link) world option" where
  "link_run cfg n room as =
     (case init_world (link_env cfg echo_json room room) n fresh_link of
        None \<Rightarrow> None
      | Some w \<Rightarrow> world_run (link_env cfg echo_json room room) as w)"

lemma link_run_reachable:
  "link_run cfg n room as = Some w \<Longrightarrow> world_reachable (link_env cfg echo_json room room) n fresh_link w"
  by (auto simp: link_run_def intro: init_world_run_reachable split: option.splits)

definition chat_text :: "string \<Rightarrow> string" where
  "chat_text s = echo_to_string (EchoMessage s)"

abbreviation chat :: "string \<Rightarrow> message" where
  "chat s \<equiv> Text (chat_text s)"

lemma chat_reads: "from_str echo_json (chat_text s) = Ok (EchoMessage s)"
  unfolding chat_text_def by (simp add: echo_json_def echo_from_str_to_string del: echo_to_string.simps)

lemma echo_reply_chat: "echo_reply echo_json (chat s) = [chat s]"
  by (simp add: echo_reply_def chat_reads)

lemma no_echo_of_ping: "echo_reply J (keepalive_frame no_keepalive) = []" "echo_reply J (keepalive_frame default_keepalive) = []"
  by (simp_all add: keepalive_frame_def no_keepalive_def default_keepalive_def echo_reply_def)

lemma echo_turn_chat: "echo_turn T echo_json (Inr (chat s)) sd w = reply_with T (chat s) sd w"
  by (simp add: echo_turn_def answer_control_def chat_reads)

lemmas link_simps = link_run_def init_world_def fresh_link_def client_exec_def server_exec_def after_turn_def
  echo_turn_chat reply_with_def on_network_def leave_client_def leave_server_def

text \<open>
  C3. End to end, in order: whatever the two programs, the network, the clock and the handles do, what
  the consumer of the client has received is a prefix of the echoes of the messages that were queued,
  in the order in which they were queued. Nothing is duplicated, reordered or made up, also when an end
  fails or leaves.
\<close>

theorem end_to_end_order:
  assumes "echo_network E up down vt vr vo" and "world_reachable E n k w" and "up k = []" and "down k = []"
    and "echo_reply (server_json E) (keepalive_frame (client_config E)) = []"
  shows "prefix (delivered (client w)) (echoes (server_json E) (map payload_message (queued (client w))))"
  using echo_network.back_in_order [OF assms] .

lemma end_to_end_order_witness:
  "\<exists>w. link_run no_keepalive 2 4 (map Client [SendUnconfirmed (chat ''a''), SendUnconfirmed (chat ''b''), Loop RecvArm, Work]
        @ [Server, Server] @ map Client [Loop NextArm, Work, Recv]) = Some w
     \<and> delivered (client w) = [chat ''a''] \<and> length (queued (client w)) = 2
     \<and> prefix (delivered (client w)) (echoes echo_json (map payload_message (queued (client w))))"
proof -
  obtain w where w: "link_run no_keepalive 2 4 (map Client [SendUnconfirmed (chat ''a''), SendUnconfirmed (chat ''b''), Loop RecvArm, Work]
        @ [Server, Server] @ map Client [Loop NextArm, Work, Recv]) = Some w"
    "delivered (client w) = [chat ''a'']" "length (queued (client w)) = 2"
    by (simp add: eval_simps link_simps)
  from end_to_end_order [OF link_world.echo_network_axioms link_run_reachable [OF w(1)]] w no_echo_of_ping show ?thesis
    by (simp add: fresh_link_def)
qed

text \<open>
  End to end, without loss, over any network: when both ends are going, nothing is queued, in hand or on its way,
  the consumer has received the echoes of all messages that were queued.
\<close>

theorem end_to_end_complete:
  assumes "echo_network E up down vt vr vo" and "world_reachable E n k w" and "up k = []" and "down k = []"
    and "echo_reply (server_json E) (keepalive_frame (client_config E)) = []"
    and "server w = Serving sd" and "task (client w) = AtSelect" and "rx_handle (client w)"
    and "buf (vt (tx_chan (conn (client w)))) = []" and "buf (vr (rx_chan (conn (client w)))) = []"
    and "up (network w) = []" and "down (network w) = []"
  shows "delivered (client w) = echoes (server_json E) (map payload_message (queued (client w)))"
  using echo_network.back_complete [OF assms] .

lemma end_to_end_complete_witness:
  "\<exists>w. link_run no_keepalive 2 4 (map Client [SendUnconfirmed (chat ''a''), Loop RecvArm, Work]
        @ [Server, Server] @ map Client [Loop NextArm, Work, Recv]) = Some w
     \<and> delivered (client w) = echoes echo_json (map payload_message (queued (client w)))"
proof -
  obtain w where w: "link_run no_keepalive 2 4 (map Client [SendUnconfirmed (chat ''a''), Loop RecvArm, Work]
        @ [Server, Server] @ map Client [Loop NextArm, Work, Recv]) = Some w"
    "server w = Serving False" "task (client w) = AtSelect" "rx_handle (client w)"
    "buf (id (tx_chan (conn (client w)))) = []" "buf (id (rx_chan (conn (client w)))) = []"
    "data_only (to_server (network w)) = []" "data_only (to_client (network w)) = []"
    by (simp add: eval_simps link_simps)
  from end_to_end_complete [OF link_world.echo_network_axioms link_run_reachable [OF w(1)] _ _ _ w(2-8)] w(1) no_echo_of_ping
  show ?thesis by (simp add: fresh_link_def)
qed

section \<open>Progress\<close>

text \<open>The steps that need neither time nor a decision of a user: loop, server, and reading what is there to be read.\<close>

fun unprompted :: "'n world_action \<Rightarrow> bool" where
  "unprompted (Client (Loop arm)) = (arm \<noteq> SleepArm)"
| "unprompted (Client Work) = True"
| "unprompted (Client Recv) = True"
| "unprompted Server = True"
| "unprompted _ = False"

lemma exec_client_exec:
  assumes "exec (client_runtime E) (client_config E) a (client w) \<noteq> None" and "\<not> by_network a"
    and "a = Work \<Longrightarrow> room_up E (network w)"
  shows "world_exec E (Client a) w \<noteq> None"
  using assms by (auto simp: client_exec_def split: option.splits)

lemma recv_enabled:
  assumes "tokio R vt vr vo" and "rx_handle s" and "buf (vr (rx_chan (conn s))) \<noteq> []"
  shows "exec R cfg Recv s \<noteq> None"
proof -
  have "exec (reference R) cfg Recv (sys_view vt vr vo s) \<noteq> None"
    using assms(2,3) by (auto simp: recv_raw_def chan_recv_def reference_logged split: list.splits)
  then show ?thesis using tokio.exec_enabled [OF assms(1)] by (auto simp del: exec.simps)
qed

context echo_network
begin

lemma step_or_all_back:
  assumes "world_reachable E n k w" and "up k = []" and "down k = []"
    and "echo_reply (server_json E) (keepalive_frame (client_config E)) = []"
    and "serving w" and "looping w" and "rx_handle (client w)"
    and "room_up E (network w)" and "room_down E (network w)"
    and "up (network w) \<noteq> [] \<Longrightarrow> ws_next (server_ops E) (network w) \<noteq> Pending"
    and "down (network w) \<noteq> [] \<Longrightarrow> ws_next (ws_ops (client_runtime E)) (network w) \<noteq> Pending"
  shows "(\<exists>a. unprompted a \<and> world_exec E a w \<noteq> None)
    \<or> delivered (client w) = echoes (server_json E) (map payload_message (queued (client w)))"
proof (rule ccontr)
  assume "\<not> ?thesis"
  then have stuck: "unprompted a \<Longrightarrow> world_exec E a w = None" for a by blast
  from \<open>\<not> ?thesis\<close> have missing: "delivered (client w) \<noteq> echoes (server_json E) (map payload_message (queued (client w)))"
    by blast
  let ?s = "client w"
  note tokio = tokio_axioms
  note shape = tokio.view_shape [OF tokio client_reachable [OF assms(1)]]
  have none: "exec (client_runtime E) (client_config E) a ?s = None"
    if "unprompted (Client a)" for a
  proof -
    from that have "\<not> by_network a" by (cases a) simp_all
    with exec_client_exec [of E a w] stuck [OF that] assms(8) show ?thesis by blast
  qed
  have rx: "buf (vr (rx_chan (conn ?s))) = []"
    using recv_enabled [OF tokio assms(7)] none [of Recv] by fastforce
  have sel: "selecting (task ?s)"
  proof (rule ccontr)
    assume "\<not> selecting (task ?s)"
    with assms(6) obtain j where "task ?s = Busy j" by (cases "task ?s") auto
    from exec_work_enabled [OF this, of "client_runtime E" "client_config E"] none [of Work] show False by simp
  qed
  have tx: "buf (vt (tx_chan (conn ?s))) = []"
    using none [of "Loop RecvArm"] sel
    by (auto simp: tokio.exec_loop_enabled [OF tokio] recv_arm_enabled simp del: exec.simps)
  have "task ?s \<noteq> Holding f" for f
  proof
    assume held: "task ?s = Holding f"
    have "\<not> has_room (vr (rx_chan (conn ?s)))"
      using none [of "Loop ReserveArm"] held
      by (simp add: tokio.exec_loop_enabled [OF tokio] reserve_arm_enabled del: exec.simps)
    with rx shape show False by (simp add: has_room_def shape_inv_def)
  qed
  with sel have task: "task ?s = AtSelect" by (cases "task ?s") auto
  have down: "down (network w) = []"
    using none [of "Loop NextArm"] task assms(11)
    by (auto simp: loop_step_def select_arm_def logged_ops split: poll.splits)
  obtain sd where server: "server w = Serving sd"
    using stuck [of Server] assms(5,9) by (cases "server w") (auto simp: server_exec_def split: prod.splits)
  have "up (network w) = []"
    using stuck [of Server] assms(10) server
    by (auto simp: server_exec_def logged_ops split_beta split: poll.splits option.splits)
  from back_complete [OF assms(1-4) server task assms(7) tx rx this down] missing show False by blast
qed

end

text \<open>
  No deadlock where there is room, over any network: as long as both ends are going, the consumer keeps its receive
  half, there is room in both directions and what is on its way can be read, some step of the loop, the
  server or the consumer is possible unless everything queued has come back.
\<close>

theorem progress_with_room:
  assumes "echo_network E up down vt vr vo" and "world_reachable E n k w" and "up k = []" and "down k = []"
    and "echo_reply (server_json E) (keepalive_frame (client_config E)) = []"
    and "serving w" and "looping w" and "rx_handle (client w)"
    and "room_up E (network w)" and "room_down E (network w)"
    and "up (network w) \<noteq> [] \<Longrightarrow> ws_next (server_ops E) (network w) \<noteq> Pending"
    and "down (network w) \<noteq> [] \<Longrightarrow> ws_next (ws_ops (client_runtime E)) (network w) \<noteq> Pending"
  shows "(\<exists>a. unprompted a \<and> world_exec E a w \<noteq> None)
    \<or> delivered (client w) = echoes (server_json E) (map payload_message (queued (client w)))"
  using echo_network.step_or_all_back [OF assms] .

lemma progress_with_room_witness:
  "\<exists>w a. link_run no_keepalive 2 4 (map Client [SendUnconfirmed (chat ''a''), Loop RecvArm, Work] @ [Server, Server]) = Some w
     \<and> delivered (client w) = [] \<and> unprompted a \<and> world_exec (link_env no_keepalive echo_json 4 4) a w \<noteq> None"
proof -
  let ?E = "link_env no_keepalive echo_json 4 4"
  obtain w where w: "link_run no_keepalive 2 4 (map Client [SendUnconfirmed (chat ''a''), Loop RecvArm, Work] @ [Server, Server]) = Some w"
    "serving w" "looping w" "rx_handle (client w)" "room_up ?E (network w)" "room_down ?E (network w)"
    "ws_next server_end (network w) = Pending" "ws_next client_end (network w) \<noteq> Pending" "to_server (network w) = []"
    "delivered (client w) = []" "map payload_message (queued (client w)) = [chat ''a'']"
    by (simp add: eval_simps link_simps)
  from progress_with_room [OF link_world.echo_network_axioms link_run_reachable [OF w(1)] _ _ _ _ w(3-6)] w no_echo_of_ping
  show ?thesis by (auto simp: fresh_link_def echo_reply_chat)
qed

section \<open>Without room\<close>

text \<open>
  C22. Mutual blocking. When the loop is in a handler that sends and there is no room towards the server,
  and the server has to send and there is no room towards the client, no sequence of steps of the two
  programs, of the clock, or of the handles of the client changes that: not dropping the handles, nor
  letting the keepalive come due. The loop does not read while it sends, so neither direction empties.
\<close>

theorem full_pipes_block:
  assumes "task (client w) = Busy j" and "uses_sink (Busy j)" and "\<not> room_up E (network w)"
    and "server_exec E w = None" and "world_run E as w = Some w'"
  shows "task (client w') = Busy j \<and> network w' = network w \<and> server w' = server w \<and> server_exec E w' = None
    \<and> client_log w' = client_log w \<and> server_log w' = server_log w
    \<and> world_exec E (Client Work) w' = None"
proof -
  let ?same = "\<lambda>v. task (client v) = Busy j \<and> network v = network w \<and> server v = server w
      \<and> client_log v = client_log w \<and> server_log v = server_log w"
  have blocked: "server_exec E v = None" if "?same v" for v
    using that assms(4)
    by (auto simp: server_exec_def simp del: serve_step.simps split: option.splits prod.splits if_splits)
  have step: "?same v'" if v: "?same v" and exec: "world_exec E a v = Some v'" for a v v'
  proof (cases a)
    case (Client b)
    with exec v assms(2,3) have b: "b \<noteq> Work" "\<not> by_network b" by (auto simp: client_exec_def)
    from Client exec obtain t where t: "exec (client_runtime E) (client_config E) b (client v) = Some t"
      "v' = v\<lparr>client := if finished (task t) \<and> \<not> finished (task (client v))
        then on_network (client_drops E (fst (ws (conn t)))) t else t\<rparr>"
      by (auto simp: client_exec_def split: if_splits option.splits)
    from v t(1) have "b \<noteq> Exit" by (auto simp: exit_step_def)
    moreover from v t(1) have loop: "b \<noteq> Loop arm" for arm by (auto simp: no_arm_while_busy)
    ultimately have "task t = Busy j" using exec_keeps_task(1) [OF t(1) b(1)] v by simp
    with t(2) exec_other_ws [OF t(1) b(1) loop b(2)] v show ?thesis by simp
  next
    case Server
    with exec blocked [OF v] show ?thesis by simp
  qed
  have "?same w'" if "?same v" and "world_run E as v = Some w'" for v
    using that
  proof (induction as arbitrary: v)
    case (Cons a as)
    from Cons.prems(2) obtain u where u: "world_exec E a v = Some u" "world_run E as u = Some w'"
      by (auto split: option.splits)
    from Cons.IH [OF step [OF Cons.prems(1) u(1)] u(2)] show ?case .
  qed simp
  from this [OF _ assms(5)] assms(1) have "?same w'" by simp
  with blocked [of w'] assms(2,3) show ?thesis by (simp add: client_exec_def)
qed

lemma full_pipes_block_witness:
  "\<exists>w w'. link_run default_keepalive 2 1 (map Client [SendUnconfirmed (chat ''a''), SendUnconfirmed (chat ''b''), Loop RecvArm, Work]
        @ [Server, Server] @ map Client [Loop RecvArm, Work] @ [Server]
        @ map Client [SendUnconfirmed (chat ''c''), Loop RecvArm, Work, SendUnconfirmed (chat ''d''), Loop RecvArm]) = Some w
     \<and> world_run (link_env default_keepalive echo_json 1 1) [Client (Tick 60000), Client DropTx] w = Some w'
     \<and> world_exec (link_env default_keepalive echo_json 1 1) (Client Work) w' = None
     \<and> server_exec (link_env default_keepalive echo_json 1 1) w' = None \<and> delivered (client w') = []"
proof -
  let ?E = "link_env default_keepalive echo_json 1 1"
  let ?j = "SendJob (Some \<lparr>payload_message = chat ''d'', response_tx = None\<rparr>) None"
  obtain w w' where w: "link_run default_keepalive 2 1 (map Client [SendUnconfirmed (chat ''a''), SendUnconfirmed (chat ''b''), Loop RecvArm, Work]
        @ [Server, Server] @ map Client [Loop RecvArm, Work] @ [Server]
        @ map Client [SendUnconfirmed (chat ''c''), Loop RecvArm, Work, SendUnconfirmed (chat ''d''), Loop RecvArm]) = Some w"
    "world_run ?E [Client (Tick 60000), Client DropTx] w = Some w'"
    "task (client w) = Busy ?j" "\<not> room_up ?E (network w)" "server_exec ?E w = None" "delivered (client w') = []"
    by (simp add: eval_simps link_simps)
  have "uses_sink (Busy ?j)" by simp
  from full_pipes_block [OF w(3) this w(4,5,2)] w show ?thesis by blast
qed

end
