(* ===== verification/Settling.thy ===== *)
theory Settling
  imports End_To_End
begin

text \<open>
  Client and server over a connection that loses nothing and has room. A measure of the work that is
  left shows that loop, server and consumer come to rest by themselves, and an invariant that no end
  fails on the way, so that what was sent has come back when they rest.
\<close>

section \<open>Programs that settle\<close>

fun run_of :: "('a \<Rightarrow> 's \<Rightarrow> 's option) \<Rightarrow> 'a list \<Rightarrow> 's \<Rightarrow> 's option" where
  "run_of step [] s = Some s"
| "run_of step (a # as) s = (case step a s of None \<Rightarrow> None | Some s' \<Rightarrow> run_of step as s')"

definition at_rest :: "('a \<Rightarrow> 's \<Rightarrow> 's option) \<Rightarrow> ('a \<Rightarrow> bool) \<Rightarrow> 's \<Rightarrow> bool" where
  "at_rest step own s \<longleftrightarrow> (\<forall>a. own a \<longrightarrow> step a s = None)"

text \<open>
  A system whose own steps keep an invariant and use up effort, and which is only at rest at its goal.
\<close>

locale settling =
  fixes step :: "'a \<Rightarrow> 's \<Rightarrow> 's option" and own :: "'a \<Rightarrow> bool"
    and inv goal :: "'s \<Rightarrow> bool" and effort :: "'s \<Rightarrow> nat"
  assumes own_step: "inv s \<Longrightarrow> own a \<Longrightarrow> step a s = Some s' \<Longrightarrow> inv s' \<and> effort s' < effort s"
    and rest_goal: "inv s \<Longrightarrow> at_rest step own s \<Longrightarrow> goal s"
begin

lemma run_bounded:
  "inv s \<Longrightarrow> list_all own as \<Longrightarrow> run_of step as s = Some s' \<Longrightarrow> inv s' \<and> length as + effort s' \<le> effort s"
proof (induction as arbitrary: s)
  case (Cons a as)
  then obtain t where t: "step a s = Some t" "run_of step as t = Some s'" by (auto split: option.splits)
  with own_step [OF Cons.prems(1) _ t(1)] Cons.IH [OF _ _ t(2)] Cons.prems(2) show ?case by simp
qed simp

lemma run_to_rest: "inv s \<Longrightarrow> \<exists>as s'. list_all own as \<and> run_of step as s = Some s' \<and> at_rest step own s'"
proof (induction "effort s" arbitrary: s rule: less_induct)
  case less
  show ?case
  proof (cases "at_rest step own s")
    case True
    then show ?thesis by (intro exI [of _ "[]"]) simp
  next
    case False
    then obtain a t where t: "own a" "step a s = Some t" by (auto simp: at_rest_def)
    with own_step [OF less.prems t] less.hyps obtain as s' where
      "list_all own as" "run_of step as t = Some s'" "at_rest step own s'" by blast
    with t show ?thesis by (intro exI [of _ "a # as"]) simp
  qed
qed

lemma run_settles:
  "inv s \<Longrightarrow> list_all own as \<Longrightarrow> run_of step as s = Some s' \<Longrightarrow> at_rest step own s' \<Longrightarrow> goal s'"
  using run_bounded rest_goal by blast

end

lemma world_run_of: "world_run E as w = run_of (world_exec E) as w"
  by (induction as arbitrary: w) (simp_all split: option.split)

section \<open>A peaceful client\<close>

definition is_close :: "message \<Rightarrow> bool" where
  "is_close m = (case m of Close f \<Rightarrow> True | _ \<Rightarrow> False)"

lemma is_close_simps [simp]:
  "\<not> is_close (Text t)" "\<not> is_close (Binary b)" "\<not> is_close (Ping b)" "\<not> is_close (Pong b)"
  "\<not> is_close (Frame b)" "is_close (Close f)"
  by (simp_all add: is_close_def)

text \<open>A frame on which the server goes on: it is no close frame and no order to leave, and text is in its format.\<close>

definition harmless :: "(echo_control_message, echo_control_message) serde_json \<Rightarrow> message \<Rightarrow> bool" where
  "harmless J m =
     (case m of
        Text t \<Rightarrow> (case from_str J t of
            Inr (EchoMessage s) \<Rightarrow> True
          | Inr EchoSendPing \<Rightarrow> True
          | _ \<Rightarrow> False)
      | Close f \<Rightarrow> False
      | _ \<Rightarrow> True)"

lemma harmless_simps [simp]:
  "harmless J (Binary b)" "harmless J (Ping b)" "harmless J (Pong b)" "harmless J (Frame b)" "\<not> harmless J (Close f)"
  by (simp_all add: harmless_def)

text \<open>The frames of the client while it has not asked to close, and then.\<close>

definition okay :: "(echo_control_message, echo_control_message) serde_json \<Rightarrow> bool \<Rightarrow> message \<Rightarrow> bool" where
  "okay J closing m \<longleftrightarrow> harmless J m \<or> closing \<and> is_close m"

fun job_okay :: "(echo_control_message, echo_control_message) serde_json \<Rightarrow> bool \<Rightarrow> job \<Rightarrow> bool" where
  "job_okay J closing (SendJob (Some p) h) \<longleftrightarrow> okay J closing (payload_message p)"
| "job_okay J closing (TimerJob h) \<longleftrightarrow> True"
| "job_okay J closing (ReadJob (Some (Inr m))) \<longleftrightarrow> is_close m \<longrightarrow> closing"
| "job_okay J closing _ \<longleftrightarrow> False"

fun task_okay :: "(echo_control_message, echo_control_message) serde_json \<Rightarrow> bool \<Rightarrow> task \<Rightarrow> bool" where
  "task_okay J closing AtSelect \<longleftrightarrow> True"
| "task_okay J closing (Holding f) \<longleftrightarrow> True"
| "task_okay J closing (Busy j) \<longleftrightarrow> job_okay J closing j"
| "task_okay J closing (Exited st) \<longleftrightarrow> closing \<and> st = Closed"
| "task_okay J closing (Recorded st) \<longleftrightarrow> closing \<and> st = Closed"
| "task_okay J closing (SenderDropped st) \<longleftrightarrow> closing \<and> st = Closed"
| "task_okay J closing (Finished st) \<longleftrightarrow> closing \<and> st = Closed"
| "task_okay J closing Crashed \<longleftrightarrow> False"

text \<open>The close frame of the server is on its way, in hand, or has been dealt with.\<close>

fun reads_close :: "task \<Rightarrow> bool" where
  "reads_close (Busy (ReadJob (Some (Inr m)))) = is_close m"
| "reads_close (Busy j) = False"
| "reads_close AtSelect = False"
| "reads_close (Holding f) = False"
| "reads_close _ = True"

abbreviation net :: "('t, 'r, 'o, link) sys \<Rightarrow> link" where
  "net s \<equiv> fst (ws (conn s))"

definition peaceful_client ::
  "(echo_control_message, echo_control_message) serde_json \<Rightarrow> bool \<Rightarrow> link ref_sys \<Rightarrow> bool" where
  "peaceful_client J closing s \<longleftrightarrow>
     task_okay J closing (task s) \<and> rx_handle s \<and> 0 < tx_handles s \<and> (\<forall>i. calls s i \<noteq> Cancelled)
     \<and> (\<forall>p \<in> set (buf (tx_chan (conn s))). okay J closing (payload_message p))
     \<and> (\<forall>m \<in> set (to_server (net s)). okay J closing m)
     \<and> (\<forall>m \<in> set (to_client (net s)). is_close m \<longrightarrow> closing)
     \<and> (server_left (net s) \<longleftrightarrow> reads_close (task s) \<or> (\<exists>m \<in> set (to_client (net s)). is_close m))"

text \<open>The actions that keep the peace. A close is one only when it is announced.\<close>

fun benign ::
  "(echo_control_message, echo_control_message) serde_json \<Rightarrow> bool \<Rightarrow> 'n action \<Rightarrow> bool" where
  "benign J closing (SendConfirmed i m) \<longleftrightarrow> harmless J m"
| "benign J closing (SendUnconfirmed m) \<longleftrightarrow> harmless J m"
| "benign J closing (SendClose i) \<longleftrightarrow> closing"
| "benign J closing (Network k) \<longleftrightarrow> False"
| "benign J closing (Cancel i) \<longleftrightarrow> False"
| "benign J closing DropTx \<longleftrightarrow> False"
| "benign J closing DropRx \<longleftrightarrow> False"
| "benign J closing _ \<longleftrightarrow> True"

text \<open>The work left in a client and its network: every frame costs the steps it is still to go through.
  What a server that has left will not read costs none.\<close>

fun up_effort :: "message \<Rightarrow> nat" where
  "up_effort (Pong b) = 2"
| "up_effort m = 8"

fun hold_effort :: "message option \<Rightarrow> nat" where
  "hold_effort None = 0"
| "hold_effort (Some f) = 2"

fun task_effort :: "task \<Rightarrow> nat" where
  "task_effort (Busy (SendJob p h)) = 9 + hold_effort h"
| "task_effort (Busy (TimerJob h)) = 9 + hold_effort h"
| "task_effort (Busy (ReadJob x)) = 5"
| "task_effort (Holding f) = 2"
| "task_effort (Exited st) = 4"
| "task_effort (Recorded st) = 3"
| "task_effort (SenderDropped st) = 2"
| "task_effort _ = 0"

definition client_effort :: "link ref_sys \<Rightarrow> nat" where
  "client_effort s =
     10 * length (buf (tx_chan (conn s))) + task_effort (task s) + length (buf (rx_chan (conn s)))
     + (if server_left (net s) then 0 else sum_list (map up_effort (to_server (net s)))) + 6 * length (to_client (net s))"

text \<open>The steps it takes by itself, without time passing.\<close>

fun own_client :: "'n action \<Rightarrow> bool" where
  "own_client (Loop arm) \<longleftrightarrow> arm \<noteq> SleepArm"
| "own_client Work \<longleftrightarrow> True"
| "own_client Exit \<longleftrightarrow> True"
| "own_client Recv \<longleftrightarrow> True"
| "own_client _ \<longleftrightarrow> False"

text \<open>The server has not been asked to leave but by a close frame, and says so on leaving.\<close>

fun server_okay :: "(echo_control_message, echo_control_message) serde_json \<Rightarrow> bool \<Rightarrow> server_task \<Rightarrow> bool" where
  "server_okay J closing (Serving sd) \<longleftrightarrow> \<not> sd"
| "server_okay J closing (Handling sd (Inr m)) \<longleftrightarrow> \<not> sd \<and> okay J closing m"
| "server_okay J closing (Handling sd (Inl e)) \<longleftrightarrow> False"
| "server_okay J closing (Stopped out) \<longleftrightarrow> closing \<and> out = ServerReturned (Ok False)"

fun server_effort :: "server_task \<Rightarrow> nat" where
  "server_effort (Handling sd (Inr m)) = up_effort m - 1"
| "server_effort _ = 0"

text \<open>The caller of the payload that is being sent still waits.\<close>

definition answerable :: "'w ref_sys \<Rightarrow> bool" where
  "answerable s \<longleftrightarrow>
     (\<forall>p \<in> set (inflight (task s)). \<forall>i. response_tx p = Some i \<longrightarrow> slot_rx (slots (conn s) i))"

text \<open>
  What the client has sent was accepted, and a close frame among it is on its way to the server, in its
  hand, or why it stopped.
\<close>

definition closes :: "message list \<Rightarrow> nat" where
  "closes ms = length (filter is_close ms)"

lemma closes_simps [simp]:
  "closes [] = 0" "closes (m # ms) = (if is_close m then Suc (closes ms) else closes ms)"
  "closes (ms @ ms') = closes ms + closes ms'"
  by (simp_all add: closes_def)

lemma no_closes: "closes ms = 0 \<longleftrightarrow> (\<forall>m \<in> set ms. \<not> is_close m)"
  by (simp add: closes_def filter_empty_conv)

definition close_told :: "link ref_sys \<Rightarrow> server_task \<Rightarrow> bool" where
  "close_told s t \<longleftrightarrow>
     (\<forall>m r. (m, r) \<in> set (sends (wire s)) \<longrightarrow> r = Ok ())
     \<and> (if stopped t then 0 < closes (offered (wire s))
        else closes (in_hand t @ to_server (net s)) = closes (offered (wire s)))"

definition peaceful ::
  "(echo_control_message, echo_control_message) serde_json \<Rightarrow> bool \<Rightarrow> link ref_sys \<Rightarrow> server_task \<Rightarrow> bool" where
  "peaceful J closing s t \<longleftrightarrow>
     peaceful_client J closing s \<and> server_okay J closing t \<and> (stopped t \<longleftrightarrow> server_left (net s))
     \<and> (client_left (net s) \<longrightarrow> finished (task s))
     \<and> close_told s t"

lemma up_effort_bounds [simp]: "up_effort m \<le> 8" "up_effort m < 9" "2 \<le> up_effort m"
  by (cases m; simp)+

lemma waiting_effort [simp]: "task_effort (waiting h) = hold_effort h" "\<not> reads_close (waiting h)" "task_okay J closing (waiting h)"
  by (cases h; simp)+

lemma data_not_close [simp]: "is_data m \<Longrightarrow> \<not> is_close m"
  by (cases m) simp_all

text \<open>The link accepts everything: the close frame of \<open>ws_close\<close> counts as a frame.\<close>

definition puts_frame :: "link \<times> wire_event list \<Rightarrow> link \<times> wire_event list \<Rightarrow> bool" where
  "puts_frame p q \<longleftrightarrow> (\<exists>m e. q = ((fst p)\<lparr>to_server := to_server (fst p) @ [m]\<rparr>, snd p @ [e])
     \<and> (e = Sent m (Ok ()) \<or> e = SinkClosed (Ok ()) \<and> m = Close None))"

lemma puts_frame_simps [simp]:
  "puts_frame p (w, snd p @ [Sent m r]) \<longleftrightarrow> w = (fst p)\<lparr>to_server := to_server (fst p) @ [m]\<rparr> \<and> r = Ok ()"
  "puts_frame p (w, snd p @ [SinkClosed r]) \<longleftrightarrow> w = (fst p)\<lparr>to_server := to_server (fst p) @ [Close None]\<rparr> \<and> r = Ok ()"
  "(w, snd p @ [e]) = p \<longleftrightarrow> False"
  by (auto simp: puts_frame_def prod_eq_iff)

lemma client_end_next:
  assumes "ws_next client_end k = Ready (k', x)"
  obtains (frame) m ms where "to_client k = m # ms" "k' = k\<lparr>to_client := ms\<rparr>" "x = Some (Ok m)"
  | (ended) "to_client k = []" "server_left k" "k' = k" "x = None"
  using assms by (cases "to_client k") (auto split: if_splits)

lemma unless_err_Ok [simp]: "unless_err (Ok ()) st k = k"
  by (simp add: unless_err_def)

locale peaceful_loop =
  fixes R :: "link ref_runtime" and cfg :: loop_config and J and closing :: bool
  assumes link: "ws_ops R = client_end" and ref: "reference R = R" and quiet: "harmless J (keepalive_frame cfg)"
begin

lemma logged_is_reference: "logged_runtime R = reference (logged_runtime R)"
  using reference_logged [of R] ref by simp

lemma loop_peaceful:
  assumes "exec R cfg (Loop arm) s = Some s'" and "peaceful_client J closing s" and "shape_inv n s"
  shows "peaceful_client J closing s'" and "arm \<noteq> SleepArm \<Longrightarrow> client_effort s' < client_effort s"
proof -
  from assms(1) obtain c k where step: "loop_step (logged_runtime R) cfg (sleep_started s) (clock s) arm (task s) (conn s) = Some (c, k)"
    and s': "s' = s\<lparr>conn := c, task := k, sleep_started := clock s\<rparr>"
    by (auto split: option.splits)
  then have spec: "loop_spec cfg arm (task s) (conn s) k c"
    by (subst (asm) logged_is_reference) (rule loop_step_spec)
  have "peaceful_client J closing s' \<and> (arm \<noteq> SleepArm \<longrightarrow> client_effort s' < client_effort s)"
    using spec
  proof (cases rule: loop_spec.cases)
    case (take_item w x)
    have "ws_next client_end (net s) = Ready (fst (ws c), x)"
      using step link take_item(1-3)
      by (auto simp: loop_step_def select_arm_def logged_ops simp del: client_end_simps split: poll.splits)
    with take_item(4) have "ws_next client_end (net s) = Ready (w, x)" by simp
    then show ?thesis
      by (cases rule: client_end_next)
        (use take_item s' assms(2) in \<open>auto simp: peaceful_client_def client_effort_def\<close>)
  qed (use s' assms(2,3) in \<open>auto simp: peaceful_client_def client_effort_def shape_inv_def\<close>)
  then show "peaceful_client J closing s'" "arm \<noteq> SleepArm \<Longrightarrow> client_effort s' < client_effort s" by blast+
qed

lemma handler_wire:
  assumes "handler_step (logged_runtime R) cfg j c = (c', k')"
  shows "ws c' = ws c \<or> puts_frame (ws c) (ws c')"
proof (cases j)
  case (SendJob pm h)
  with assms obtain st where "send_socket_message (logged_runtime R) pm c = (c', st)"
    by (auto simp: handler_step_def split: prod.splits)
  with send_socket_message_ws [OF this] link show ?thesis
    by (auto simp: logged_def split_beta dest!: sym [of "(_, _)" "ws c'"] split: option.splits)
next
  case (TimerJob h)
  with assms obtain st where "send_keepalive (logged_runtime R) (cfg_message cfg) c = (c', st)"
    by (auto simp: handler_step_def split: prod.splits)
  with send_keepalive_ws [OF this] link show ?thesis
    by (auto simp: logged_def split_beta dest!: sym [of "(_, _)" "ws c'"] sym [of "(_, _)" "ws c1"])
next
  case (ReadJob item)
  obtain c1 inc where inc: "handle_incoming (logged_runtime R) item c = (c1, inc)"
    by (cases "handle_incoming (logged_runtime R) item c")
  from inc ReadJob assms have "ws c' = ws c1"
    by (auto simp: handler_step_def deliver_fast_def split: incoming.splits prod.splits sum.splits)
  with handle_incoming_ws [OF inc] link show ?thesis
    by (auto simp: logged_def split_beta dest!: sym [of "(_, _)" "ws c'"] sym [of "(_, _)" "ws c1"])
qed

lemma work_peaceful:
  assumes "exec R cfg Work s = Some s'" and "peaceful_client J closing s" and "shape_inv n s"
    and pend: "answerable s"
  shows "peaceful_client J closing s'" and "client_effort s' < client_effort s"
proof -
  from assms(1) obtain c k j where step: "handler_step (logged_runtime R) cfg j (conn s) = (c, k)" and j: "task s = Busy j"
    and s': "s' = s\<lparr>conn := c, task := k, sleep_started := clock s\<rparr>"
    by (auto simp: work_step_def split: option.splits task.splits prod.splits)
  then have spec: "work_spec cfg j (conn s) k c"
    by (subst (asm) logged_is_reference) (rule handler_step_spec)
  have "peaceful_client J closing s' \<and> client_effort s' < client_effort s"
    using spec
  proof (cases rule: work_spec.cases)
    case (send_plain p w res h)
    with handler_wire [OF step] s' j assms(2) show ?thesis
      by (auto simp: peaceful_client_def client_effort_def)
  next
    case (send_answered p i w res h)
    with handler_wire [OF step] s' j assms(2) show ?thesis
      by (auto simp: peaceful_client_def client_effort_def)
  next
    case (send_cancelled p i w res h)
    with pend j show ?thesis by (simp add: answerable_def)
  next
    case (keepalive w res h)
    with handler_wire [OF step] s' j assms(2) quiet show ?thesis
      by (auto simp: peaceful_client_def client_effort_def okay_def)
  next
    case (read_ping w res b)
    with handler_wire [OF step] s' j assms(2) show ?thesis
      by (auto simp: peaceful_client_def client_effort_def okay_def)
  next
    case (read_close w res f)
    with handler_wire [OF step] s' j assms(2) show ?thesis
      by (auto simp: peaceful_client_def client_effort_def okay_def)
  qed (use s' j assms(2,3) in \<open>auto simp: peaceful_client_def client_effort_def shape_inv_def\<close>)
  then show "peaceful_client J closing s'" "client_effort s' < client_effort s" by blast+
qed

lemma R_ops [simp]: "tx_ops R = chan_ops" "rx_ops R = chan_ops" "os_ops R = slot_ops"
  by (subst ref [symmetric], simp)+

lemma call_started:
  assumes "start_call i m consults p s = Some s'" and "\<forall>i. calls s i \<noteq> Cancelled"
    and "\<forall>c r. p = Ready (c, r) \<longrightarrow> (\<exists>qs. buf (tx_chan c) = buf (tx_chan (conn s)) @ qs \<and> set qs \<subseteq> {q})"
  shows "rx_handle s' = rx_handle s" "tx_handles s' = tx_handles s" "\<forall>i. calls s' i \<noteq> Cancelled"
    "\<exists>qs. buf (tx_chan (conn s')) = buf (tx_chan (conn s)) @ qs \<and> set qs \<subseteq> {q}"
  using assms by (auto simp: start_call_def split: if_splits poll.splits option.splits)

lemma handles_keep:
  assumes "exec R cfg a s = Some s'" and "benign J closing a" and "a \<noteq> Work" and "a \<noteq> Exit" and "\<And>arm. a \<noteq> Loop arm"
    and "\<forall>i. calls s i \<noteq> Cancelled" and "0 < tx_handles s"
  shows "rx_handle s' = rx_handle s \<and> 0 < tx_handles s' \<and> (\<forall>i. calls s' i \<noteq> Cancelled)
    \<and> (\<exists>qs. buf (tx_chan (conn s')) = buf (tx_chan (conn s)) @ qs \<and> (\<forall>q \<in> set qs. okay J closing (payload_message q)))"
proof (cases a)
  case (SendConfirmed i m)
  let ?q = "\<lparr>payload_message = m, response_tx = Some i\<rparr>"
  from SendConfirmed assms(1) have call: "start_call i m True (send_confirmed (logged_runtime R) i m (conn s)) s = Some s'" by simp
  have "\<forall>c r. send_confirmed (logged_runtime R) i m (conn s) = Ready (c, r)
      \<longrightarrow> (\<exists>qs. buf (tx_chan c) = buf (tx_chan (conn s)) @ qs \<and> set qs \<subseteq> {?q})"
    by (auto simp: op_defs chan_send_def Let_def split: if_splits)
  from call_started [OF call assms(6) this] SendConfirmed assms(2,7) show ?thesis
    by (fastforce simp: okay_def)
next
  case (SendClose i)
  let ?q = "\<lparr>payload_message = close_message, response_tx = Some i\<rparr>"
  from SendClose assms(1) have call: "start_call i close_message False (send_close (logged_runtime R) i (conn s)) s = Some s'" by simp
  have "\<forall>c r. send_close (logged_runtime R) i (conn s) = Ready (c, r)
      \<longrightarrow> (\<exists>qs. buf (tx_chan c) = buf (tx_chan (conn s)) @ qs \<and> set qs \<subseteq> {?q})"
    by (auto simp: op_defs chan_send_def Let_def split: if_splits)
  from call_started [OF call assms(6) this] SendClose assms(2,7) show ?thesis
    by (fastforce simp: okay_def close_message_def)
next
  case (SendUnconfirmed m)
  with assms show ?thesis
    by (auto simp: op_defs chan_send_def okay_def split: if_splits)
next
  case Recv
  with assms show ?thesis
    by (auto simp: op_defs chan_recv_def split: if_splits list.splits option.splits)
next
  case PollRecv
  with assms show ?thesis
    by (auto simp: op_defs chan_recv_def split: if_splits list.splits option.splits)
next
  case (Await i)
  with assms show ?thesis
    by (auto simp: op_defs slot_recv_def split: if_splits option.splits)
next
  case Join
  with assms show ?thesis
    by (auto simp: op_defs split: task.splits)
next
  case CloneTx
  with assms show ?thesis
    by (auto simp: chan_clone_tx_def)
qed (use assms in auto)

lemma handles_same:
  assumes "exec R cfg a s = Some s'" and "benign J closing a" and "a \<noteq> Work" and "a \<noteq> Exit" and "\<And>arm. a \<noteq> Loop arm"
  shows "task s' = task s" "ws (conn s') = ws (conn s)"
proof -
  from assms(2) have "\<not> by_network a" by (cases a) simp_all
  with assms exec_keeps_task(1) [OF assms(1)] exec_other_ws [OF assms(1)]
  show "task s' = task s" "ws (conn s') = ws (conn s)" by auto
qed

lemma handles_peaceful:
  assumes "exec R cfg a s = Some s'" and "benign J closing a" and "peaceful_client J closing s"
    and "a \<noteq> Work" and "a \<noteq> Exit" and "\<And>arm. a \<noteq> Loop arm"
  shows "peaceful_client J closing s'"
  using handles_same [OF assms(1,2,4,5,6)] handles_keep [OF assms(1,2,4,5,6)] assms(3)
  unfolding peaceful_client_def by auto

lemma recv_effort:
  assumes "exec R cfg Recv s = Some s'" and "peaceful_client J closing s" and "shape_inv n s" and "active (task s)"
  shows "client_effort s' < client_effort s"
  using assms
  by (auto simp: client_effort_def shape_inv_def recv_raw_def chan_recv_def peaceful_client_def
      split: if_splits list.splits)

lemma exit_peaceful:
  assumes "exec R cfg Exit s = Some s'" and "peaceful_client J closing s"
  shows "peaceful_client J closing s'" and "client_effort s' < client_effort s"
  using assms
  by (cases "task s"; auto simp: peaceful_client_def client_effort_def op_defs chan_simps)+

end

section \<open>Client and server\<close>

text \<open>
  What a step of the client does to the way to the server: what it offers is accepted and gets on its way.
\<close>

definition posts :: "link ref_sys \<Rightarrow> link ref_sys \<Rightarrow> bool" where
  "posts s s' \<longleftrightarrow>
     client_left (net s') = client_left (net s) \<and> server_left (net s') = server_left (net s)
     \<and> (\<exists>ms es. to_server (net s') = to_server (net s) @ ms \<and> wire s' = wire s @ es
          \<and> (active (task s') \<longrightarrow> offered es = ms) \<and> (\<forall>m r. (m, r) \<in> set (sends es) \<longrightarrow> r = Ok ()))"

lemma posts_same: "ws (conn s') = ws (conn s) \<Longrightarrow> posts s s'"
  by (simp add: posts_def)

text \<open>When it finishes it drops its end.\<close>

definition leaving :: "link ref_sys \<Rightarrow> link ref_sys \<Rightarrow> link ref_sys" where
  "leaving s s' = (if finished (task s') \<and> \<not> finished (task s) then on_network (leave_client (net s')) s' else s')"

lemma leave_client_simps [simp]:
  "to_server (leave_client k) = to_server k" "to_client (leave_client k) = to_client k" "client_left (leave_client k)"
  "server_left (leave_client k) = server_left k"
  by (simp_all add: leave_client_def)

lemma leaving_simps [simp]:
  "close_told (leaving s s') t = close_told s' t" "task (leaving s s') = task s'"
  "client_effort (leaving s s') = client_effort s'"
  by (simp_all add: close_told_def leaving_def client_effort_def)

lemma leave_server_simps [simp]:
  "to_server (leave_server k) = to_server k" "to_client (leave_server k) = to_client k"
  "client_left (leave_server k) = client_left k" "server_left (leave_server k)"
  by (simp_all add: leave_server_def)

text \<open>The server answers a harmless frame with at most one frame, a pong with none.\<close>

lemma echo_turn_harmless:
  assumes "harmless J m"
  shows "\<exists>reply l'. echo_turn (logged server_end) J (Inr m) False (k, l)
      = ((k\<lparr>to_client := to_client k @ reply\<rparr>, l'), Continue False)
    \<and> (\<forall>m' \<in> set reply. \<not> is_close m') \<and> 6 * length reply < up_effort m - 1"
  using assms
  by (cases m)
    (auto simp: echo_turn_def answer_control_def reply_with_def unwrap_or_panic_def logged_def harmless_def
      split: sum.splits echo_control_message.splits intro: exI [of _ "[]"] exI [of _ "[_]"])

lemma echo_turn_closes:
  "\<exists>l'. echo_turn (logged server_end) J (Inr (Close f)) False (k, l)
      = ((k\<lparr>to_client := to_client k @ [Close None]\<rparr>, l'), Leave (ServerReturned (Ok False)))"
  by (simp add: echo_turn_def answer_close_def unwrap_or_panic_def logged_def)

lemma is_close_iff: "is_close m \<longleftrightarrow> (\<exists>f. m = Close f)"
  by (cases m) simp_all

lemma server_end_next:
  assumes "ws_next (logged server_end) (k, l) = Ready (q, x)"
  obtains (frame) m ms l' where "to_server k = m # ms" "q = (k\<lparr>to_server := ms\<rparr>, l')" "x = Some (Ok m)"
  | (ended) "to_server k = []" "client_left k" "x = None"
  using assms by (cases "to_server k") (auto simp: logged_def split: if_splits)

lemma peaceful_server_step:
  assumes "serve_step (logged server_end) (echo_turn (logged server_end) J) t (net s, l) = Some ((k, l'), t')"
    and "peaceful J closing s t" and s': "s' = on_network (if stopped t' then leave_server k else k) s"
  shows "peaceful J closing s' t'" and "client_effort s' + server_effort t' < client_effort s + server_effort t"
proof -
  have "peaceful J closing s' t' \<and> client_effort s' + server_effort t' < client_effort s + server_effort t"
  proof (cases t)
    case (Serving sd)
    with assms(1) obtain q x where x: "ws_next (logged server_end) (net s, l) = Ready (q, x)"
      "((k, l'), t') = (q, case x of None \<Rightarrow> Stopped (ServerReturned (Ok sd)) | Some m \<Rightarrow> Handling sd m)"
      by (auto split: poll.splits option.splits)
    from x(1) show ?thesis
    proof (cases rule: server_end_next)
      case (frame m ms l1)
      have "2 \<le> up_effort m" by simp
      with frame x(2) Serving assms(2) s' show ?thesis
        by (auto simp: peaceful_def peaceful_client_def close_told_def client_effort_def simp del: up_effort_bounds)
    next
      case ended
      with assms(2) Serving have False
        by (cases "task s") (auto simp: peaceful_def peaceful_client_def)
      then show ?thesis ..
    qed
  next
    case (Handling sd item)
    with assms(2) obtain m where m: "item = Inr m" "\<not> sd" "okay J closing m"
      by (cases item) (auto simp: peaceful_def)
    show ?thesis
    proof (cases "harmless J m")
      case True
      from echo_turn_harmless [OF this, of "net s" l] obtain reply l1 where
        turn: "echo_turn (logged server_end) J (Inr m) False (net s, l)
            = ((net s\<lparr>to_client := to_client (net s) @ reply\<rparr>, l1), Continue False)"
        and reply: "\<forall>m' \<in> set reply. \<not> is_close m'" "6 * length reply < up_effort m - 1" by blast
      have s'': "t' = Serving False" "s' = on_network (net s\<lparr>to_client := to_client (net s) @ reply\<rparr>) s"
        using assms(1) turn m Handling s' by (auto simp: after_turn_def)
      from True have "\<not> is_close m" by (auto simp: is_close_iff)
      with assms(2) Handling m reply(1) have "peaceful J closing s' t'"
        unfolding s'' peaceful_def peaceful_client_def close_told_def by auto
      moreover have "client_effort s' + server_effort t' < client_effort s + server_effort t"
        unfolding s'' using reply(2) Handling m by (auto simp: client_effort_def)
      ultimately show ?thesis ..
    next
      case False
      with m obtain f where f: "m = Close f" closing by (auto simp: okay_def is_close_iff)
      from echo_turn_closes [of J f "net s" l] m f Handling assms(1,2) s' show ?thesis
        by (auto simp: peaceful_def peaceful_client_def close_told_def client_effort_def after_turn_def)
    qed
  qed (use assms(1) in simp)
  then show "peaceful J closing s' t'" "client_effort s' + server_effort t' < client_effort s + server_effort t" by blast+
qed

context peaceful_loop
begin

lemma client_moves:
  assumes "exec R cfg a s = Some s'" and "benign J closing a" and "peaceful_client J closing s" and "shape_inv n s"
    and "answerable s"
  shows "peaceful_client J closing s'"
    and "own_client a \<Longrightarrow> active (task s) \<or> a \<noteq> Recv \<Longrightarrow> client_effort s' < client_effort s"
proof -
  show "peaceful_client J closing s'"
    using assms loop_peaceful [of _ s s'] work_peaceful [of s s'] exit_peaceful [of s s'] handles_peaceful [OF assms(1-3)]
    by blast
  show "client_effort s' < client_effort s" if "own_client a" "active (task s) \<or> a \<noteq> Recv"
    using that assms loop_peaceful [of _ s s'] work_peaceful [of s s'] exit_peaceful [of s s'] recv_effort [of s s']
    by (cases a) auto
qed

lemma loop_posts:
  assumes "exec R cfg (Loop arm) s = Some s'"
  shows "posts s s'"
proof -
  from assms obtain c k where step: "loop_step (logged_runtime R) cfg (sleep_started s) (clock s) arm (task s) (conn s) = Some (c, k)"
    and s': "s' = s\<lparr>conn := c, task := k, sleep_started := clock s\<rparr>"
    by (auto split: option.splits)
  from step link have "ws c = ws (conn s) \<or> (\<exists>x. ws_next (logged client_end) (ws (conn s)) = Ready (ws c, x))"
    by (cases "task s"; cases arm)
      (auto simp: loop_step_def select_arm_def backpressure_arm_def simp del: client_end_simps
        split: poll.splits option.splits if_splits sum.splits)
  then show ?thesis
  proof (elim disjE exE)
    fix x
    assume "ws_next (logged client_end) (ws (conn s)) = Ready (ws c, x)"
    then obtain w where "ws_next client_end (net s) = Ready (w, x)" "ws c = (w, wire s @ [Received x])"
      by (auto simp: logged_ops simp del: client_end_simps)
    then show ?thesis
      by (auto simp: posts_def s' simp del: client_end_simps elim!: client_end_next)
  qed (simp add: posts_same s')
qed

lemma work_posts:
  assumes "exec R cfg Work s = Some s'"
  shows "posts s s'"
proof -
  from assms obtain c k j where step: "handler_step (logged_runtime R) cfg j (conn s) = (c, k)" and j: "task s = Busy j"
    and s': "s' = s\<lparr>conn := c, task := k, sleep_started := clock s\<rparr>"
    by (auto simp: work_step_def split: option.splits task.splits prod.splits)
  then have spec: "work_spec cfg j (conn s) k c"
    by (subst (asm) logged_is_reference) (rule handler_step_spec)
  from handler_wire [OF step] show ?thesis
  proof
    assume "puts_frame (ws (conn s)) (ws c)"
    then obtain m e where put: "ws c = ((net s)\<lparr>to_server := to_server (net s) @ [m]\<rparr>, wire s @ [e])"
      "e = Sent m (Ok ()) \<or> e = SinkClosed (Ok ()) \<and> m = Close None"
      by (auto simp: puts_frame_def)
    from put(1) have "snd (ws c) = wire s @ [e]" by simp
    then have "\<not> active k" if "e = SinkClosed (Ok ())"
      using that by (cases rule: work_spec.cases [OF spec]) auto
    with put show ?thesis
      by (auto simp: posts_def s' intro!: exI [of _ "[m]"])
  qed (simp add: posts_same s')
qed

lemma client_posts:
  assumes "exec R cfg a s = Some s'" and "benign J closing a"
  shows "posts s s'"
proof (cases "a = Work \<or> a = Exit \<or> (\<exists>arm. a = Loop arm)")
  case True
  then show ?thesis
  proof (elim disjE exE)
    assume "a = Exit"
    with assms(1) have "ws (conn s') = ws (conn s)"
      by (auto simp: op_defs split: task.splits option.splits loop_state.splits prod.splits)
    then show ?thesis by (rule posts_same)
  qed (use assms(1) loop_posts work_posts in \<open>auto simp del: exec.simps\<close>)
next
  case False
  with handles_same [OF assms] show ?thesis by (auto intro: posts_same)
qed

lemma posts_close_told:
  assumes "posts s s'" and "close_told s t" and "\<not> stopped t \<Longrightarrow> active (task s')"
  shows "close_told s' t"
  using assms by (auto simp: posts_def close_told_def)

lemma inactive_stays:
  assumes "exec R cfg a s = Some s'" and "benign J closing a" and "finished (task s)"
  shows "finished (task s')"
  using assms exec_keeps_task(1) [OF assms(1)]
  by (cases "a = Work \<or> a = Exit \<or> (\<exists>arm. a = Loop arm)")
    (auto simp: exit_step_def work_step_def loop_step_def split: task.splits)

lemma peaceful_client_step:
  assumes "exec R cfg a s = Some s'" and "benign J closing a" and "peaceful J closing s t" and "shape_inv n s"
    and "answerable s"
  shows "peaceful J closing (leaving s s') t"
    and "own_client a \<Longrightarrow> active (task s) \<or> a \<noteq> Recv \<Longrightarrow> client_effort (leaving s s') < client_effort s"
proof -
  have client: "peaceful_client J closing s" and old: "server_okay J closing t" "stopped t \<longleftrightarrow> server_left (net s)"
    "client_left (net s) \<longrightarrow> finished (task s)" "close_told s t"
    using assms(3) by (simp_all add: peaceful_def)
  note moves = client_moves [OF assms(1,2) client assms(4,5)]
  note posts = client_posts [OF assms(1,2)]
  from moves(1) posts old(2) have "\<not> stopped t \<Longrightarrow> active (task s')"
    by (cases "task s'") (auto simp: peaceful_client_def posts_def)
  from posts_close_told [OF posts old(4) this] have "close_told (leaving s s') t" by simp
  moreover have "peaceful_client J closing (leaving s s')"
    using moves(1) by (simp add: peaceful_client_def leaving_def)
  moreover have "stopped t \<longleftrightarrow> server_left (net (leaving s s'))"
    using posts old(2) by (simp add: leaving_def posts_def)
  moreover have "client_left (net (leaving s s')) \<longrightarrow> finished (task s')"
    using posts old(3) inactive_stays [OF assms(1,2)] by (auto simp: leaving_def posts_def)
  ultimately show "peaceful J closing (leaving s s') t"
    using old(1) by (simp add: peaceful_def)
  show "own_client a \<Longrightarrow> active (task s) \<or> a \<noteq> Recv \<Longrightarrow> client_effort (leaving s s') < client_effort s"
    using moves(2) by simp
qed

end

end
