(* ===== verification/Echo_Rest.thy ===== *)
theory Echo_Rest
  imports Settling
begin

text \<open>
  Client and echo server over the reference link with room for everything, on any runtime: what was
  sent comes back.
\<close>

section \<open>The reliable connection\<close>

definition reliable_env ::
  "('t, 'r, 'o, link) runtime \<Rightarrow> loop_config \<Rightarrow> (echo_control_message, echo_control_message) serde_json
    \<Rightarrow> ('t, 'r, 'o, link) env" where
  "reliable_env R cfg J =
     \<lparr>client_runtime = R, client_config = cfg, server_ops = server_end, server_json = J,
      client_drops = leave_client, server_drops = leave_server, room_up = (\<lambda>k. True), room_down = (\<lambda>k. True)\<rparr>"

lemma reliable_env_simps [simp]:
  "client_runtime (reliable_env R cfg J) = R" "client_config (reliable_env R cfg J) = cfg"
  "server_ops (reliable_env R cfg J) = server_end" "server_json (reliable_env R cfg J) = J"
  "client_drops (reliable_env R cfg J) = leave_client" "server_drops (reliable_env R cfg J) = leave_server"
  "room_up (reliable_env R cfg J) k" "room_down (reliable_env R cfg J) k"
  by (simp_all add: reliable_env_def)

text \<open>What the loop sends by itself to keep the connection alive must not make the server leave or answer.\<close>

locale reliable_link = tokio R vt vr vo
  for R :: "('t, 'r, 'o, link) runtime" and vt vr vo +
  fixes cfg :: loop_config and J :: "(echo_control_message, echo_control_message) serde_json"
  assumes link: "ws_ops R = client_end" and quiet: "harmless J (keepalive_frame cfg)"
    and unanswered: "echo_reply J (keepalive_frame cfg) = []"

sublocale reliable_link \<subseteq> peaceful: peaceful_loop "reference R" cfg J closing for closing
  by unfold_locales (simp_all add: link quiet reference_def)

lemma answerable_calls: "outbound_inv cfg s \<Longrightarrow> \<forall>i. calls s i \<noteq> Cancelled \<Longrightarrow> answerable s"
  by (fastforce simp: outbound_inv_def calls_rel_def call_rel_def answerable_def ids_set)

definition world_effort ::
  "('t \<Rightarrow> payload chan) \<Rightarrow> ('r \<Rightarrow> message chan) \<Rightarrow> ('o \<Rightarrow> reply slot) \<Rightarrow> ('t, 'r, 'o, link) world \<Rightarrow> nat" where
  "world_effort vt vr vo w = client_effort (sys_view vt vr vo (client w)) + server_effort (server w)"

context reliable_link
begin

abbreviation peaceful_world :: "bool \<Rightarrow> ('t, 'r, 'o, link) world \<Rightarrow> bool" where
  "peaceful_world closing w \<equiv> peaceful J closing (view (client w)) (server w)"

lemma network_axioms:
  "echo_network (reliable_env R cfg J) (\<lambda>k. data_only (to_server k)) (\<lambda>k. data_only (to_client k)) vt vr vo"
  using reference_link.duplex_axioms tokio_axioms by (simp add: echo_network_def link)

lemma step_or_back:
  assumes "world_reachable (reliable_env R cfg J) n fresh_link w" and "serving w" and "looping w" and "rx_handle (client w)"
  shows "(\<exists>a. unprompted a \<and> world_exec (reliable_env R cfg J) a w \<noteq> None)
    \<or> delivered (client w) = echoes J (map payload_message (queued (client w)))"
proof -
  have read: "data_only (to_server (network w)) \<noteq> [] \<Longrightarrow> ws_next (server_ops (reliable_env R cfg J)) (network w) \<noteq> Pending"
    "data_only (to_client (network w)) \<noteq> [] \<Longrightarrow> ws_next (ws_ops (client_runtime (reliable_env R cfg J))) (network w) \<noteq> Pending"
    by (auto simp: link split: list.splits)
  have "data_only (to_server fresh_link) = []" "data_only (to_client fresh_link) = []"
    "echo_reply (server_json (reliable_env R cfg J)) (keepalive_frame (client_config (reliable_env R cfg J))) = []"
    "room_up (reliable_env R cfg J) (network w)" "room_down (reliable_env R cfg J) (network w)"
    by (simp_all add: fresh_link_def unanswered)
  from echo_network.step_or_all_back [OF network_axioms assms(1) this(1-3) assms(2-4) this(4,5) read]
  show ?thesis by simp
qed

lemma view_on_network: "view (on_network k s) = on_network k (view s)"
  by (simp add: on_network_def sys_view_def conn_view_def)

lemma client_world_step:
  assumes "world_reachable (reliable_env R cfg J) n k w" and "peaceful_world closing w"
    and "client_exec (reliable_env R cfg J) a w = Some w'" and "benign J closing a"
  shows "peaceful_world closing w'"
    and "own_client a \<Longrightarrow> looping w \<or> a \<noteq> Recv \<Longrightarrow> world_effort vt vr vo w' < world_effort vt vr vo w"
proof -
  from assms(3) obtain s where s: "exec R cfg a (client w) = Some s"
    and w': "w' = w\<lparr>client := if finished (task s) \<and> \<not> finished (task (client w)) then on_network (leave_client (net s)) s else s\<rparr>"
    by (auto simp: client_exec_def split: if_splits option.splits)
  have leaves: "view (client w') = leaving (view (client w)) (view s)"
    by (simp add: w' leaving_def view_on_network)
  have server: "server w' = server w" by (simp add: w')
  have reach: "reachable R cfg n (client w)"
    using client_reachable [OF assms(1)] by simp
  have "\<forall>i. calls (view (client w)) i \<noteq> Cancelled"
    using assms(2) by (simp add: peaceful_def peaceful_client_def)
  from peaceful.peaceful_client_step [OF exec_view [OF s] assms(4,2) view_shape [OF reach]
      answerable_calls [OF view_outbound [OF reach] this]]
  show "peaceful_world closing w'"
    "own_client a \<Longrightarrow> looping w \<or> a \<noteq> Recv \<Longrightarrow> world_effort vt vr vo w' < world_effort vt vr vo w"
    by (simp_all add: leaves world_effort_def flip: server)
qed

lemma server_world_step:
  assumes "peaceful_world closing w" and "server_exec (reliable_env R cfg J) w = Some w'"
  shows "peaceful_world closing w'" and "world_effort vt vr vo w' < world_effort vt vr vo w"
proof -
  from assms(2) obtain k l t where
    t: "serve_step (logged server_end) (echo_turn (logged server_end) J) (server w) (network w, server_log w) = Some ((k, l), t)"
    and w': "w' = w\<lparr>client := on_network (if stopped t then leave_server k else k) (client w), server := t, server_log := l\<rparr>"
    by (auto simp: server_exec_def simp del: serve_step.simps split: option.splits if_splits)
  have "net (view (client w)) = network w" by simp
  from peaceful_server_step [OF t [folded this] assms(1) refl]
  show "peaceful_world closing w'" "world_effort vt vr vo w' < world_effort vt vr vo w"
    by (simp_all add: w' world_effort_def view_on_network)
qed

lemma init_peaceful:
  assumes "init_world (reliable_env R cfg J) n fresh_link = Some w"
  shows "peaceful_world False w" "queued (client w) = []"
proof -
  from assms obtain s where s: "init_sys R n fresh_link = Some s" "w = \<lparr>client = s, server = Serving False, server_log = []\<rparr>"
    by (auto simp: init_world_def)
  from init_sys_reference [OF init_view [OF s(1)]] s(2) have "peaceful_world False w" "queued (view (client w)) = []"
    by (auto simp: peaceful_def peaceful_client_def close_told_def fresh_link_def)
  then show "peaceful_world False w" "queued (client w) = []" by simp_all
qed

end

fun benign_step :: "(echo_control_message, echo_control_message) serde_json \<Rightarrow> 'n world_action \<Rightarrow> bool" where
  "benign_step J (Client a) = benign J False a"
| "benign_step J Server = True"

text \<open>The invariant of the settling system, for what was queued so far, and its goal.\<close>

definition undisturbed ::
  "('t, 'r, 'o, link) runtime \<Rightarrow> ('t \<Rightarrow> payload chan) \<Rightarrow> ('r \<Rightarrow> message chan) \<Rightarrow> ('o \<Rightarrow> reply slot)
    \<Rightarrow> loop_config \<Rightarrow> (echo_control_message, echo_control_message) serde_json \<Rightarrow> nat \<Rightarrow> payload list
    \<Rightarrow> ('t, 'r, 'o, link) world \<Rightarrow> bool" where
  "undisturbed R vt vr vo cfg J n q w \<longleftrightarrow>
     world_reachable (reliable_env R cfg J) n fresh_link w \<and> queued (client w) = q
     \<and> peaceful J False (sys_view vt vr vo (client w)) (server w)"

definition all_back ::
  "(echo_control_message, echo_control_message) serde_json \<Rightarrow> payload list \<Rightarrow> ('t, 'r, 'o, link) world \<Rightarrow> bool" where
  "all_back J q w \<longleftrightarrow> looping w \<and> serving w \<and> delivered (client w) = echoes J (map payload_message q)"

lemma peaceful_goes_on: "peaceful J False s t \<Longrightarrow> active (task s) \<and> \<not> stopped t \<and> rx_handle s"
  by (cases "task s"; cases t) (auto simp: peaceful_def peaceful_client_def)

lemma unprompted_cases:
  assumes "unprompted a"
  obtains "a = Server" | b where "a = Client b" "own_client b" "benign J False b"
  using assms by (cases a rule: unprompted.cases) auto

sublocale reliable_link \<subseteq> rest: settling "world_exec (reliable_env R cfg J)" unprompted
  "undisturbed R vt vr vo cfg J n q" "all_back J q" "world_effort vt vr vo" for n q
proof
  fix w w' and a :: "link world_action"
  assume inv: "undisturbed R vt vr vo cfg J n q w" and a: "unprompted a"
    and step: "world_exec (reliable_env R cfg J) a w = Some w'"
  from inv have w: "world_reachable (reliable_env R cfg J) n fresh_link w" "queued (client w) = q" "peaceful_world False w"
    by (simp_all add: undisturbed_def)
  have "queued (client w') = queued (client w)"
    using step a by (cases a rule: unprompted.cases)
      (auto simp: client_exec_def server_exec_def simp del: serve_step.simps split: if_splits option.splits prod.splits poll.splits sum.splits)
  moreover from a have "peaceful_world False w' \<and> world_effort vt vr vo w' < world_effort vt vr vo w"
  proof (cases rule: unprompted_cases [where J = J])
    case 1
    with step server_world_step [OF w(3)] show ?thesis by simp
  next
    case (2 b)
    with step client_world_step [OF w(1,3)] peaceful_goes_on [OF w(3)] show ?thesis by simp
  qed
  ultimately show "undisturbed R vt vr vo cfg J n q w' \<and> world_effort vt vr vo w' < world_effort vt vr vo w"
    using w world_reachable.step [OF w(1) step] by (simp add: undisturbed_def)
next
  fix w
  assume inv: "undisturbed R vt vr vo cfg J n q w" and rest: "at_rest (world_exec (reliable_env R cfg J)) unprompted w"
  from inv have w: "world_reachable (reliable_env R cfg J) n fresh_link w" "queued (client w) = q" "peaceful_world False w"
    by (simp_all add: undisturbed_def)
  from peaceful_goes_on [OF w(3)] have on: "serving w" "looping w" "rx_handle (client w)" by simp_all
  from step_or_back [OF w(1) on]
  have "(\<exists>a. unprompted a \<and> world_exec (reliable_env R cfg J) a w \<noteq> None)
      \<or> delivered (client w) = echoes J (map payload_message (queued (client w)))" .
  with rest on w(2) show "all_back J q w" by (auto simp: at_rest_def all_back_def)
qed

context reliable_link
begin

lemma settles_bounded:
  assumes "undisturbed R vt vr vo cfg J n q w" and "list_all unprompted bs"
    and "world_run (reliable_env R cfg J) bs w = Some w'"
  shows "undisturbed R vt vr vo cfg J n q w' \<and> length bs \<le> world_effort vt vr vo w"
  using rest.run_bounded [OF assms(1,2) assms(3) [unfolded world_run_of]] by simp

lemma settles_at_rest:
  assumes "undisturbed R vt vr vo cfg J n q w"
  shows "\<exists>bs w'. list_all unprompted bs \<and> world_run (reliable_env R cfg J) bs w = Some w'
    \<and> at_rest (world_exec (reliable_env R cfg J)) unprompted w'"
  using rest.run_to_rest [OF assms] by (simp add: world_run_of)

lemma settles_goal:
  assumes "undisturbed R vt vr vo cfg J n q w" and "at_rest (world_exec (reliable_env R cfg J)) unprompted w"
  shows "all_back J q w"
  using rest.rest_goal [OF assms] .

end

lemma world_step_peaceful:
  assumes "reliable_link R vt vr vo cfg J" and "world_reachable (reliable_env R cfg J) n fresh_link w"
    and "peaceful J False (sys_view vt vr vo (client w)) (server w)"
    and "benign_step J a" and "world_exec (reliable_env R cfg J) a w = Some w'"
  shows "peaceful J False (sys_view vt vr vo (client w')) (server w')"
  using assms(4,5) reliable_link.client_world_step(1) [OF assms(1-3)] reliable_link.server_world_step(1) [OF assms(1,3)]
  by (cases a) auto

lemma benign_run_undisturbed:
  assumes "reliable_link R vt vr vo cfg J" and "init_world (reliable_env R cfg J) n fresh_link = Some w0"
    and "world_run (reliable_env R cfg J) as w0 = Some w" and "list_all (benign_step J) as"
  shows "undisturbed R vt vr vo cfg J n (queued (client w)) w"
proof -
  have run: "peaceful J False (sys_view vt vr vo (client v')) (server v')"
    if "world_reachable (reliable_env R cfg J) n fresh_link v" and "peaceful J False (sys_view vt vr vo (client v)) (server v)"
      and "world_run (reliable_env R cfg J) bs v = Some v'" and "list_all (benign_step J) bs" for bs v v'
    using that
  proof (induction bs arbitrary: v)
    case (Cons b bs)
    from Cons.prems(3) obtain u where u: "world_exec (reliable_env R cfg J) b v = Some u"
      "world_run (reliable_env R cfg J) bs u = Some v'" by (auto split: option.splits)
    from Cons.IH [OF world_reachable.step [OF Cons.prems(1) u(1)] _ u(2)]
      world_step_peaceful [OF assms(1) Cons.prems(1,2) _ u(1)] Cons.prems(4) show ?case by simp
  qed simp
  from run [OF world_reachable.start [OF assms(2)] reliable_link.init_peaceful(1) [OF assms(1,2)] assms(3,4)]
    init_world_run_reachable [OF assms(2,3)]
  show ?thesis by (simp add: undisturbed_def)
qed

section \<open>Everything comes back\<close>


interpretation queue_link: reliable_link "queue_runtime client_end" queue_view queue_view id no_keepalive echo_json
  using queue_runtime_tokio [of client_end]
  by (simp add: reliable_link_def reliable_link_axioms_def keepalive_frame_def no_keepalive_def echo_reply_def)

lemma harmless_chat: "harmless echo_json (chat s)"
  by (simp add: harmless_def chat_reads)

definition queue_run :: "link world_action list \<Rightarrow> (payload queue, message queue, reply slot, link) world option" where
  "queue_run as = Option.bind (init_world (reliable_env (queue_runtime client_end) no_keepalive echo_json) 1 fresh_link)
     (world_run (reliable_env (queue_runtime client_end) no_keepalive echo_json) as)"


end
