(* ===== verification/Echo_Chat.thy ===== *)
theory Echo_Chat
  imports End_To_End Client
begin

text \<open>
  The example program of the repository (\<open>examples/echo_chat.rs\<close>): connect to the echo server, send a
  message, receive the answer, check that it is the message, close. \<open>main\<close> is a program of its own
  beside the loop and the server: \<open>main_step\<close> is its next await, so it runs under every interleaving.
\<close>

section \<open>The program\<close>

text \<open>
  Where \<open>main\<close> is. A failed \<open>unwrap\<close> and a failed \<open>assert_eq!\<close> are panics, kept apart.
\<close>

datatype chat_phase =
    ChatConnected
  | ChatSending
  | ChatReceiving
  | ChatChecked
  | ChatClosing
  | ChatReturned
  | ChatUnwrapFailed
  | ChatAssertFailed

definition hello :: echo_control_message where
  "hello = EchoMessage ''Hello, world!''"

definition unwrap_result :: "('a, error) result \<Rightarrow> ('a \<Rightarrow> chat_phase) \<Rightarrow> chat_phase" where
  "unwrap_result r go_on = (case r of Inl _ \<Rightarrow> ChatUnwrapFailed | Inr x \<Rightarrow> go_on x)"

definition assert_hello :: "echo_control_message \<Rightarrow> chat_phase" where
  "assert_hello response = (if response = hello then ChatChecked else ChatAssertFailed)"

type_synonym ('t, 'r, 'o, 'n) chat_state = "chat_phase \<times> ('t, 'r, 'o, 'n) world"

text \<open>A step of \<open>main\<close>; the calls it makes are numbered 0 (the send) and 1 (the close).\<close>

fun main_step ::
  "('t, 'r, 'o, 'n) env \<Rightarrow> (echo_control_message, echo_control_message) codec
    \<Rightarrow> chat_phase \<Rightarrow> ('t, 'r, 'o, 'n) world \<Rightarrow> ('t, 'r, 'o, 'n) chat_state option" where
  "main_step E C ChatConnected w =
     (case encode C hello of
        Inl e \<Rightarrow> Some (ChatUnwrapFailed, w)
      | Inr encoded \<Rightarrow> map_option (Pair ChatSending) (client_exec E (SendConfirmed 0 encoded) w))"
| "main_step E C ChatSending w =
     (case calls (client w) 0 of
        Done (Returned r) \<Rightarrow> Some (unwrap_result r (\<lambda>_. ChatReceiving), w)
      | Done Panicked \<Rightarrow> Some (ChatUnwrapFailed, w)
      | _ \<Rightarrow> map_option (Pair ChatSending) (client_exec E (Await 0) w))"
| "main_step E C ChatReceiving w =
     (case next_message (logged_runtime (client_runtime E)) C (conn (client w)) of
        Pending \<Rightarrow> None
      | Ready (c, r) \<Rightarrow> map_option (Pair (unwrap_result r assert_hello)) (client_exec E Recv w))"
| "main_step E C ChatChecked w = map_option (Pair ChatClosing) (client_exec E (SendClose 1) w)"
| "main_step E C ChatClosing w =
     (case calls (client w) 1 of
        Done _ \<Rightarrow>
          (case close_connection 1 (client w) of
             Pending \<Rightarrow> None
           | Ready (s, Panicked) \<Rightarrow> Some (ChatUnwrapFailed, w\<lparr>client := s\<rparr>)
           | Ready (s, Returned r) \<Rightarrow> Some (unwrap_result r (\<lambda>_. ChatReturned), w\<lparr>client := s\<rparr>))
      | _ \<Rightarrow> map_option (Pair ChatClosing) (client_exec E (Await 1) w))"
| "main_step E C _ w = None"

text \<open>Beside \<open>main\<close> there are the loop, the clock and the server.\<close>

datatype 'n chat_action = Main | Beside "'n world_action"

fun no_handle :: "'n world_action \<Rightarrow> bool" where
  "no_handle (Client (Loop _)) = True"
| "no_handle (Client Work) = True"
| "no_handle (Client Exit) = True"
| "no_handle (Client (Tick _)) = True"
| "no_handle Server = True"
| "no_handle _ = False"

fun chat_exec ::
  "('t, 'r, 'o, 'n) env \<Rightarrow> (echo_control_message, echo_control_message) codec \<Rightarrow> 'n chat_action
    \<Rightarrow> ('t, 'r, 'o, 'n) chat_state \<Rightarrow> ('t, 'r, 'o, 'n) chat_state option" where
  "chat_exec E C Main (p, w) = main_step E C p w"
| "chat_exec E C (Beside a) (p, w) = (if no_handle a then map_option (Pair p) (world_exec E a w) else None)"

definition chat_start ::
  "('t, 'r, 'o, 'n) env \<Rightarrow> nat \<Rightarrow> 'n \<Rightarrow> ('t, 'r, 'o, 'n) chat_state option" where
  "chat_start E channel_size k = map_option (Pair ChatConnected) (init_world E channel_size k)"

fun chat_run ::
  "('t, 'r, 'o, 'n) env \<Rightarrow> (echo_control_message, echo_control_message) codec \<Rightarrow> 'n chat_action list
    \<Rightarrow> ('t, 'r, 'o, 'n) chat_state \<Rightarrow> ('t, 'r, 'o, 'n) chat_state option" where
  "chat_run E C [] s = Some s"
| "chat_run E C (a # as) s = (case chat_exec E C a s of None \<Rightarrow> None | Some s' \<Rightarrow> chat_run E C as s')"

section \<open>The assertion\<close>

lemma client_exec_Recv:
  assumes "client_exec E Recv w = Some w'"
  shows "(\<exists>c m. recv_raw (logged_runtime (client_runtime E)) (conn (client w)) = Ready (c, Inr m)
        \<and> delivered (client w') = delivered (client w) @ [m])
    \<or> (\<exists>c e. recv_raw (logged_runtime (client_runtime E)) (conn (client w)) = Ready (c, Inl e))"
    and "queued (client w') = queued (client w)"
  using assms by (auto simp: client_exec_def split: if_splits poll.splits sum.splits)

lemma client_exec_calls:
  "client_exec E (SendConfirmed i m) w = Some w' \<Longrightarrow> delivered (client w') = delivered (client w)
    \<and> (queued (client w') = queued (client w) \<or> (\<exists>r. queued (client w') = queued (client w) @ [\<lparr>payload_message = m, response_tx = r\<rparr>]))"
  "client_exec E (Await i) w = Some w' \<Longrightarrow> delivered (client w') = delivered (client w) \<and> queued (client w') = queued (client w)"
  by (auto simp: client_exec_def start_call_def split: if_splits option.splits poll.splits)

lemma no_handle_fields:
  assumes "no_handle a" and "world_exec E a w = Some w'"
  shows "delivered (client w') = delivered (client w)" and "queued (client w') = queued (client w)"
  using assms
  by (cases a rule: no_handle.cases;
      auto simp: client_exec_def server_exec_def work_step_def simp del: serve_step.simps
      split: if_splits option.splits prod.splits)+

text \<open>Up to the assertion, at most the one message was queued and nothing received.\<close>

definition sent_hello :: "(echo_control_message, echo_control_message) codec \<Rightarrow> ('t, 'r, 'o, 'n) world \<Rightarrow> bool" where
  "sent_hello C w \<longleftrightarrow> delivered (client w) = []
     \<and> (\<exists>m. encode C hello = Inr m \<and> prefix (map payload_message (queued (client w))) [m])"

fun chat_inv :: "(echo_control_message, echo_control_message) codec \<Rightarrow> ('t, 'r, 'o, 'n) chat_state \<Rightarrow> bool" where
  "chat_inv C (ChatConnected, w) \<longleftrightarrow> queued (client w) = [] \<and> delivered (client w) = []"
| "chat_inv C (ChatSending, w) \<longleftrightarrow> sent_hello C w"
| "chat_inv C (ChatReceiving, w) \<longleftrightarrow> sent_hello C w"
| "chat_inv C (ChatAssertFailed, w) \<longleftrightarrow> False"
| "chat_inv C _ \<longleftrightarrow> True"

text \<open>Until \<open>main\<close> closes the connection, its steps are steps of the world.\<close>

abbreviation before_close :: "chat_phase \<Rightarrow> bool" where
  "before_close p \<equiv> p \<in> {ChatConnected, ChatSending, ChatReceiving}"

lemma main_step_world:
  assumes "main_step E C p w = Some (p', w')" and "before_close p'"
  shows "before_close p \<and> (w' = w \<or> (\<exists>a. world_exec E (Client a) w = Some w'))"
  using assms
  by (cases p) (auto simp: unwrap_result_def assert_hello_def simp flip: world_exec.simps(1)
      split: sum.splits call.splits call_outcome.splits poll.splits if_splits)

lemma chat_exec_world:
  assumes "chat_exec E C a (p, w) = Some (p', w')" and "before_close p'"
  shows "before_close p \<and> (w' = w \<or> (\<exists>b. world_exec E b w = Some w'))"
proof (cases a)
  case Main
  with assms(1) have "main_step E C p w = Some (p', w')" by simp
  from main_step_world [OF this assms(2)] show ?thesis by blast
qed (use assms in \<open>auto split: if_splits\<close>)

lemma hello_frame:
  assumes "json_format J" and "encode (json_codec J) hello = Inr m"
  shows "echo_reply J m = [m]" and "decode (json_codec J) m = Inr hello"
proof -
  from assms(2) obtain t where t: "to_string J hello = Inr t" "m = Text t"
    by (auto simp: json_codec_def json_encode_Ok)
  with json_format.from_str_to_string [OF assms(1)] have "from_str J t = Inr hello" by blast
  with t show "echo_reply J m = [m]" "decode (json_codec J) m = Inr hello"
    by (simp_all add: echo_reply_def hello_def json_codec_def)
qed

lemma chat_connected_step:
  assumes "main_step E C ChatConnected w = Some (p', w')" and "chat_inv C (ChatConnected, w)"
  shows "chat_inv C (p', w')"
proof (cases "encode C hello")
  case (Inr m)
  with assms obtain "p' = ChatSending" "client_exec E (SendConfirmed 0 m) w = Some w'" by auto
  with client_exec_calls(1) [OF this(2)] assms(2) Inr show ?thesis by (auto simp: sent_hello_def)
qed (use assms in simp)

lemma chat_sending_step:
  assumes "main_step E C ChatSending w = Some (p', w')" and "chat_inv C (ChatSending, w)"
  shows "chat_inv C (p', w')"
  using assms client_exec_calls(2) [of E 0 w w']
  by (auto simp: sent_hello_def unwrap_result_def split: call.splits call_outcome.splits sum.splits)

context echo_network
begin

text \<open>What is received for the one message sent is that message.\<close>

lemma chat_receiving_step:
  assumes "json_format (server_json E)" and "echo_reply (server_json E) (keepalive_frame (client_config E)) = []"
    and "up k = []" and "down k = []" and "world_reachable E n k w"
    and "main_step E (json_codec (server_json E)) ChatReceiving w = Some (p', w')"
    and "chat_inv (json_codec (server_json E)) (ChatReceiving, w)"
  shows "p' \<noteq> ChatAssertFailed"
proof -
  let ?J = "server_json E"
  from assms(7) obtain m where m: "encode (json_codec ?J) hello = Inr m"
    "prefix (map payload_message (queued (client w))) [m]" "delivered (client w) = []"
    by (auto simp: sent_hello_def)
  from assms(6) obtain c r where r: "recv_raw (logged_runtime (client_runtime E)) (conn (client w)) = Ready (c, r)"
    and p': "p' = unwrap_result (and_then r (decode (json_codec ?J))) assert_hello"
    and w': "client_exec E Recv w = Some w'"
    by (auto simp: next_message_def map_poll_eq_Ready split: poll.splits)
  show ?thesis
  proof (cases r)
    case (Inr f)
    with client_exec_Recv [OF w'] r m(3) have "delivered (client w') = [f]" "queued (client w') = queued (client w)" by auto
    moreover have "world_reachable E n k w'"
      using world_reachable.step [OF assms(5), of "Client Recv"] w' by simp
    from back_in_order [OF this assms(3,4,2)]
    have "prefix (delivered (client w')) (echoes ?J (map payload_message (queued (client w'))))" .
    ultimately have "prefix [f] (echoes ?J (map payload_message (queued (client w))))" by simp
    moreover from m(2) have "prefix (echoes ?J (map payload_message (queued (client w)))) (echoes ?J [m])"
      by (rule echoes_prefix)
    ultimately have "prefix [f] [m]" using hello_frame(1) [OF assms(1) m(1)] by (auto dest: prefix_order.trans)
    with hello_frame(2) [OF assms(1) m(1)] p' Inr show ?thesis
      by (simp add: unwrap_result_def assert_hello_def)
  qed (use p' in \<open>simp add: unwrap_result_def\<close>)
qed

lemma chat_step:
  assumes "json_format (server_json E)" and "echo_reply (server_json E) (keepalive_frame (client_config E)) = []"
    and "up k = []" and "down k = []" and "before_close p \<Longrightarrow> world_reachable E n k w"
    and step: "chat_exec E (json_codec (server_json E)) a (p, w) = Some (p', w')"
    and inv: "chat_inv (json_codec (server_json E)) (p, w)"
  shows "chat_inv (json_codec (server_json E)) (p', w')"
proof (cases a)
  case Main
  with step have main: "main_step E (json_codec (server_json E)) p w = Some (p', w')" by simp
  show ?thesis
  proof (cases p)
    case ChatReceiving
    with assms(5) have "world_reachable E n k w" by simp
    from chat_receiving_step [OF assms(1-4) this] main inv ChatReceiving have "p' \<noteq> ChatAssertFailed" by blast
    with main ChatReceiving show ?thesis
      by (auto simp: unwrap_result_def assert_hello_def split: poll.splits sum.splits if_splits)
  next
    case ChatConnected
    with chat_connected_step main inv show ?thesis by blast
  next
    case ChatSending
    with chat_sending_step main inv show ?thesis by blast
  qed (use main inv in
      \<open>auto simp: unwrap_result_def split: call.splits call_outcome.splits poll.splits sum.splits\<close>)
next
  case (Beside b)
  with step have b: "p' = p" "no_handle b" "world_exec E b w = Some w'" by (auto split: if_splits)
  from no_handle_fields [OF b(2,3)] inv b(1) show ?thesis by (cases p) (simp_all add: sent_hello_def)
qed

lemma chat_run_inv:
  assumes "json_format (server_json E)" and "echo_reply (server_json E) (keepalive_frame (client_config E)) = []"
    and "up k = []" and "down k = []" and "before_close p \<Longrightarrow> world_reachable E n k w"
    and "chat_run E (json_codec (server_json E)) as (p, w) = Some (p', w')"
    and "chat_inv (json_codec (server_json E)) (p, w)"
  shows "chat_inv (json_codec (server_json E)) (p', w')"
  using assms(5-7)
proof (induction as arbitrary: p w)
  case (Cons a as)
  then obtain q v where v: "chat_exec E (json_codec (server_json E)) a (p, w) = Some (q, v)"
    "chat_run E (json_codec (server_json E)) as (q, v) = Some (p', w')"
    by (auto split: option.splits)
  have "world_reachable E n k v" if "before_close q"
    using chat_exec_world [OF v(1) that] Cons.prems(1) by (auto intro: world_reachable.step)
  from Cons.IH [OF this v(2) chat_step [OF assms(1-4) Cons.prems(1) v(1) Cons.prems(3)]] show ?case by blast
qed simp

end

text \<open>
  The example does what it says: when a response arrives, it is the message that was sent, so the
  assertion of \<open>main\<close> never fails, under any interleaving with the loop and the server and over any
  network that keeps data frames in order, also one that fails.
\<close>

theorem chat_assertion_holds:
  assumes "echo_network E up down vt vr vo" and "json_format (server_json E)"
    and "client_config E = config_of (connect_options_default H)" and "up k = []" and "down k = []"
    and "chat_start E n k = Some s" and "chat_run E (json_codec (server_json E)) as s = Some (p, w)"
  shows "p \<noteq> ChatAssertFailed"
proof -
  from assms(6) obtain w0 where w0: "init_world E n k = Some w0" "s = (ChatConnected, w0)"
    by (auto simp: chat_start_def)
  have quiet: "echo_reply (server_json E) (keepalive_frame (client_config E)) = []"
    by (simp add: assms(3) config_of_def connect_options_default_def keepalive_frame_def echo_reply_def)
  from w0(1) have "chat_inv (json_codec (server_json E)) (ChatConnected, w0)"
    by (auto simp: init_world_def init_sys_def)
  from echo_network.chat_run_inv [OF assms(1,2) quiet assms(4,5) world_reachable.start [OF w0(1)] _ this] assms(7) w0(2)
  have "chat_inv (json_codec (server_json E)) (p, w)" by blast
  then show ?thesis by auto
qed

text \<open>A complete run over the reference link.\<close>

definition chat_demo :: "link chat_action list \<Rightarrow> (payload chan, message chan, reply slot, link) chat_state option" where
  "chat_demo as =
     (let E = link_env default_keepalive echo_json 4 4
      in case chat_start E 256 fresh_link of None \<Rightarrow> None | Some s \<Rightarrow> chat_run E (json_codec echo_json) as s)"

definition chat_script :: "link chat_action list" where
  "chat_script =
     [Main, Beside (Client (Loop RecvArm)), Beside (Client Work), Main, Main, Beside Server, Beside Server,
      Beside (Client (Loop NextArm)), Beside (Client Work), Main]"

definition close_script :: "link chat_action list" where
  "close_script =
     [Main, Beside (Client (Loop RecvArm)), Beside (Client Work), Main, Beside Server, Beside Server,
      Beside (Client (Loop NextArm)), Beside (Client Work), Beside (Client Exit), Beside (Client Exit),
      Beside (Client Exit), Main]"

lemma encode_hello: "encode (json_codec echo_json) hello = Ok (chat ''Hello, world!'')"
  by (simp add: json_codec_def json_encode_def hello_def chat_text_def echo_json_def del: echo_to_string.simps)

lemma decode_hello: "decode (json_codec echo_json) (chat ''Hello, world!'') = Ok hello"
  by (simp add: json_codec_def chat_reads hello_def)

lemma echo_turn_Close: "echo_turn T J (Inr (Close f)) sd w = answer_close T sd w"
  by (simp add: echo_turn_def)

lemma default_config: "default_keepalive = config_of (connect_options_default H)"
  by (simp add: default_keepalive_def config_of_def connect_options_default_def from_secs_def)

lemmas chat_eval = chat_demo_def chat_start_def chat_script_def close_script_def encode_hello decode_hello
  unwrap_result_def assert_hello_def next_message_def close_connection_def take_terminal_error_opt_def
  echo_turn_Close answer_close_def unwrap_or_panic_def

lemma chat_runs_to_the_end: "\<exists>w. chat_demo (chat_script @ close_script) = Some (ChatReturned, w)"
  by (simp add: chat_eval eval_simps link_simps)

lemma chat_assertion_holds_witness:
  "\<exists>p w. chat_demo chat_script = Some (p, w) \<and> delivered (client w) = [chat ''Hello, world!''] \<and> p \<noteq> ChatAssertFailed"
proof -
  let ?E = "link_env default_keepalive echo_json 4 4"
  obtain s p w where s: "chat_start ?E 256 fresh_link = Some s" "chat_run ?E (json_codec echo_json) chat_script s = Some (p, w)"
    "chat_demo chat_script = Some (p, w)" "delivered (client w) = [chat ''Hello, world!'']"
    by (simp add: chat_eval eval_simps link_simps)
  have "client_config ?E = config_of (connect_options_default H)" for H :: "'h header_ops"
    by (simp flip: default_config)
  from chat_assertion_holds [OF link_world.echo_network_axioms _ this _ _ s(1)] s echo_json.json_format_axioms
  show ?thesis by (auto simp: fresh_link_def)
qed

end
