(* ===== verification/Peaceful_Calls.thy ===== *)
theory Peaceful_Calls
  imports Echo_Rest Echo_Chat
begin

text \<open>
  The calls of a program that uses the connection from one task, over the reliable link to the echo
  server and with the reference channels: what becomes of a confirmed send, of a receive and of the close, and where the programs come
  to rest. The example and the integration tests are such programs.
\<close>

section \<open>What becomes of a call\<close>

lemma view_id [simp]: "conn_view id id id c = c" "sys_view id id id s = s"
  by (simp_all add: sys_view_def conn_view_def)

lemma sends_from_queue:
  assumes "outbound_inv cfg s" and "(m, r) \<in> set (sends (wire s))" and "m \<notin> control_frames cfg"
  shows "\<exists>p \<in> set (queued s). payload_message p = m"
proof -
  from assms(1) obtain outs ctrl dropped where w: "queued s = map fst outs @ unsent s @ dropped"
    "sends (wire s) \<in> shuffles (sent_pairs outs) ctrl" "fst ` set ctrl \<subseteq> control_frames cfg"
    by (auto simp: outbound_inv_def wire_rel_def)
  from assms(2,3) w(2,3) set_shuffles [OF w(2)] have "(m, r) \<in> set (sent_pairs outs)" by force
  then show ?thesis by (force simp: w(1) sent_pairs_def)
qed

text \<open>
  A call whose payload is not waiting to be sent, and was sent if the loop has finished, has its answer,
  and when the socket accepts everything, it is \<open>Ok\<close>.
\<close>

lemma call_settled:
  assumes "outbound_inv cfg s" and ok: "\<forall>m r. (m, r) \<in> set (sends (wire s)) \<longrightarrow> r = Ok ()"
    and p: "p \<in> set (queued s)" "response_tx p = Some i" "p \<notin> set (unsent s)"
    and sent: "finished (task s) \<Longrightarrow> (payload_message p, Ok ()) \<in> set (sends (wire s))
      \<and> payload_message p \<notin> control_frames cfg \<and> (\<forall>q \<in> set (queued s). payload_message q = payload_message p \<longrightarrow> q = p)"
  shows "calls s i = Awaiting \<Longrightarrow> answer (slots (conn s) i) = Some (Ok ())"
    and "calls s i = Done outcome \<Longrightarrow> outcome = Returned (Ok ())"
proof -
  from assms(1) obtain outs ctrl dropped where w: "queued s = map fst outs @ unsent s @ dropped"
    "dropped \<noteq> [] \<longrightarrow> finished (task s)" "sends (wire s) \<in> shuffles (sent_pairs outs) ctrl"
    "fst ` set ctrl \<subseteq> control_frames cfg" and c: "calls_rel s outs dropped"
    by (auto simp: outbound_inv_def wire_rel_def)
  have "p \<in> set (map fst outs)"
  proof (cases "dropped = []")
    case False
    with w(2) sent have "(payload_message p, Ok ()) \<in> set (sends (wire s))" "payload_message p \<notin> control_frames cfg"
      and only: "\<forall>q \<in> set (queued s). payload_message q = payload_message p \<longrightarrow> q = p" by blast+
    with set_shuffles [OF w(3)] w(4) have "(payload_message p, Ok ()) \<in> set (sent_pairs outs)" by force
    then obtain q where q: "q \<in> set (map fst outs)" "payload_message q = payload_message p"
      by (force simp: sent_pairs_def)
    with only w(1) have "q = p" by auto
    with q(1) show ?thesis by simp
  qed (use p w(1) in auto)
  with p(2) have sent: "i \<in> set (ids (map fst outs))" by (auto simp: ids_set)
  from c have d: "distinct (ids (queued s))" and rel: "call_rel (calls s i) (slots (conn s) i) (i \<in> set (ids (unsent s)))
      (i \<in> set (ids dropped)) (i \<in> set (ids (queued s))) (outcome_of outs i)"
    by (simp_all add: calls_rel_def)
  from d sent have gone: "i \<notin> set (ids (unsent s))" "i \<notin> set (ids dropped)" "i \<in> set (ids (queued s))"
    unfolding w(1) by auto
  have out: "outcome_of outs i r \<Longrightarrow> r = Ok ()" for r
    using ok set_shuffles [OF w(3)] by (fastforce simp: outcome_of_def sent_pairs_def)
  from rel gone out show "calls s i = Awaiting \<Longrightarrow> answer (slots (conn s) i) = Some (Ok ())"
    "calls s i = Done outcome \<Longrightarrow> outcome = Returned (Ok ())"
    by (cases outcome; auto simp: call_rel_def)+
qed

lemma unsent_waits:
  assumes "outbound_inv cfg s" and "p \<in> set (unsent s)" and "response_tx p = Some i"
  shows "calls s i = Awaiting \<or> calls s i = Cancelled"
proof -
  from assms(1) obtain outs dropped where "calls_rel s outs dropped" by (auto simp: outbound_inv_def)
  moreover from assms(2,3) have "i \<in> set (ids (unsent s))" unfolding ids_set by blast
  ultimately show ?thesis unfolding calls_rel_def call_rel_def by metis
qed

lemma closes_one:
  assumes "closes (map payload_message ps) \<le> 1" and "p \<in> set ps" and "q \<in> set ps"
    and "is_close (payload_message p)" and "is_close (payload_message q)"
  shows "q = p"
proof -
  have "length (filter (is_close \<circ> payload_message) ps) \<le> 1" using assms(1) by (simp add: closes_def filter_map)
  moreover have "p \<in> set (filter (is_close \<circ> payload_message) ps)" "q \<in> set (filter (is_close \<circ> payload_message) ps)"
    using assms by simp_all
  ultimately show ?thesis by (cases "filter (is_close \<circ> payload_message) ps") auto
qed

lemma harmless_not_close: "harmless J m \<Longrightarrow> \<not> is_close m"
  by (auto simp: is_close_iff)

text \<open>Announcing the close keeps the peace.\<close>

lemma job_may_close: "job_okay J False j \<Longrightarrow> job_okay J True j"
  by (cases "(J, True, j)" rule: job_okay.cases) (auto simp: okay_def)

lemma task_may_close: "task_okay J False k \<Longrightarrow> task_okay J True k"
  by (cases k) (auto intro: job_may_close)

lemma server_may_close: "server_okay J False k \<Longrightarrow> server_okay J True k"
  by (cases "(J, True, k)" rule: server_okay.cases) (auto simp: okay_def)

lemma peaceful_may_close: "peaceful J False s k \<Longrightarrow> peaceful J True s k"
  using task_may_close server_may_close by (auto simp: peaceful_def peaceful_client_def okay_def)

section \<open>The scene\<close>

type_synonym ref_world = "(payload chan, message chan, reply slot, link) world"

text \<open>What the loop and the server do by themselves beside a program, and that they have nothing to do.\<close>

fun by_itself :: "'n chat_action \<Rightarrow> bool" where
  "by_itself Main \<longleftrightarrow> True"
| "by_itself (Beside (Client (Loop arm))) \<longleftrightarrow> arm \<noteq> SleepArm"
| "by_itself (Beside (Client Work)) \<longleftrightarrow> True"
| "by_itself (Beside (Client Exit)) \<longleftrightarrow> True"
| "by_itself (Beside Server) \<longleftrightarrow> True"
| "by_itself _ \<longleftrightarrow> False"

definition idle :: "('t, 'r, 'o, 'n) env \<Rightarrow> ('t, 'r, 'o, 'n) world \<Rightarrow> bool" where
  "idle E w \<longleftrightarrow> (\<forall>b. by_itself (Beside b) \<longrightarrow> world_exec E b w = None)"

text \<open>The frames of the server that the program has not received yet.\<close>

definition owed ::
  "(echo_control_message, echo_control_message) serde_json \<Rightarrow> ('t, 'r, 'o, 'n) world \<Rightarrow> message list" where
  "owed J w = drop (length (delivered (client w))) (echoes J (map payload_message (queued (client w))))"

text \<open>
  Nothing has failed, at most one close was queued, and then there is room for the frames that are owed.
\<close>

definition scene ::
  "link ref_runtime \<Rightarrow> loop_config \<Rightarrow> (echo_control_message, echo_control_message) serde_json \<Rightarrow> nat \<Rightarrow> bool \<Rightarrow> ref_world \<Rightarrow> bool" where
  "scene R cfg J n closing w \<longleftrightarrow>
     world_reachable (reliable_env R cfg J) n fresh_link w \<and> peaceful J closing (client w) (server w)
     \<and> closes (map payload_message (queued (client w))) = of_bool closing
     \<and> (closing \<longrightarrow> length (owed J w) \<le> n)"

definition calling :: "call \<Rightarrow> bool" where
  "calling k \<longleftrightarrow> k = Awaiting \<or> k = Done (Returned (Ok ()))"

text \<open>A call that was started in the scene: after a close was queued it is the call of the close.\<close>

definition started :: "bool \<Rightarrow> nat \<Rightarrow> ref_world \<Rightarrow> bool" where
  "started closing i w \<longleftrightarrow> calling (calls (client w) i)
     \<and> (\<exists>p \<in> set (queued (client w)). response_tx p = Some i \<and> (closing \<longrightarrow> is_close (payload_message p)))"

locale reference_link = reliable_link R id id id cfg J
  for R :: "link ref_runtime" and cfg :: loop_config and J :: "(echo_control_message, echo_control_message) serde_json" +
  assumes reference_R: "reference R = R"
begin

lemma R_ops [simp]: "tx_ops R = chan_ops" "rx_ops R = chan_ops" "os_ops R = slot_ops"
  by (subst reference_R [symmetric], simp)+

abbreviation E :: "(payload chan, message chan, reply slot, link) env" where
  "E \<equiv> reliable_env R cfg J"

abbreviation effort :: "ref_world \<Rightarrow> nat" where
  "effort w \<equiv> world_effort id id id w"

lemma scene_facts:
  assumes "scene R cfg J n closing w"
  shows "shape_inv n (client w)" "outbound_inv cfg (client w)" "terminal_inv (client w)" "inbound_inv (client w)"
    "\<forall>m r. (m, r) \<in> set (sends (client_log w)) \<longrightarrow> r = Ok ()"
    "prefix (delivered (client w)) (echoes J (map payload_message (queued (client w))))"
    "prefix (data_frames (client_log w)) (echoes J (map payload_message (queued (client w))))"
proof -
  from assms have w: "world_reachable E n fresh_link w" "peaceful J closing (client w) (server w)"
    by (simp_all add: scene_def)
  have reach: "reachable R cfg n (client w)"
    using client_reachable [OF w(1)] by simp
  from view_shape [OF reach] view_outbound [OF reach] view_terminal [OF reach] view_inbound [OF reach]
  show "shape_inv n (client w)" "outbound_inv cfg (client w)" "terminal_inv (client w)" "inbound_inv (client w)" by simp_all
  from w(2) show "\<forall>m r. (m, r) \<in> set (sends (client_log w)) \<longrightarrow> r = Ok ()"
    by (simp add: peaceful_def close_told_def)
  show "prefix (delivered (client w)) (echoes J (map payload_message (queued (client w))))"
    "prefix (data_frames (client_log w)) (echoes J (map payload_message (queued (client w))))"
    using echo_network.back_in_order [OF network_axioms w(1)] echo_network.frames_in_order [OF network_axioms w(1)] unanswered
    by (simp_all add: fresh_link_def)
qed

lemma owed_back:
  "scene R cfg J n closing w \<Longrightarrow> echoes J (map payload_message (queued (client w))) = delivered (client w) @ owed J w"
  using scene_facts(6) [of n closing w] by (auto simp: owed_def prefix_def)

lemma open_scene:
  assumes "scene R cfg J n False w"
  shows "looping w" "serving w" "rx_handle (client w)" "0 < tx_handles (client w)" "rx_alive (tx_chan (conn (client w)))"
    "\<not> finished (task (client w))"
proof -
  from assms have "peaceful J False (client w) (server w)" by (simp add: scene_def)
  from peaceful_goes_on [OF this] this show "looping w" "serving w" "rx_handle (client w)" "0 < tx_handles (client w)"
    by (simp_all add: peaceful_def peaceful_client_def)
  then show "\<not> finished (task (client w))" by auto
  with scene_facts(1) [OF assms] show "rx_alive (tx_chan (conn (client w)))" by (simp add: shape_inv_def)
qed

lemma scene_handle:
  assumes "scene R cfg J n closing w" and "client_exec E a w = Some w'" and "benign J closing a"
  shows "world_reachable E n fresh_link w'" "peaceful J closing (client w') (server w')"
proof -
  from assms(1) have w: "world_reachable E n fresh_link w" "peaceful_world closing w"
    by (simp_all add: scene_def)
  from client_world_step(1) [OF w assms(2,3)] world_reachable.step [OF w(1), of "Client a" w'] assms(2)
  show "world_reachable E n fresh_link w'" "peaceful J closing (client w') (server w')" by simp_all
qed

section \<open>Steps beside the program\<close>

lemma beside_scene:
  assumes "scene R cfg J n closing w" and "no_handle b" and "world_exec E b w = Some w'"
  shows "scene R cfg J n closing w'" and "owed J w' = owed J w" and "queued (client w') = queued (client w)"
    and "calls (client w') = calls (client w)"
    and "by_itself (Beside b) \<Longrightarrow> effort w' < effort w"
proof -
  from assms(1) have w: "world_reachable E n fresh_link w" "peaceful_world closing w"
    by (simp_all add: scene_def)
  have step: "peaceful_world closing w' \<and> (by_itself (Beside b) \<longrightarrow> effort w' < effort w)"
  proof (cases b)
    case (Client a)
    with assms(2) have "benign J closing a" "a \<noteq> Recv" by (cases a; simp)+
    moreover have "own_client a" if "by_itself (Beside b)" using that Client by (cases a) simp_all
    ultimately show ?thesis using client_world_step [OF w, of a w'] assms(3) Client by auto
  next
    case Server
    with assms(3) server_world_step [OF w(2), of w'] show ?thesis by auto
  qed
  then show "by_itself (Beside b) \<Longrightarrow> effort w' < effort w" by blast
  show fields: "owed J w' = owed J w" "queued (client w') = queued (client w)"
    using no_handle_fields [OF assms(2,3)] by (simp_all add: owed_def)
  from step fields world_reachable.step [OF w(1) assms(3)] assms(1) show "scene R cfg J n closing w'" by (simp add: scene_def)
  show "calls (client w') = calls (client w)"
    using assms(2,3)
    by (cases b rule: no_handle.cases;
        auto simp: client_exec_def server_exec_def work_step_def simp del: serve_step.simps
        split: if_splits option.splits prod.splits)+
qed

section \<open>Sending\<close>

lemma call_starts:
  assumes "client_exec E a w = Some w'" and "rx_alive (tx_chan (conn (client w)))"
    and "a = SendConfirmed i m \<or> a = SendClose i \<and> m = close_message"
  shows "calls (client w') = (calls (client w))(i := Awaiting)"
    and "queued (client w') = queued (client w) @ [\<lparr>payload_message = m, response_tx = Some i\<rparr>]"
    and "delivered (client w') = delivered (client w)" and "effort w' = effort w + 10"
  using assms
  by (auto simp: client_exec_def start_call_def send_confirmed_def send_close_def chan_send_def
      world_effort_def client_effort_def Let_def split: if_splits poll.splits option.splits)

lemma unconfirmed_starts:
  assumes "client_exec E (SendUnconfirmed m) w = Some w'" and "rx_alive (tx_chan (conn (client w)))"
  shows "calls (client w') = calls (client w)"
    and "queued (client w') = queued (client w) @ [\<lparr>payload_message = m, response_tx = None\<rparr>]"
    and "delivered (client w') = delivered (client w)" and "effort w' = effort w + 10"
    and "\<exists>c. send_unconfirmed (logged_runtime R) m (conn (client w)) = Ready (c, Ok ())"
  using assms
  by (auto simp: client_exec_def send_unconfirmed_def chan_send_def
      world_effort_def client_effort_def Let_def split: if_splits poll.splits sum.splits prod.splits)

lemma owed_queued:
  assumes "scene R cfg J n closing w" and "queued (client w') = queued (client w) @ [p]" and "delivered (client w') = delivered (client w)"
  shows "owed J w' = owed J w @ echo_reply J (payload_message p)"
  using owed_back [OF assms(1)] by (simp add: owed_def [of J w'] assms(2,3))

lemma send_scene:
  assumes "scene R cfg J n False w" and "client_exec E (SendConfirmed i m) w = Some w'" and "harmless J m"
  shows "scene R cfg J n False w'" and "owed J w' = owed J w @ echo_reply J m" and "started False i w'"
    and "calls (client w') = (calls (client w))(i := Awaiting)" and "effort w' = effort w + 10"
proof -
  note after = call_starts [OF assms(2) open_scene(5) [OF assms(1)], of i m]
  show "owed J w' = owed J w @ echo_reply J m" "calls (client w') = (calls (client w))(i := Awaiting)" "effort w' = effort w + 10"
    using after owed_queued [OF assms(1) after(2)] by simp_all
  show "scene R cfg J n False w'" "started False i w'"
    using scene_handle [OF assms(1,2)] assms(1,3) after harmless_not_close [OF assms(3)]
    by (simp_all add: scene_def started_def calling_def)
qed

lemma unconfirmed_scene:
  assumes "scene R cfg J n False w" and "client_exec E (SendUnconfirmed m) w = Some w'" and "harmless J m"
  shows "scene R cfg J n False w'" and "owed J w' = owed J w @ echo_reply J m" and "calls (client w') = calls (client w)"
    and "effort w' = effort w + 10"
    and "\<exists>c. send_unconfirmed (logged_runtime R) m (conn (client w)) = Ready (c, Ok ())"
proof -
  note after = unconfirmed_starts [OF assms(2) open_scene(5) [OF assms(1)]]
  show "owed J w' = owed J w @ echo_reply J m" "calls (client w') = calls (client w)" "effort w' = effort w + 10"
    "\<exists>c. send_unconfirmed (logged_runtime R) m (conn (client w)) = Ready (c, Ok ())"
    using after owed_queued [OF assms(1) after(2)] by simp_all
  show "scene R cfg J n False w'"
    using scene_handle [OF assms(1,2)] assms(1,3) after harmless_not_close [OF assms(3)]
    by (simp add: scene_def)
qed

lemma close_scene:
  assumes "scene R cfg J n False w" and "client_exec E (SendClose i) w = Some w'" and "length (owed J w) \<le> n"
  shows "scene R cfg J n True w'" and "owed J w' = owed J w" and "started True i w'"
    and "calls (client w') = (calls (client w))(i := Awaiting)" and "effort w' = effort w + 10"
proof -
  note after = call_starts [OF assms(2) open_scene(5) [OF assms(1)], of i close_message]
  have close: "is_close close_message" "echo_reply J close_message = []"
    by (simp_all add: close_message_def echo_reply_def)
  show owed': "owed J w' = owed J w" and "calls (client w') = (calls (client w))(i := Awaiting)" "effort w' = effort w + 10"
    using after owed_queued [OF assms(1) after(2)] close by simp_all
  have peace: "world_reachable E n fresh_link w" "peaceful_world True w"
    using assms(1) peaceful_may_close by (simp_all add: scene_def)
  from client_world_step(1) [OF this assms(2)] world_reachable.step [OF peace(1), of "Client (SendClose i)" w']
    assms(1,2,3) after close owed'
  show "scene R cfg J n True w'" "started True i w'" by (simp_all add: scene_def started_def calling_def)
qed

lemma send_can_start:
  assumes "scene R cfg J n False w" and "calls (client w) i = NotStarted" and "has_room (tx_chan (conn (client w)))"
    and "a = SendConfirmed i m \<or> a = SendClose i \<or> a = SendUnconfirmed m"
  shows "client_exec E a w \<noteq> None"
  using assms(2-4) open_scene(4,5) [OF assms(1)]
  by (auto simp: client_exec_def start_call_def send_confirmed_def send_close_def send_unconfirmed_def chan_send_def Let_def)

section \<open>The answer of a call\<close>

lemma close_is_sent:
  assumes "scene R cfg J n closing w" and "stopped (server w)"
  shows "\<exists>p \<in> set (queued (client w)). is_close (payload_message p) \<and> payload_message p \<notin> control_frames cfg
    \<and> (payload_message p, Ok ()) \<in> set (sends (client_log w))"
proof -
  from assms have "0 < closes (offered (client_log w))" by (simp add: scene_def peaceful_def close_told_def)
  then obtain m r where m: "is_close m" "(m, r) \<in> set (sends (client_log w))"
    using no_closes [of "offered (client_log w)"] by (auto simp: offered_sends)
  have "m \<notin> control_frames cfg" using m(1) quiet harmless_not_close by (auto simp: control_frames_def)
  with sends_from_queue [OF scene_facts(2) [OF assms(1)] m(2)] m scene_facts(5) [OF assms(1)] show ?thesis by auto
qed

lemma finished_settled:
  assumes "scene R cfg J n closing w" and "finished (task (client w))"
    and "p \<in> set (queued (client w))" and "closing \<longrightarrow> is_close (payload_message p)"
  shows "(payload_message p, Ok ()) \<in> set (sends (client_log w))
      \<and> payload_message p \<notin> control_frames cfg
      \<and> (\<forall>q \<in> set (queued (client w)). payload_message q = payload_message p \<longrightarrow> q = p)"
proof -
  have closing: closing using assms(1,2) open_scene(6) by (cases closing) auto
  with assms(1,2) have "stopped (server w)"
    by (cases "task (client w)") (auto simp: scene_def peaceful_def peaceful_client_def)
  from close_is_sent [OF assms(1) this] obtain p' where p': "p' \<in> set (queued (client w))" "is_close (payload_message p')"
    "payload_message p' \<notin> control_frames cfg" "(payload_message p', Ok ()) \<in> set (sends (client_log w))" by blast
  have "closes (map payload_message (queued (client w))) \<le> 1" using assms(1) by (simp add: scene_def)
  note one = closes_one [OF this]
  from one [OF p'(1) assms(3) p'(2)] assms(4) closing have p: "p = p'" by simp
  have "q = p" if "q \<in> set (queued (client w))" "payload_message q = payload_message p" for q
    using one [OF assms(3) that(1)] that(2) p p'(2) by simp
  with p p'(3,4) show ?thesis by simp
qed

lemma call_fate:
  assumes "scene R cfg J n closing w" and "started closing i w"
  shows "calls (client w) i = Awaiting \<Longrightarrow> unsent (client w) = [] \<Longrightarrow> answer (slots (conn (client w)) i) = Some (Ok ())"
proof -
  from assms(2) obtain p where p: "p \<in> set (queued (client w))" "response_tx p = Some i"
    "closing \<longrightarrow> is_close (payload_message p)" by (auto simp: started_def)
  assume "calls (client w) i = Awaiting" "unsent (client w) = []"
  with call_settled(1) [OF scene_facts(2,5) [OF assms(1)] p(1,2) _ finished_settled [OF assms(1) _ p(1,3)]]
  show "answer (slots (conn (client w)) i) = Some (Ok ())" by simp
qed

lemma call_answer:
  assumes "scene R cfg J n closing w" and "p \<in> set (queued (client w))" "response_tx p = Some i"
    and "closing \<longrightarrow> is_close (payload_message p)" and "calls (client w) i = Done out"
  shows "out = Returned (Ok ())"
proof -
  have "p \<notin> set (unsent (client w))"
    using unsent_waits [OF scene_facts(2) [OF assms(1)] _ assms(3)] assms(5) by auto
  from call_settled(2) [OF scene_facts(2,5) [OF assms(1)] assms(2,3) this finished_settled [OF assms(1) _ assms(2,4)] assms(5)]
  show ?thesis .
qed

lemma await_fields:
  assumes "client_exec E (Await i) w = Some w'"
  shows "calls (client w) i = Awaiting" and "\<exists>out. calls (client w') = (calls (client w))(i := Done out)"
    and "queued (client w') = queued (client w)" and "delivered (client w') = delivered (client w)"
    and "effort w' = effort w"
  using assms
  by (auto simp: client_exec_def await_response_def client_effort_def world_effort_def split: if_splits poll.splits option.splits)

lemma await_scene:
  assumes "scene R cfg J n closing w" and "client_exec E (Await i) w = Some w'" and "started closing i w"
  shows "scene R cfg J n closing w'" and "owed J w' = owed J w" and "started closing i w'"
    and "calls (client w) i = Awaiting" and "calls (client w') = (calls (client w))(i := Done (Returned (Ok ())))"
    and "effort w' = effort w"
proof -
  note after = await_fields [OF assms(2)]
  show "owed J w' = owed J w" "calls (client w) i = Awaiting" "effort w' = effort w"
    using after by (simp_all add: owed_def)
  with scene_handle [OF assms(1,2)] assms(1) after show s: "scene R cfg J n closing w'" by (simp add: scene_def)
  from assms(3) after(3) obtain p where p: "p \<in> set (queued (client w'))" "response_tx p = Some i"
    "closing \<longrightarrow> is_close (payload_message p)" by (auto simp: started_def)
  from after(2) call_answer [OF s p] show c: "calls (client w') = (calls (client w))(i := Done (Returned (Ok ())))" by auto
  with p show "started closing i w'" by (auto simp: started_def calling_def)
qed

lemma await_can_step:
  assumes "calls (client w) i = Awaiting" and "answer (slots (conn (client w)) i) = Some r"
  shows "client_exec E (Await i) w \<noteq> None"
  using assms by (auto simp: client_exec_def await_response_def slot_recv_def)

section \<open>Receiving\<close>

lemma recv_scene:
  assumes "scene R cfg J n closing w" and "chan_recv (rx_chan (conn (client w))) = Ready (r, Some m)"
    and "a = Recv \<or> a = PollRecv" and "client_exec E a w = Some w'"
  shows "scene R cfg J n closing w'" and "owed J w = m # owed J w'" and "calls (client w') = calls (client w)"
    and "effort w' < effort w"
proof -
  have after: "delivered (client w') = delivered (client w) @ [m]" "queued (client w') = queued (client w)"
    "calls (client w') = calls (client w)"
    using assms(2-4)
    by (auto simp: client_exec_def recv_raw_def poll_recv_raw_def split: if_splits)
  show "calls (client w') = calls (client w)" by fact
  have "effort w' < effort w"
    using assms(2-4)
    by (auto simp: client_exec_def recv_raw_def poll_recv_raw_def world_effort_def client_effort_def chan_recv_def
        split: if_splits list.splits)
  then show "effort w' < effort w" .
  have peace: "world_reachable E n fresh_link w'" "peaceful J closing (client w') (server w')"
    using scene_handle [OF assms(1,4)] assms(3) by auto
  then have "prefix (delivered (client w')) (echoes J (map payload_message (queued (client w'))))"
    using echo_network.back_in_order [OF network_axioms peace(1)] unanswered by (simp add: fresh_link_def)
  then show o: "owed J w = m # owed J w'" by (auto simp: owed_def after prefix_def)
  from assms(1) o peace after(2) show "scene R cfg J n closing w'" by (auto simp: scene_def)
qed

lemma open_rx:
  assumes "scene R cfg J n False w"
  shows "chan_recv (rx_chan (conn (client w))) \<noteq> Ready (r, None)"
  using scene_facts(1) [OF assms] open_scene(1) [OF assms]
  by (auto simp: shape_inv_def chan_recv_def split: list.splits if_splits)

text \<open>When everything was received a closed connection only says that it is closed.\<close>

lemma no_error:
  assumes "scene R cfg J n closing w"
  shows "terminal_error (conn (client w)) = None" "task (client w) \<noteq> Crashed"
proof -
  from assms have "task_okay J closing (task (client w))" by (simp add: scene_def peaceful_def peaceful_client_def)
  with scene_facts(3) [OF assms] show "terminal_error (conn (client w)) = None" "task (client w) \<noteq> Crashed"
    by (cases "task (client w)"; auto simp: terminal_inv_def)+
qed

lemma ended_scene:
  assumes "scene R cfg J n closing w" and "chan_recv (rx_chan (conn (client w))) = Ready (r, None)"
    and "a = Recv \<or> a = PollRecv" and "client_exec E a w = Some w'"
  shows "scene R cfg J n closing w'" and "owed J w' = owed J w" and "calls (client w') = calls (client w)" and "effort w' = effort w"
proof -
  have after: "delivered (client w') = delivered (client w)" "queued (client w') = queued (client w)"
    "calls (client w') = calls (client w)"
    using assms(2-4)
    by (auto simp: client_exec_def recv_raw_def poll_recv_raw_def take_terminal_error_def take_terminal_error_opt_def
        split: if_splits option.splits prod.splits)
  show "calls (client w') = calls (client w)" by fact
  show o: "owed J w' = owed J w" using after by (simp add: owed_def)
  from scene_handle [OF assms(1,4)] assms(1,3) after o show "scene R cfg J n closing w'" by (auto simp: scene_def)
  show "effort w' = effort w"
    using assms(2-4)
    by (auto simp: client_exec_def recv_raw_def poll_recv_raw_def world_effort_def client_effort_def chan_recv_def
        take_terminal_error_def take_terminal_error_opt_def split: if_splits list.splits option.splits)
qed

text \<open>What the two receiving operations give.\<close>

lemma recv_open:
  assumes "scene R cfg J n False w" and "recv_raw (logged_runtime (client_runtime E)) (conn (client w)) = Ready (c, r)"
    and "client_exec E Recv w = Some w'"
  obtains m where "r = Ok m" "owed J w = m # owed J w'" "scene R cfg J n False w'" "calls (client w') = calls (client w)"
    "effort w' < effort w"
proof -
  from assms(2) obtain q x where x: "chan_recv (rx_chan (conn (client w))) = Ready (q, x)"
    by (auto simp: recv_raw_def split: poll.splits)
  with open_rx [OF assms(1)] obtain m where m: "x = Some m" by (cases x) auto
  with assms(2) x have "r = Ok m" by (auto simp: recv_raw_def)
  with recv_scene [OF assms(1) x [unfolded m] _ assms(3)] that show ?thesis by blast
qed

lemma poll_open:
  assumes "scene R cfg J n False w" and "poll_recv_raw (logged_runtime (client_runtime E)) (conn (client w)) = Ready (c, r)"
    and "client_exec E PollRecv w = Some w'"
  obtains m where "r = Some (Ok m)" "owed J w = m # owed J w'" "scene R cfg J n False w'" "calls (client w') = calls (client w)"
    "effort w' < effort w"
proof -
  from assms(2) obtain q x where x: "chan_recv (rx_chan (conn (client w))) = Ready (q, x)"
    by (auto simp: poll_recv_raw_def split: poll.splits)
  with open_rx [OF assms(1)] obtain m where m: "x = Some m" by (cases x) auto
  with assms(2) x have "r = Some (Ok m)" by (auto simp: poll_recv_raw_def)
  with recv_scene [OF assms(1) x [unfolded m] _ assms(3)] that show ?thesis by blast
qed

lemma nothing_owed:
  assumes "scene R cfg J n closing w" and "owed J w = []" and "client_exec E a w = Some w'" and "a = Recv \<or> a = PollRecv"
    and "chan_recv (rx_chan (conn (client w))) = Ready (q, x)"
  shows "x = None"
  using recv_scene(2) [OF assms(1) _ assms(4,3)] assms(2,5) by (cases x) auto

lemma recv_ended:
  assumes "scene R cfg J n closing w" and "owed J w = []"
    and "recv_raw (logged_runtime (client_runtime E)) (conn (client w)) = Ready (c, r)" and "client_exec E Recv w = Some w'"
  shows "r = Err WebsocketClosed" "scene R cfg J n closing w'" "owed J w' = []" "calls (client w') = calls (client w)" "effort w' = effort w"
proof -
  from assms(3) obtain q x where x: "chan_recv (rx_chan (conn (client w))) = Ready (q, x)"
    by (auto simp: recv_raw_def split: poll.splits)
  with nothing_owed [OF assms(1,2,4)] have none: "x = None" by blast
  with assms(3) x no_error(1) [OF assms(1)] show "r = Err WebsocketClosed"
    by (auto simp: recv_raw_def take_terminal_error_def take_terminal_error_opt_def)
  from ended_scene [OF assms(1) x [unfolded none] _ assms(4)] assms(2)
  show "scene R cfg J n closing w'" "owed J w' = []" "calls (client w') = calls (client w)" "effort w' = effort w" by simp_all
qed

lemma poll_ended:
  assumes "scene R cfg J n closing w" and "owed J w = []"
    and "poll_recv_raw (logged_runtime (client_runtime E)) (conn (client w)) = Ready (c, r)" and "client_exec E PollRecv w = Some w'"
  shows "r = None" "scene R cfg J n closing w'" "owed J w' = []" "calls (client w') = calls (client w)" "effort w' = effort w"
proof -
  from assms(3) obtain q x where x: "chan_recv (rx_chan (conn (client w))) = Ready (q, x)"
    by (auto simp: poll_recv_raw_def split: poll.splits)
  with nothing_owed [OF assms(1,2,4)] have none: "x = None" by blast
  with assms(3) x no_error(1) [OF assms(1)] show "r = None"
    by (auto simp: poll_recv_raw_def take_terminal_error_opt_def)
  from ended_scene [OF assms(1) x [unfolded none] _ assms(4)] assms(2)
  show "scene R cfg J n closing w'" "owed J w' = []" "calls (client w') = calls (client w)" "effort w' = effort w" by simp_all
qed

lemma tick_scene:
  assumes "scene R cfg J n closing w" and "client_exec E (Tick d) w = Some w'"
  shows "scene R cfg J n closing w'" "owed J w' = owed J w" "calls (client w') = calls (client w)" "effort w' = effort w"
proof -
  have same: "delivered (client w') = delivered (client w)" "queued (client w') = queued (client w)"
    "calls (client w') = calls (client w)" "effort w' = effort w"
    using assms(2) by (auto simp: client_exec_def world_effort_def client_effort_def split: if_splits)
  then show "owed J w' = owed J w" "calls (client w') = calls (client w)" "effort w' = effort w" by (simp_all add: owed_def)
  with scene_handle [OF assms] assms(1) same show "scene R cfg J n closing w'" by (simp add: scene_def)
qed

section \<open>The end of close_connection\<close>

lemma close_connection_scene:
  assumes "scene R cfg J n closing w" and "calls (client w) i = Done (Returned (Ok ()))"
    and "close_connection i (client w) = Ready (s, out)"
  shows "out = Returned (Ok ())" and "scene R cfg J n closing (w\<lparr>client := s\<rparr>)" and "effort (w\<lparr>client := s\<rparr>) = effort w"
proof -
  from assms(2,3) no_error [OF assms(1)] obtain st where st: "task (client w) = Finished st"
    by (cases "task (client w)") (auto simp: close_connection_def)
  with assms(2,3) no_error(1) [OF assms(1)] have s: "s = client w\<lparr>conn := fst (take_terminal_error_opt (conn (client w))),
      taken := taken (client w) @ drain (conn (client w))\<rparr>"
    by (auto simp: close_connection_def take_terminal_error_opt_def)
  show "out = Returned (Ok ())"
    using assms(2,3) no_error(1) [OF assms(1)] st by (auto simp: close_connection_def take_terminal_error_opt_def)
  have "client_exec E Join w = Some (w\<lparr>client := s\<rparr>)" using st s by (simp add: client_exec_def)
  from scene_handle [OF assms(1) this] assms(1) show "scene R cfg J n closing (w\<lparr>client := s\<rparr>)"
    by (simp add: scene_def owed_def s)
  show "effort (w\<lparr>client := s\<rparr>) = effort w"
    by (simp add: s world_effort_def client_effort_def take_terminal_error_opt_def)
qed

section \<open>At rest\<close>

lemma idle_facts:
  assumes "idle E w"
  shows "arm \<noteq> SleepArm \<Longrightarrow> exec R cfg (Loop arm) (client w) = None"
    and "exec R cfg Work (client w) = None"
    and "exec R cfg Exit (client w) = None"
    and "server_exec E w = None"
proof -
  have none: "by_itself (Beside b) \<Longrightarrow> world_exec E b w = None" for b
    using assms by (simp add: idle_def)
  from none [of "Client (Loop arm)"] show "arm \<noteq> SleepArm \<Longrightarrow> exec R cfg (Loop arm) (client w) = None"
    by (simp add: client_exec_def del: exec.simps split: option.splits)
  from none [of "Client Work"] show "exec R cfg Work (client w) = None"
    by (simp add: client_exec_def del: exec.simps split: option.splits)
  from none [of "Client Exit"] show "exec R cfg Exit (client w) = None"
    by (simp add: client_exec_def del: exec.simps split: option.splits)
  from none [of Server] show "server_exec E w = None" by simp
qed

lemma idle_loop:
  assumes "idle E w" and "active (task (client w))" and "0 < senders (tx_chan (conn (client w)))"
  shows "selecting (task (client w))" and "unsent (client w) = []"
proof -
  show sel: "selecting (task (client w))"
  proof (rule ccontr)
    assume "\<not> selecting (task (client w))"
    with assms(2) obtain j where "task (client w) = Busy j" by (cases "task (client w)") auto
    from exec_work_enabled [OF this, of R cfg] idle_facts(2) [OF assms(1)] show False by simp
  qed
  have "loop_step (reference (logged_runtime R)) cfg (sleep_started (client w)) (clock (client w))
      RecvArm (task (client w)) (conn (client w)) = None"
    using idle_facts(1) [OF assms(1), of RecvArm] exec_loop_enabled [of cfg RecvArm "client w"]
    by (simp del: exec.simps)
  with sel assms(3) show "unsent (client w) = []"
    by (cases "task (client w)") (auto simp: recv_arm_enabled)
qed

lemma scene_senders:
  assumes "scene R cfg J n closing w"
  shows "0 < senders (tx_chan (conn (client w)))"
    and "unsent (client w) = [] \<Longrightarrow> \<not> finished (task (client w)) \<Longrightarrow> has_room (tx_chan (conn (client w)))"
  using scene_facts(1) [OF assms] assms
  by (auto simp: shape_inv_def scene_def peaceful_def peaceful_client_def has_room_def)

lemma idle_open:
  assumes "scene R cfg J n False w" and "idle E w"
  shows "unsent (client w) = []" and "has_room (tx_chan (conn (client w)))"
proof -
  note on = open_scene [OF assms(1)]
  from idle_loop(2) [OF assms(2) on(1) scene_senders(1) [OF assms(1)]] show "unsent (client w) = []" .
  with scene_senders(2) [OF assms(1)] on(6) show "has_room (tx_chan (conn (client w)))" by auto
qed

text \<open>While something is owed there is something to receive.\<close>

lemma idle_owed:
  assumes "scene R cfg J n False w" and "idle E w" and "owed J w \<noteq> []"
  shows "chan_recv (rx_chan (conn (client w))) \<noteq> Pending"
proof -
  note facts = idle_facts [OF assms(2)]
  note on = open_scene [OF assms(1)]
  have "world_reachable E n fresh_link w" using assms(1) by (simp add: scene_def)
  from step_or_back [OF this on(2,1,3)] owed_back [OF assms(1)] assms(3) obtain a where
    a: "unprompted a" "world_exec E a w \<noteq> None" by auto
  from a(1) show ?thesis
  proof (cases a rule: unprompted.cases)
    case (3)
    with a(2) show ?thesis by (auto simp: client_exec_def recv_raw_def split: poll.splits)
  qed (use a facts in \<open>auto simp: client_exec_def simp del: exec.simps split: option.splits if_splits\<close>)
qed

text \<open>While the close is under way nothing is held back, and a close not yet sent moves on.\<close>

lemma closing_offered:
  assumes "scene R cfg J n True w" and "unsent (client w) = []" and "\<not> finished (task (client w))"
  shows "0 < closes (offered (client_log w))"
proof -
  from scene_facts(2) [OF assms(1)] assms(2,3) obtain outs ctrl where o: "queued (client w) = map fst outs"
    "sends (client_log w) \<in> shuffles (sent_pairs outs) ctrl"
    by (auto simp: outbound_inv_def wire_rel_def)
  have "closes (map payload_message (queued (client w))) \<noteq> 0" using assms(1) by (simp add: scene_def)
  then obtain p where p: "p \<in> set (queued (client w))" "is_close (payload_message p)" by (auto simp: no_closes)
  with o have "payload_message p \<in> set (map fst (sends (client_log w)))"
    using set_shuffles [OF o(2)] by (force simp: sent_pairs_def)
  with p(2) have "\<not> (\<forall>m \<in> set (offered (client_log w)). \<not> is_close m)" unfolding offered_sends by blast
  then show ?thesis by (simp flip: no_closes)
qed

lemma idle_not_holding:
  assumes "scene R cfg J n True w" and "idle E w"
  shows "task (client w) \<noteq> Holding f"
proof
  assume held: "task (client w) = Holding f"
  have rx: "rx_handle (client w)" using assms(1) by (simp add: scene_def peaceful_def peaceful_client_def)
  note facts = scene_facts [OF assms(1)]
  from facts(4) rx held have "length (data_frames (client_log w)) \<ge> length (delivered (client w)) + Suc (length (buf (rx_chan (conn (client w)))))"
    by (auto elim!: inbound_invE)
  with prefix_length_le [OF facts(7)] owed_back [OF assms(1)] assms(1)
  have "length (buf (rx_chan (conn (client w)))) < n" by (simp add: scene_def)
  with facts(1) have "has_room (rx_chan (conn (client w)))" by (simp add: shape_inv_def has_room_def)
  moreover have "\<not> has_room (rx_chan (conn (client w)))"
    using idle_facts(1) [OF assms(2), of ReserveArm] held exec_loop_enabled [of cfg ReserveArm "client w"]
    by (simp add: reserve_arm_enabled del: exec.simps)
  ultimately show False by simp
qed

lemma idle_closing_finished:
  assumes "scene R cfg J n True w" and "idle E w"
  shows "finished (task (client w))"
proof (rule ccontr)
  assume unfinished: "\<not> finished (task (client w))"
  note facts = idle_facts [OF assms(2)]
  have peace: "peaceful J True (client w) (server w)" using assms(1) by (simp add: scene_def)
  have active: "active (task (client w))"
    using peace facts(3) unfinished
    by (cases "task (client w)") (auto simp: peaceful_def peaceful_client_def exit_step_def record_terminal_def)
  note idle = idle_loop [OF assms(2) active scene_senders(1) [OF assms(1)]]
  with idle_not_holding [OF assms] have task: "task (client w) = AtSelect" by (cases "task (client w)") auto
  have quiet: "to_client (network w) = []" "\<not> server_left (network w)"
    using facts(1) [of NextArm] task
    by (auto simp: loop_step_def select_arm_def logged_ops link split: list.splits poll.splits if_splits)
  with peace have serving: "serving w" by (simp add: peaceful_def)
  with facts(4) peace have "to_server (network w) = []" "in_hand (server w) = []"
    by (cases "server w"; auto simp: server_exec_def logged_def split: list.splits if_splits prod.splits)+
  with peace serving have "closes (offered (client_log w)) = 0" by (simp add: peaceful_def close_told_def)
  with closing_offered [OF assms(1) idle(2) unfinished] show False by simp
qed

lemma idle_unsent:
  assumes "scene R cfg J n closing w" and "idle E w"
  shows "unsent (client w) = []"
proof (cases closing)
  case True
  with assms idle_closing_finished have "finished (task (client w))" by simp
  with scene_facts(1) [OF assms(1)] finished_inflight show ?thesis by (simp add: shape_inv_def)
qed (use assms idle_open in simp)

text \<open>So the answer of a call is there, and after the close the end of the stream.\<close>

lemma idle_awaiting:
  assumes "scene R cfg J n closing w" and "idle E w" and "started closing i w" and "client_exec E (Await i) w = None"
  shows "calls (client w) i = Done (Returned (Ok ()))"
  using call_fate [OF assms(1,3)] idle_unsent [OF assms(1,2)] await_can_step [of w i] assms(3,4)
  by (auto simp: started_def calling_def)

lemma idle_ended:
  assumes "scene R cfg J n True w" and "idle E w"
  shows "chan_recv (rx_chan (conn (client w))) \<noteq> Pending"
proof -
  from idle_closing_finished [OF assms] have "sender_dropped (task (client w))" by (cases "task (client w)") auto
  with scene_facts(1) [OF assms(1)] show ?thesis
    by (auto simp: shape_inv_def chan_recv_def split: list.splits)
qed

end

end
