(* ===== verification/Scripts.thy ===== *)
theory Scripts
  imports Peaceful_Calls
begin

text \<open>
  Programs that use one connection from one task, command after command, as the integration tests and
  the example do: they send, receive and check, sleep, close. A script that conforms to what the echo
  server does, and takes back what it is owed before it closes, always runs to its end over the
  reliable connection, and no \<open>unwrap\<close> or assertion of it fails.
\<close>

section \<open>Scripts\<close>

text \<open>
  The calls of a test, each followed by its \<open>unwrap\<close> and the comparison with the value given. \<open>GetItem\<close>
  and \<open>GetEnd\<close> use the handle as a \<open>Stream\<close>.
\<close>

datatype ('tx, 'rx) command =
    DoSend 'tx
  | DoSendRaw message
  | DoSendUnconfirmed 'tx
  | GetMessage 'rx
  | GetRaw message
  | GetItem 'rx
  | GetClosed
  | GetEnd
  | Pause duration
  | CloseTx
  | CloseConnection

text \<open>Where the program is: before a command, in a call, asleep, closing, at its end, or it has panicked.\<close>

datatype ('tx, 'rx) progress =
    At nat "('tx, 'rx) command list"
  | Calling nat "('tx, 'rx) command list"
  | Sleeping nat nat "('tx, 'rx) command list"
  | Closing nat
  | Passed
  | Failed

type_synonym ('tx, 'rx, 't, 'r, 'o, 'n) script_state = "('tx, 'rx) progress \<times> ('t, 'r, 'o, 'n) world"

text \<open>What a poll that gives \<open>r\<close> makes of the program; the result has to be the one expected.\<close>

definition expecting ::
  "('a \<times> 'r) poll \<Rightarrow> ('r \<Rightarrow> bool) \<Rightarrow> ('tx, 'rx) progress \<Rightarrow> 'w option \<Rightarrow> (('tx, 'rx) progress \<times> 'w) option" where
  "expecting polled good go_on w =
     (case polled of
        Pending \<Rightarrow> None
      | Ready (c, r) \<Rightarrow> map_option (Pair (if good r then go_on else Failed)) w)"

lemma expecting_eq_Some:
  "expecting polled good go_on w = Some (p, w')
   \<longleftrightarrow> (\<exists>c r. polled = Ready (c, r) \<and> w = Some w' \<and> p = (if good r then go_on else Failed))"
  by (auto simp: expecting_def split: poll.splits)

fun script_step ::
  "('t, 'r, 'o, 'n) env \<Rightarrow> ('tx, 'rx) codec \<Rightarrow> ('tx, 'rx) progress \<Rightarrow> ('t, 'r, 'o, 'n) world
    \<Rightarrow> ('tx, 'rx, 't, 'r, 'o, 'n) script_state option" where
  "script_step E C (At i []) w = Some (Passed, w)"
| "script_step E C (At i (DoSend v # cs)) w =
     (case encode C v of
        Inl e \<Rightarrow> Some (Failed, w)
      | Inr m \<Rightarrow> map_option (Pair (Calling i cs)) (client_exec E (SendConfirmed i m) w))"
| "script_step E C (At i (DoSendRaw m # cs)) w =
     map_option (Pair (Calling i cs)) (client_exec E (SendConfirmed i m) w)"
| "script_step E C (At i (DoSendUnconfirmed v # cs)) w =
     (case encode C v of
        Inl e \<Rightarrow> Some (Failed, w)
      | Inr m \<Rightarrow>
          expecting (send_unconfirmed (logged_runtime (client_runtime E)) m (conn (client w)))
            (\<lambda>r. r = Ok ()) (At i cs) (client_exec E (SendUnconfirmed m) w))"
| "script_step E C (At i (GetMessage v # cs)) w =
     expecting (next_message (logged_runtime (client_runtime E)) C (conn (client w)))
       (\<lambda>r. r = Ok v) (At i cs) (client_exec E Recv w)"
| "script_step E C (At i (GetRaw m # cs)) w =
     expecting (next_raw_message (logged_runtime (client_runtime E)) (conn (client w)))
       (\<lambda>r. r = Ok m) (At i cs) (client_exec E Recv w)"
| "script_step E C (At i (GetItem v # cs)) w =
     expecting (poll_next (logged_runtime (client_runtime E)) C (conn (client w)))
       (\<lambda>r. r = Some (Ok v)) (At i cs) (client_exec E PollRecv w)"
| "script_step E C (At i (GetClosed # cs)) w =
     expecting (next_message (logged_runtime (client_runtime E)) C (conn (client w)))
       (\<lambda>r. r = Err WebsocketClosed) (At i cs) (client_exec E Recv w)"
| "script_step E C (At i (GetEnd # cs)) w =
     expecting (poll_next (logged_runtime (client_runtime E)) C (conn (client w)))
       (\<lambda>r. r = None) (At i cs) (client_exec E PollRecv w)"
| "script_step E C (At i (Pause d # cs)) w = Some (Sleeping (clock (client w) + d) i cs, w)"
| "script_step E C (At i (CloseTx # cs)) w =
     map_option (Pair (Calling i cs)) (client_exec E (SendClose i) w)"
| "script_step E C (At i (CloseConnection # cs)) w =
     map_option (Pair (Closing i)) (client_exec E (SendClose i) w)"
| "script_step E C (Calling i cs) w =
     (case calls (client w) i of
        Done out \<Rightarrow> Some (if out = Returned (Ok ()) then At (Suc i) cs else Failed, w)
      | _ \<Rightarrow> map_option (Pair (Calling i cs)) (client_exec E (Await i) w))"
| "script_step E C (Sleeping until i cs) w =
     map_option (Pair (At i cs)) (client_exec E (Tick (until - clock (client w))) w)"
| "script_step E C (Closing i) w =
     (case calls (client w) i of
        Done _ \<Rightarrow>
          (case close_connection i (client w) of
             Pending \<Rightarrow> None
           | Ready (s, out) \<Rightarrow> Some (if out = Returned (Ok ()) then Passed else Failed, w\<lparr>client := s\<rparr>))
      | _ \<Rightarrow> map_option (Pair (Closing i)) (client_exec E (Await i) w))"
| "script_step E C Passed w = None"
| "script_step E C Failed w = None"

text \<open>Beside the program there are the loop, the clock and the server.\<close>

fun script_exec ::
  "('t, 'r, 'o, 'n) env \<Rightarrow> ('tx, 'rx) codec \<Rightarrow> 'n chat_action
    \<Rightarrow> ('tx, 'rx, 't, 'r, 'o, 'n) script_state \<Rightarrow> ('tx, 'rx, 't, 'r, 'o, 'n) script_state option" where
  "script_exec E C Main (p, w) = script_step E C p w"
| "script_exec E C (Beside a) (p, w) = (if no_handle a then map_option (Pair p) (world_exec E a w) else None)"

definition script_start ::
  "('t, 'r, 'o, 'n) env \<Rightarrow> nat \<Rightarrow> 'n \<Rightarrow> ('tx, 'rx) command list \<Rightarrow> ('tx, 'rx, 't, 'r, 'o, 'n) script_state option" where
  "script_start E channel_size k cs = map_option (Pair (At 0 cs)) (init_world E channel_size k)"

text \<open>
  A script conforms when it asks for what it is owed: each message the server echoes comes back in
  order. \<open>left\<close> are the frames that are still to come, \<open>closing\<close> says that the close is sent. When it
  is, no more may be left than the receive channel holds.
\<close>

fun conforms ::
  "('tx, 'rx) codec \<Rightarrow> (echo_control_message, echo_control_message) serde_json \<Rightarrow> nat \<Rightarrow> bool \<Rightarrow> message list
    \<Rightarrow> ('tx, 'rx) command list \<Rightarrow> bool" where
  "conforms C J n closing left [] \<longleftrightarrow> True"
| "conforms C J n closing left (DoSend v # cs) \<longleftrightarrow> \<not> closing
     \<and> (case encode C v of
          Inl e \<Rightarrow> False
        | Inr m \<Rightarrow> harmless J m \<and> conforms C J n closing (left @ echo_reply J m) cs)"
| "conforms C J n closing left (DoSendRaw m # cs) \<longleftrightarrow> \<not> closing
     \<and> harmless J m \<and> conforms C J n closing (left @ echo_reply J m) cs"
| "conforms C J n closing left (DoSendUnconfirmed v # cs) \<longleftrightarrow> \<not> closing
     \<and> (case encode C v of
          Inl e \<Rightarrow> False
        | Inr m \<Rightarrow> harmless J m \<and> conforms C J n closing (left @ echo_reply J m) cs)"
| "conforms C J n closing left (GetMessage v # cs) \<longleftrightarrow> \<not> closing
     \<and> (case left of [] \<Rightarrow> False | m # ms \<Rightarrow> decode C m = Ok v \<and> conforms C J n closing ms cs)"
| "conforms C J n closing left (GetRaw f # cs) \<longleftrightarrow> \<not> closing
     \<and> (case left of [] \<Rightarrow> False | m # ms \<Rightarrow> m = f \<and> conforms C J n closing ms cs)"
| "conforms C J n closing left (GetItem v # cs) \<longleftrightarrow> \<not> closing
     \<and> (case left of [] \<Rightarrow> False | m # ms \<Rightarrow> decode C m = Ok v \<and> conforms C J n closing ms cs)"
| "conforms C J n closing left (GetClosed # cs) \<longleftrightarrow> closing \<and> left = [] \<and> conforms C J n closing left cs"
| "conforms C J n closing left (GetEnd # cs) \<longleftrightarrow> closing \<and> left = [] \<and> conforms C J n closing left cs"
| "conforms C J n closing left (Pause d # cs) \<longleftrightarrow> conforms C J n closing left cs"
| "conforms C J n closing left (CloseTx # cs) \<longleftrightarrow> \<not> closing \<and> length left \<le> n \<and> conforms C J n True left cs"
| "conforms C J n closing left (CloseConnection # cs) \<longleftrightarrow> \<not> closing \<and> length left \<le> n \<and> cs = []"

section \<open>Scripts as a settling system\<close>

text \<open>What holds of a program that conforms.\<close>

definition at_command ::
  "link ref_runtime \<Rightarrow> loop_config \<Rightarrow> (echo_control_message, echo_control_message) serde_json \<Rightarrow> nat \<Rightarrow> ('tx, 'rx) codec
    \<Rightarrow> nat \<Rightarrow> ('tx, 'rx) command list \<Rightarrow> ref_world \<Rightarrow> bool" where
  "at_command R cfg J n C i cs w \<longleftrightarrow>
     (\<exists>closing. scene R cfg J n closing w \<and> conforms C J n closing (owed J w) cs
        \<and> (\<forall>j \<ge> i. calls (client w) j = NotStarted))"

fun script_fine ::
  "link ref_runtime \<Rightarrow> loop_config \<Rightarrow> (echo_control_message, echo_control_message) serde_json \<Rightarrow> nat \<Rightarrow> ('tx, 'rx) codec
    \<Rightarrow> ('tx, 'rx, payload chan, message chan, reply slot, link) script_state \<Rightarrow> bool" where
  "script_fine R cfg J n C (At i cs, w) \<longleftrightarrow> at_command R cfg J n C i cs w"
| "script_fine R cfg J n C (Sleeping until i cs, w) \<longleftrightarrow> at_command R cfg J n C i cs w"
| "script_fine R cfg J n C (Calling i cs, w) \<longleftrightarrow>
     (\<exists>closing. scene R cfg J n closing w \<and> conforms C J n closing (owed J w) cs
        \<and> (\<forall>j > i. calls (client w) j = NotStarted) \<and> started closing i w)"
| "script_fine R cfg J n C (Closing i, w) \<longleftrightarrow> scene R cfg J n True w \<and> started True i w"
| "script_fine R cfg J n C (Passed, w) \<longleftrightarrow> (\<exists>closing. scene R cfg J n closing w)"
| "script_fine R cfg J n C (Failed, w) \<longleftrightarrow> False"

text \<open>The effort of the commands: a send adds ten to that of the world, and an answer is awaited once.\<close>

fun command_effort :: "('tx, 'rx) command \<Rightarrow> nat" where
  "command_effort (DoSend v) = 13"
| "command_effort (DoSendRaw m) = 13"
| "command_effort (DoSendUnconfirmed v) = 11"
| "command_effort (Pause d) = 2"
| "command_effort CloseTx = 13"
| "command_effort CloseConnection = 13"
| "command_effort _ = 1"

definition await_effort :: "call \<Rightarrow> nat" where
  "await_effort k = (if k = Awaiting then 1 else 0)"

fun progress_effort :: "('tx, 'rx) progress \<Rightarrow> (nat \<Rightarrow> call) \<Rightarrow> nat" where
  "progress_effort (At i cs) ks = Suc (sum_list (map command_effort cs))"
| "progress_effort (Calling i cs) ks = Suc (Suc (sum_list (map command_effort cs) + await_effort (ks i)))"
| "progress_effort (Sleeping until i cs) ks = Suc (Suc (sum_list (map command_effort cs)))"
| "progress_effort (Closing i) ks = Suc (await_effort (ks i))"
| "progress_effort _ ks = 0"

fun script_effort ::
  "('t \<Rightarrow> payload chan) \<Rightarrow> ('r \<Rightarrow> message chan) \<Rightarrow> ('o \<Rightarrow> reply slot)
    \<Rightarrow> ('tx, 'rx, 't, 'r, 'o, link) script_state \<Rightarrow> nat" where
  "script_effort vt vr vo (p, w) = progress_effort p (calls (client w)) + world_effort vt vr vo w"

fun script_done :: "('tx, 'rx, 't, 'r, 'o, 'n) script_state \<Rightarrow> bool" where
  "script_done (p, w) \<longleftrightarrow> p = Passed"

locale script_setting = reference_link R cfg J
  for R :: "link ref_runtime" and cfg :: loop_config and J :: "(echo_control_message, echo_control_message) serde_json" +
  fixes n :: nat and C :: "('tx, 'rx) codec"
begin

definition moves_on ::
  "('tx, 'rx, payload chan, message chan, reply slot, link) script_state
    \<Rightarrow> ('tx, 'rx, payload chan, message chan, reply slot, link) script_state \<Rightarrow> bool" where
  "moves_on s s' \<longleftrightarrow> script_fine R cfg J n C s' \<and> script_effort id id id s' < script_effort id id id s"

lemma beside_moves:
  assumes "script_fine R cfg J n C (p, w)" and "no_handle b" and "world_exec E b w = Some w'"
  shows "script_fine R cfg J n C (p, w')" and "by_itself (Beside b) \<Longrightarrow> script_effort id id id (p, w') < script_effort id id id (p, w)"
proof -
  note beside = beside_scene [OF _ assms(2,3)]
  have started: "started closing i w'" if "scene R cfg J n closing w" "started closing i w" for closing i
    using that beside(3,4) [OF that(1)] by (simp add: started_def)
  show "script_fine R cfg J n C (p, w')"
    using assms(1) beside(1,2,4) started
    by (cases p) (fastforce simp: at_command_def)+
  show "script_effort id id id (p, w') < script_effort id id id (p, w)" if own: "by_itself (Beside b)"
    using assms(1) beside(4) beside(5) [OF _ own]
    by (cases p) (fastforce simp: at_command_def)+
qed

lemma send_moves:
  assumes "at_command R cfg J n C i (c # cs) w" and "client_exec E (SendConfirmed i m) w = Some w'"
    and "c = DoSendRaw m \<or> c = DoSend v \<and> encode C v = Inr m"
  shows "moves_on (At i (c # cs), w) (Calling i cs, w')"
proof -
  from assms(1,3) have at: "scene R cfg J n False w" "conforms C J n False (owed J w @ echo_reply J m) cs"
    "\<forall>j \<ge> i. calls (client w) j = NotStarted" "harmless J m"
    by (auto simp: at_command_def)
  note after = send_scene [OF at(1) assms(2) at(4)]
  have "command_effort c = 13" using assms(3) by auto
  moreover have "script_fine R cfg J n C (Calling i cs, w')"
    using at(2,3) after by (auto intro!: exI [of _ False])
  ultimately show ?thesis
    using after(4,5) by (simp add: moves_on_def await_effort_def)
qed

lemma unconfirmed_moves:
  assumes "at_command R cfg J n C i (DoSendUnconfirmed v # cs) w" and "encode C v = Inr m"
    and "client_exec E (SendUnconfirmed m) w = Some w'"
  shows "moves_on (At i (DoSendUnconfirmed v # cs), w) (At i cs, w')"
    and "\<exists>c. send_unconfirmed (logged_runtime (client_runtime E)) m (conn (client w)) = Ready (c, Ok ())"
proof -
  from assms(1,2) have at: "scene R cfg J n False w" "conforms C J n False (owed J w @ echo_reply J m) cs"
    "\<forall>j \<ge> i. calls (client w) j = NotStarted" "harmless J m"
    by (auto simp: at_command_def)
  note after = unconfirmed_scene [OF at(1) assms(3) at(4)]
  from after(5) show "\<exists>c. send_unconfirmed (logged_runtime (client_runtime E)) m (conn (client w)) = Ready (c, Ok ())" by simp
  have "at_command R cfg J n C i cs w'"
    using at(2,3) after unfolding at_command_def by auto
  with after(3,4) show "moves_on (At i (DoSendUnconfirmed v # cs), w) (At i cs, w')" by (simp add: moves_on_def)
qed

lemma close_moves:
  assumes "at_command R cfg J n C i (c # cs) w" and "client_exec E (SendClose i) w = Some w'" and "c = CloseTx \<or> c = CloseConnection"
  shows "moves_on (At i (c # cs), w) (if c = CloseTx then Calling i cs else Closing i, w')"
proof -
  from assms(1,3) have at: "scene R cfg J n False w" "length (owed J w) \<le> n" "\<forall>j \<ge> i. calls (client w) j = NotStarted"
    "c = CloseTx \<longrightarrow> conforms C J n True (owed J w) cs"
    by (auto simp: at_command_def)
  note after = close_scene [OF at(1) assms(2) at(2)]
  have "command_effort c = 13" using assms(3) by auto
  moreover have "script_fine R cfg J n C (if c = CloseTx then Calling i cs else Closing i, w')"
    using at(3,4) after by (auto intro!: exI [of _ True])
  ultimately show ?thesis
    using after(4,5) by (simp add: moves_on_def await_effort_def)
qed

text \<open>A receive of what is owed, and after the end.\<close>

lemma get_moves:
  assumes "at_command R cfg J n C i (c # cs) w" and "scene R cfg J n False w'" and "owed J w = m # owed J w'"
    and "calls (client w') = calls (client w)" and "world_effort id id id w' < world_effort id id id w"
    and "\<forall>closing. conforms C J n closing (m # owed J w') (c # cs) \<longrightarrow> conforms C J n False (owed J w') cs"
  shows "moves_on (At i (c # cs), w) (At i cs, w')"
proof -
  from assms(1,2,3,4,6) have "at_command R cfg J n C i cs w'" unfolding at_command_def by metis
  with assms(4,5) show ?thesis by (simp add: moves_on_def)
qed

lemma end_moves:
  assumes "at_command R cfg J n C i (c # cs) w" and "scene R cfg J n True w'" and "owed J w' = []"
    and "calls (client w') = calls (client w)" and "world_effort id id id w' = world_effort id id id w"
    and "c = GetClosed \<or> c = GetEnd"
  shows "moves_on (At i (c # cs), w) (At i cs, w')"
proof -
  from assms(1,6) have "owed J w = []" "conforms C J n True [] cs" "\<forall>j \<ge> i. calls (client w) j = NotStarted"
    by (auto simp: at_command_def)
  with assms(2,3,4) have "at_command R cfg J n C i cs w'" unfolding at_command_def by metis
  with assms(4,5,6) show ?thesis by (auto simp: moves_on_def)
qed

text \<open>The commands one after the other.\<close>

lemma typed_moves:
  assumes "script_step E C (At i (c # cs)) w = Some (p', w')" and "at_command R cfg J n C i (c # cs) w"
    and "c = GetMessage v \<or> c = GetRaw f \<or> c = GetItem v"
  shows "moves_on (At i (c # cs), w) (p', w')"
proof -
  from assms(2,3) have open_w: "scene R cfg J n False w" by (auto simp: at_command_def)
  have good: "moves_on (At i (c # cs), w) (p', w')"
    if m: "owed J w = m # owed J w'" "scene R cfg J n False w'" "calls (client w') = calls (client w)"
      "world_effort id id id w' < world_effort id id id w" and p: "p' = At i cs" for m
  proof -
    have "conforms C J n closing (m # owed J w') (c # cs) \<longrightarrow> conforms C J n False (owed J w') cs" for closing
      using assms(3) by (cases closing) auto
    with get_moves [OF assms(2) m(2,1,3,4)] p show ?thesis by blast
  qed
  from assms(3) show ?thesis
  proof (elim disjE)
    assume c: "c = GetMessage v"
    with assms(1) obtain k r where r: "recv_raw (logged_runtime (client_runtime E)) (conn (client w)) = Ready (k, r)"
      "client_exec E Recv w = Some w'" "p' = (if and_then r (decode C) = Ok v then At i cs else Failed)"
      by (auto simp: expecting_eq_Some next_message_def map_poll_eq_Ready)
    from recv_open [OF open_w r(1,2)] obtain m where m: "r = Ok m" "owed J w = m # owed J w'" "scene R cfg J n False w'"
      "calls (client w') = calls (client w)" "world_effort id id id w' < world_effort id id id w" .
    from assms(2) c m(2) have "decode C m = Ok v" by (auto simp: at_command_def)
    with good [OF m(2-5)] r(3) m(1) show ?thesis by simp
  next
    assume c: "c = GetRaw f"
    with assms(1) obtain k r where r: "recv_raw (logged_runtime (client_runtime E)) (conn (client w)) = Ready (k, r)"
      "client_exec E Recv w = Some w'" "p' = (if r = Ok f then At i cs else Failed)"
      by (auto simp: expecting_eq_Some next_raw_message_def)
    from recv_open [OF open_w r(1,2)] obtain m where m: "r = Ok m" "owed J w = m # owed J w'" "scene R cfg J n False w'"
      "calls (client w') = calls (client w)" "world_effort id id id w' < world_effort id id id w" .
    from assms(2) c m(2) have "m = f" by (auto simp: at_command_def)
    with good [OF m(2-5)] r(3) m(1) show ?thesis by simp
  next
    assume c: "c = GetItem v"
    with assms(1) obtain k r where r: "poll_recv_raw (logged_runtime (client_runtime E)) (conn (client w)) = Ready (k, r)"
      "client_exec E PollRecv w = Some w'"
      "p' = (if map_option (\<lambda>r. and_then r (decode C)) r = Some (Ok v) then At i cs else Failed)"
      by (auto simp: expecting_eq_Some poll_next_def map_poll_eq_Ready)
    from poll_open [OF open_w r(1,2)] obtain m where m: "r = Some (Ok m)" "owed J w = m # owed J w'" "scene R cfg J n False w'"
      "calls (client w') = calls (client w)" "world_effort id id id w' < world_effort id id id w" .
    from assms(2) c m(2) have "decode C m = Ok v" by (auto simp: at_command_def)
    with good [OF m(2-5)] r(3) m(1) show ?thesis by simp
  qed
qed

lemma ended_moves:
  assumes "script_step E C (At i (c # cs)) w = Some (p', w')" and "at_command R cfg J n C i (c # cs) w"
    and "c = GetClosed \<or> c = GetEnd"
  shows "moves_on (At i (c # cs), w) (p', w')"
proof -
  from assms(2,3) have w: "scene R cfg J n True w" "owed J w = []" by (auto simp: at_command_def)
  from assms(3) show ?thesis
  proof
    assume c: "c = GetClosed"
    with assms(1) obtain k r where r: "recv_raw (logged_runtime (client_runtime E)) (conn (client w)) = Ready (k, r)"
      "client_exec E Recv w = Some w'" "p' = (if and_then r (decode C) = Err WebsocketClosed then At i cs else Failed)"
      by (auto simp: expecting_eq_Some next_message_def map_poll_eq_Ready)
    note after = recv_ended [OF w r(1,2)]
    from end_moves [OF assms(2) after(2-5)] c r(3) after(1) show ?thesis by simp
  next
    assume c: "c = GetEnd"
    with assms(1) obtain k r where r: "poll_recv_raw (logged_runtime (client_runtime E)) (conn (client w)) = Ready (k, r)"
      "client_exec E PollRecv w = Some w'"
      "p' = (if map_option (\<lambda>r. and_then r (decode C)) r = None then At i cs else Failed)"
      by (auto simp: expecting_eq_Some poll_next_def map_poll_eq_Ready)
    note after = poll_ended [OF w r(1,2)]
    from end_moves [OF assms(2) after(2-5)] c r(3) after(1) show ?thesis by simp
  qed
qed

lemma command_moves:
  assumes step: "script_step E C (At i (c # cs)) w = Some (p', w')" and at: "at_command R cfg J n C i (c # cs) w"
  shows "moves_on (At i (c # cs), w) (p', w')"
proof (cases c)
  case (DoSend v)
  with at obtain m where m: "encode C v = Inr m" by (cases "encode C v") (auto simp: at_command_def)
  with step DoSend send_moves [OF at _ disjI2, of m w' v] show ?thesis by auto
next
  case (DoSendRaw m)
  with step send_moves [OF at _ disjI1, of m w'] show ?thesis by auto
next
  case (DoSendUnconfirmed v)
  with at obtain m where m: "encode C v = Inr m" by (cases "encode C v") (auto simp: at_command_def)
  with step DoSendUnconfirmed have w': "client_exec E (SendUnconfirmed m) w = Some w'" by (auto simp: expecting_eq_Some)
  from unconfirmed_moves [OF at [unfolded DoSendUnconfirmed] m w'] step m DoSendUnconfirmed show ?thesis
    by (auto simp: expecting_eq_Some)
next
  case (Pause d)
  with step at show ?thesis by (auto simp: moves_on_def at_command_def)
next
  case CloseTx
  with step close_moves [OF at, of w'] show ?thesis by auto
next
  case CloseConnection
  with step close_moves [OF at, of w'] show ?thesis by auto
qed (use typed_moves [OF step at] ended_moves [OF step at] in auto)

lemma calling_moves:
  assumes "script_step E C (Calling i cs) w = Some (p', w')" and "script_fine R cfg J n C (Calling i cs, w)"
  shows "moves_on (Calling i cs, w) (p', w')"
proof -
  from assms(2) obtain closing where w: "scene R cfg J n closing w" "conforms C J n closing (owed J w) cs"
    "\<forall>j > i. calls (client w) j = NotStarted" "started closing i w" by auto
  show ?thesis
  proof (cases "calls (client w) i = Awaiting")
    case True
    with assms(1) have step: "client_exec E (Await i) w = Some w'" "p' = Calling i cs" by auto
    note after = await_scene [OF w(1) step(1) w(4)]
    have "script_fine R cfg J n C (Calling i cs, w')"
      using w(2,3) after by auto
    with step(2) after(5,6) True show ?thesis by (simp add: moves_on_def await_effort_def)
  next
    case False
    with w(4) have "calls (client w) i = Done (Returned (Ok ()))" by (simp add: started_def calling_def)
    moreover have "at_command R cfg J n C (Suc i) cs w"
      using w(1-3) by (auto simp: at_command_def)
    ultimately show ?thesis using assms(1) by (auto simp: moves_on_def)
  qed
qed

lemma closing_moves:
  assumes "script_step E C (Closing i) w = Some (p', w')" and "script_fine R cfg J n C (Closing i, w)"
  shows "moves_on (Closing i, w) (p', w')"
proof -
  from assms(2) have w: "scene R cfg J n True w" "started True i w" by simp_all
  show ?thesis
  proof (cases "calls (client w) i = Awaiting")
    case True
    with assms(1) have step: "client_exec E (Await i) w = Some w'" "p' = Closing i" by auto
    note after = await_scene [OF w(1) step(1) w(2)]
    with step(2) True show ?thesis by (simp add: moves_on_def await_effort_def)
  next
    case False
    with w(2) have call: "calls (client w) i = Done (Returned (Ok ()))" by (simp add: started_def calling_def)
    with assms(1) obtain s out where s: "close_connection i (client w) = Ready (s, out)" "w' = w\<lparr>client := s\<rparr>"
      "p' = (if out = Returned (Ok ()) then Passed else Failed)"
      by (auto split: poll.splits)
    from close_connection_scene [OF w(1) call s(1)] s(2,3) call show ?thesis
      by (auto simp: moves_on_def)
  qed
qed

lemma script_moves:
  assumes "script_step E C p w = Some (p', w')" and "script_fine R cfg J n C (p, w)"
  shows "moves_on (p, w) (p', w')"
proof (cases p)
  case (At i cs)
  show ?thesis
  proof (cases cs)
    case Nil
    with At assms show ?thesis by (auto simp: moves_on_def at_command_def)
  next
    case (Cons c cs')
    with At assms command_moves show ?thesis by simp
  qed
next
  case (Sleeping until i cs)
  with assms obtain closing where w: "scene R cfg J n closing w" "conforms C J n closing (owed J w) cs"
    "\<forall>j \<ge> i. calls (client w) j = NotStarted" by (auto simp: at_command_def)
  from assms(1) Sleeping have step: "client_exec E (Tick (until - clock (client w))) w = Some w'" "p' = At i cs" by auto
  from tick_scene [OF w(1) step(1)] w(2,3) step(2) Sleeping show ?thesis by (auto simp: moves_on_def at_command_def)
qed (use assms calling_moves closing_moves in \<open>simp_all del: script_step.simps(13,15) script_fine.simps(3,4)\<close>)

section \<open>At rest the script has passed\<close>

lemma script_idle:
  assumes "at_rest (script_exec E C) by_itself (p, w)"
  shows "idle E w" and "script_step E C p w = None"
proof -
  have none: "by_itself a \<Longrightarrow> script_exec E C a (p, w) = None" for a
    using assms by (simp add: at_rest_def)
  from none [of Main] show "script_step E C p w = None" by simp
  have "world_exec E b w = None" if b: "by_itself (Beside b)" for b
  proof -
    from b have "no_handle b" by (cases b rule: no_handle.cases) simp_all
    with none [OF b] show ?thesis by simp
  qed
  then show "idle E w" by (simp add: idle_def)
qed

lemma idle_command:
  assumes "idle E w" and "at_command R cfg J n C i cs w"
  shows "script_step E C (At i cs) w \<noteq> None"
proof (cases cs)
  case (Cons c cs')
  from assms(2) obtain closing where w: "scene R cfg J n closing w" "conforms C J n closing (owed J w) cs"
    "calls (client w) i = NotStarted" by (auto simp: at_command_def)
  show ?thesis
  proof (cases closing)
    case False
    with w(1) have s: "scene R cfg J n False w" by simp
    note room = idle_open(2) [OF s assms(1)]
    have start: "a = SendConfirmed i m \<or> a = SendClose i \<or> a = SendUnconfirmed m \<Longrightarrow> client_exec E a w \<noteq> None" for a m
      using send_can_start [OF s w(3) room] .
    have item: "owed J w \<noteq> [] \<Longrightarrow> chan_recv (rx_chan (conn (client w))) \<noteq> Pending"
      using idle_owed [OF s assms(1)] .
    show ?thesis
    proof (cases c)
      case (DoSend v)
      with start [of "SendConfirmed i m" m for m] w(2) Cons show ?thesis by (cases "encode C v") auto
    next
      case (DoSendRaw m)
      with start [of "SendConfirmed i m" m] Cons show ?thesis by auto
    next
      case (DoSendUnconfirmed v)
      with start [of "SendUnconfirmed m" m for m] w(2) Cons unconfirmed_scene(5) [OF s] False show ?thesis
        by (cases "encode C v") (fastforce simp: expecting_eq_Some)+
    next
      case CloseTx
      with start [of "SendClose i"] Cons show ?thesis by auto
    next
      case CloseConnection
      with start [of "SendClose i"] Cons show ?thesis by auto
    qed (use Cons w(2) False item open_scene(3) [OF s] in
        \<open>auto simp: client_exec_def expecting_def next_message_def next_raw_message_def poll_next_def recv_raw_def
          poll_recv_raw_def take_terminal_error_def take_terminal_error_opt_def
          split: list.splits poll.splits sum.splits option.splits\<close>)
  next
    case True
    with w(1) have s: "scene R cfg J n True w" by simp
    have "rx_handle (client w)" using s by (simp add: scene_def peaceful_def peaceful_client_def)
    with True Cons w(2) idle_ended [OF s assms(1)] show ?thesis
      by (cases c) (auto simp: client_exec_def expecting_def next_message_def poll_next_def recv_raw_def
          poll_recv_raw_def take_terminal_error_def take_terminal_error_opt_def split: poll.splits sum.splits option.splits)
  qed
qed simp

lemma resting_passed:
  assumes "at_rest (script_exec E C) by_itself (p, w)" and "script_fine R cfg J n C (p, w)"
  shows "p = Passed"
proof (rule ccontr)
  assume "p \<noteq> Passed"
  note idle = script_idle [OF assms(1)]
  show False
  proof (cases p)
    case (At i cs)
    with idle_command [OF idle(1), of i cs] idle(2) assms(2) show False by simp
  next
    case (Calling i cs)
    with assms(2) obtain closing where w: "scene R cfg J n closing w" "started closing i w" by auto
    from idle(2) Calling idle_awaiting [OF w(1) idle(1) w(2)] w(2) show False
      by (auto simp: started_def calling_def)
  next
    case (Sleeping until i cs)
    with idle(2) show False by (simp add: client_exec_def)
  next
    case (Closing i)
    with assms(2) have w: "scene R cfg J n True w" "started True i w" by simp_all
    from idle(2) Closing idle_awaiting [OF w(1) idle(1) w(2)] w(2)
    have call: "calls (client w) i = Done (Returned (Ok ()))" by (auto simp: started_def calling_def)
    from idle_closing_finished [OF w(1) idle(1)] no_error(2) [OF w(1)] obtain st where "task (client w) = Finished st"
      by (cases "task (client w)") auto
    with call idle(2) Closing show False by (simp add: close_connection_def split: prod.splits)
  qed (use assms(2) \<open>p \<noteq> Passed\<close> in simp_all)
qed

lemma script_exec_fine:
  assumes "script_exec E C a s = Some s'" and "script_fine R cfg J n C s"
  shows "script_fine R cfg J n C s'" and "by_itself a \<Longrightarrow> script_effort id id id s' < script_effort id id id s"
proof -
  obtain p w p' w' where s: "s = (p, w)" "s' = (p', w')" by (cases s; cases s')
  have "script_fine R cfg J n C s' \<and> (by_itself a \<longrightarrow> script_effort id id id s' < script_effort id id id s)"
  proof (cases a)
    case Main
    with script_moves [of p w p' w'] assms s show ?thesis by (simp add: moves_on_def)
  next
    case (Beside b)
    with assms(1) s have b: "no_handle b" "world_exec E b w = Some w'" "p' = p" by (auto split: if_splits)
    with beside_moves [OF assms(2) [unfolded s] b(1,2)] s Beside show ?thesis by simp
  qed
  then show "script_fine R cfg J n C s'" "by_itself a \<Longrightarrow> script_effort id id id s' < script_effort id id id s" by blast+
qed

lemma script_run_fine:
  "script_fine R cfg J n C s \<Longrightarrow> run_of (script_exec E C) as s = Some s' \<Longrightarrow> script_fine R cfg J n C s'"
  by (induction as arbitrary: s) (auto split: option.splits intro: script_exec_fine(1))

end

context script_setting
begin

lemma start_fine:
  assumes "script_start E n fresh_link cs = Some s" and "conforms C J n False [] cs"
  shows "script_fine R cfg J n C s" and "script_effort id id id s = Suc (sum_list (map command_effort cs))"
proof -
  from assms(1) obtain w where w: "init_world E n fresh_link = Some w" "s = (At 0 cs, w)"
    by (auto simp: script_start_def)
  then have fresh: "delivered (client w) = []" "calls (client w) = (\<lambda>_. NotStarted)" "world_effort id id id w = 0"
    by (auto simp: init_world_def init_sys_def init_conn_def chan_new_def world_effort_def client_effort_def fresh_link_def
        split: if_splits)
  with init_peaceful [OF w(1)] world_reachable.start [OF w(1)] have "scene R cfg J n False w" "owed J w = []"
    by (simp_all add: scene_def owed_def)
  with assms(2) w(2) fresh show "script_fine R cfg J n C s" "script_effort id id id s = Suc (sum_list (map command_effort cs))"
    by (auto simp: at_command_def)
qed

end

end
