(* ===== verification/Script_Runtimes.thy ===== *)
theory Script_Runtimes
  imports Scripts
begin

text \<open>
  Scripts on every runtime. A run on any channels that keep their documented behaviour is, in the view, a
  run on the reference channels; when a lone sender waits for nothing but room, the converse holds of
  single steps, so that a script is at rest there only when its view is.
\<close>

section \<open>Runs in the view\<close>

definition world_view ::
  "('t \<Rightarrow> payload chan) \<Rightarrow> ('r \<Rightarrow> message chan) \<Rightarrow> ('o \<Rightarrow> reply slot) \<Rightarrow> ('t, 'r, 'o, link) world \<Rightarrow> ref_world" where
  "world_view vt vr vo w = \<lparr>client = sys_view vt vr vo (client w), server = server w, server_log = server_log w\<rparr>"

lemma world_view_simps [simp]:
  "client (world_view vt vr vo w) = sys_view vt vr vo (client w)" "server (world_view vt vr vo w) = server w"
  "server_log (world_view vt vr vo w) = server_log w"
  by (simp_all add: world_view_def)

lemma world_view_update [simp]:
  "world_view vt vr vo (w\<lparr>client := s\<rparr>) = (world_view vt vr vo w)\<lparr>client := sys_view vt vr vo s\<rparr>"
  "world_view vt vr vo (w\<lparr>client := s, server := t, server_log := l\<rparr>)
    = \<lparr>client = sys_view vt vr vo s, server = t, server_log = l\<rparr>"
  by (simp_all add: world_view_def)

lemma effort_view [simp]: "world_effort id id id (world_view vt vr vo w) = world_effort vt vr vo w"
  by (simp add: world_effort_def)

abbreviation state_view ::
  "('t \<Rightarrow> payload chan) \<Rightarrow> ('r \<Rightarrow> message chan) \<Rightarrow> ('o \<Rightarrow> reply slot)
    \<Rightarrow> ('tx, 'rx, 't, 'r, 'o, link) script_state \<Rightarrow> ('tx, 'rx, payload chan, message chan, reply slot, link) script_state" where
  "state_view vt vr vo \<equiv> map_prod id (world_view vt vr vo)"

lemma script_effort_view [simp]: "script_effort id id id (state_view vt vr vo s) = script_effort vt vr vo s"
  by (cases s) simp

lemma close_connection_view:
  "close_connection i (sys_view vt vr vo s) = map_poll (map_prod (sys_view vt vr vo) id) (close_connection i s)"
  by (auto simp: close_connection_def take_terminal_error_opt_def sys_view_def conn_view_def drain_def
      split: call.splits call_outcome.splits task.splits)

lemma expecting_view:
  assumes "expecting polled good go_on w = Some (p, w')" and "\<And>c r. polled = Ready (c, r) \<Longrightarrow> \<exists>k. polled' = Ready (k, r)"
    and "\<And>u. w = Some u \<Longrightarrow> v = Some (f u)"
  shows "expecting polled' good go_on v = Some (p, f w')"
  using assms by (fastforce simp: expecting_def split: poll.splits)

context reliable_link
begin

abbreviation wv :: "('t, 'r, 'o, link) world \<Rightarrow> ref_world" where
  "wv \<equiv> world_view vt vr vo"

lemma client_exec_view:
  assumes "client_exec (reliable_env R cfg J) a w = Some w'"
  shows "client_exec (reliable_env (reference R) cfg J) a (wv w) = Some (wv w')"
proof -
  from assms obtain s where s: "exec R cfg a (client w) = Some s" "\<not> by_network a"
    "w' = w\<lparr>client := if finished (task s) \<and> \<not> finished (task (client w)) then on_network (leave_client (net s)) s else s\<rparr>"
    by (auto simp: client_exec_def split: if_splits option.splits)
  with exec_view [OF s(1)] show ?thesis
    by (simp add: client_exec_def view_on_network)
qed

lemma server_exec_view:
  "server_exec (reliable_env (reference R) cfg J) (wv w) = map_option wv (server_exec (reliable_env R cfg J) w)"
  by (auto simp: server_exec_def view_on_network simp del: serve_step.simps split: option.splits)

lemma world_exec_view:
  "world_exec (reliable_env R cfg J) b w = Some w' \<Longrightarrow> world_exec (reliable_env (reference R) cfg J) b (wv w) = Some (wv w')"
  by (cases b) (simp_all add: client_exec_view server_exec_view)

lemma init_world_view:
  assumes "init_world (reliable_env R cfg J) n fresh_link = Some w"
  shows "init_world (reliable_env (reference R) cfg J) n fresh_link = Some (wv w)"
proof -
  from assms obtain s where s: "init_sys R n fresh_link = Some s" "w = \<lparr>client = s, server = Serving False, server_log = []\<rparr>"
    by (auto simp: init_world_def)
  with init_view [OF s(1)] show ?thesis by (simp add: init_world_def world_view_def)
qed

lemma polled_view:
  "next_message (logged_runtime R) C c = Ready (c', r) \<Longrightarrow>
    \<exists>k. next_message (logged_runtime (reference R)) C (conn_view vt vr vo c) = Ready (k, r)"
  "next_raw_message (logged_runtime R) c = Ready (c', m) \<Longrightarrow>
    \<exists>k. next_raw_message (logged_runtime (reference R)) (conn_view vt vr vo c) = Ready (k, m)"
  "poll_next (logged_runtime R) C c = Ready (c', x) \<Longrightarrow>
    \<exists>k. poll_next (logged_runtime (reference R)) C (conn_view vt vr vo c) = Ready (k, x)"
  "send_unconfirmed (logged_runtime R) f c = Ready (c', u) \<Longrightarrow>
    \<exists>k. send_unconfirmed (logged_runtime (reference R)) f (conn_view vt vr vo c) = Ready (k, u)"
  by (auto simp: next_message_def next_raw_message_def poll_next_def map_poll_eq_Ready reference_logged
      dest!: tokio.view_recv_raw [OF tokio_logged] tokio.view_poll_recv_raw [OF tokio_logged]
        tokio.view_send_unconfirmed [OF tokio_logged])

lemma script_step_view:
  assumes "script_step (reliable_env R cfg J) C p w = Some (p', w')"
  shows "script_step (reliable_env (reference R) cfg J) C p (wv w) = Some (p', wv w')"
  using assms
  by (cases "(reliable_env R cfg J, C, p, w)" rule: script_step.cases)
    (auto simp: close_connection_view split: sum.splits call.splits poll.splits
      elim!: expecting_view intro: polled_view client_exec_view)

lemma script_exec_view:
  assumes "script_exec (reliable_env R cfg J) C a s = Some s'"
  shows "script_exec (reliable_env (reference R) cfg J) C a (state_view vt vr vo s) = Some (state_view vt vr vo s')"
  using assms
  by (cases a; cases s; cases s') (auto split: if_splits intro: script_step_view world_exec_view)

end

section \<open>Prompt runtimes\<close>

text \<open>Of the steps of a program only a send can wait longer on a real runtime: for its turn.\<close>

lemma expecting_enabled:
  "client_exec E Recv w \<noteq> None \<Longrightarrow>
    expecting (next_message (logged_runtime (client_runtime E)) C (conn (client w))) good go_on (client_exec E Recv w) \<noteq> None"
  "client_exec E Recv w \<noteq> None \<Longrightarrow>
    expecting (next_raw_message (logged_runtime (client_runtime E)) (conn (client w))) good1 go_on (client_exec E Recv w) \<noteq> None"
  "client_exec E PollRecv w \<noteq> None \<Longrightarrow>
    expecting (poll_next (logged_runtime (client_runtime E)) C (conn (client w))) good2 go_on (client_exec E PollRecv w) \<noteq> None"
  "client_exec E (SendUnconfirmed m) w \<noteq> None \<Longrightarrow>
    expecting (send_unconfirmed (logged_runtime (client_runtime E)) m (conn (client w))) good3 go_on
      (client_exec E (SendUnconfirmed m) w) \<noteq> None"
  by (auto simp: expecting_def client_exec_def next_message_def next_raw_message_def poll_next_def
      split: poll.splits option.splits if_splits)

lemma expecting_runs: "expecting polled good go_on w = Some x \<Longrightarrow> \<exists>w'. w = Some w'"
  by (cases x) (auto simp: expecting_eq_Some)

text \<open>One whose lone sender waits for nothing but room, over the reliable link.\<close>

locale prompt_runtime = tokio R vt vr vo
  for R :: "('t, 'r, 'o, link) runtime" and vt vr vo +
  assumes over_link: "ws_ops R = client_end"
    and lone_send: "senders (vt c) = 1 \<Longrightarrow> chan_send (vt c) x \<noteq> Pending \<Longrightarrow> ch_send (tx_ops R) c x \<noteq> Pending"

context prompt_runtime
begin

lemma init_some:
  assumes "0 < n"
  shows "\<exists>s. init_sys R n k = Some s"
proof -
  have "map_option vt (ch_new (tx_ops R) n) \<noteq> None" "map_option vr (ch_new (rx_ops R) n) \<noteq> None"
    using assms by (simp_all add: tx.view_new rx.view_new chan_new_def)
  then show ?thesis by (auto simp: init_sys_def init_conn_def)
qed

end

locale prompt_link = reliable_link R vt vr vo cfg J + prompt_runtime R vt vr vo
  for R :: "('t, 'r, 'o, link) runtime" and vt vr vo and cfg :: loop_config
    and J :: "(echo_control_message, echo_control_message) serde_json"
begin

lemma client_exec_reflect:
  assumes "client_exec (reliable_env (reference R) cfg J) a (wv w) \<noteq> None" and "senders (vt (tx_chan (conn (client w)))) = 1"
  shows "client_exec (reliable_env R cfg J) a w \<noteq> None"
proof -
  have "exec R cfg a (client w) \<noteq> None \<and> \<not> by_network a"
  proof (cases "queues a")
    case False
    with assms(1) exec_enabled [of a cfg "client w"] show ?thesis
      by (auto simp: client_exec_def split: if_splits option.splits)
  next
    case True
    with assms lone_send [of "tx_chan (conn (client w))"] show ?thesis
      by (cases a)
        (auto simp: client_exec_def start_call_def send_confirmed_def send_close_def send_unconfirmed_def Let_def
          split: if_splits poll.splits option.splits sum.splits prod.splits)
  qed
  then show ?thesis by (auto simp: client_exec_def)
qed

lemma script_step_reflect:
  assumes "script_step (reliable_env (reference R) cfg J) C p (wv w) \<noteq> None" and "senders (vt (tx_chan (conn (client w)))) = 1"
  shows "script_step (reliable_env R cfg J) C p w \<noteq> None"
proof -
  have exec: "client_exec (reliable_env (reference R) cfg J) a (wv w) = Some v \<Longrightarrow> \<exists>w'. client_exec (reliable_env R cfg J) a w = Some w'" for a v
    using client_exec_reflect [OF _ assms(2)] by simp
  note enabled = expecting_enabled [where E = "reliable_env R cfg J" and w = w, simplified]
  show ?thesis
    using assms(1)
    by (cases "(reliable_env R cfg J, C, p, w)" rule: script_step.cases)
      (auto simp: close_connection_view split: sum.splits call.splits poll.splits
        dest!: expecting_runs dest: exec intro!: enabled)
qed

end

section \<open>Scripts settle on every prompt runtime\<close>

lemma exec_keeps_handles:
  assumes "exec R cfg a s = Some s'" and "a \<noteq> CloneTx" and "a \<noteq> DropTx"
  shows "tx_handles s' = tx_handles s"
  using assms
  by (cases a)
    (auto simp: start_call_def split: if_splits option.splits poll.splits sum.splits task.splits prod.splits)

lemma client_exec_keeps_handles:
  assumes "client_exec E a w = Some w'" and "a \<noteq> CloneTx" and "a \<noteq> DropTx"
  shows "tx_handles (client w') = tx_handles (client w)"
  using assms by (auto simp: client_exec_def split: if_splits option.splits dest!: exec_keeps_handles)

lemma close_connection_keeps_handles:
  "close_connection i s = Ready (s', out) \<Longrightarrow> tx_handles s' = tx_handles s"
  by (auto simp: close_connection_def split: call.splits call_outcome.splits task.splits prod.splits)

lemma script_exec_keeps_handles:
  assumes "script_exec E C a (p, w) = Some (p', w')"
  shows "tx_handles (client w') = tx_handles (client w)"
proof (cases a)
  case Main
  with assms have "script_step E C p w = Some (p', w')" by simp
  then show ?thesis
    by (cases "(E, C, p, w)" rule: script_step.cases)
      (auto simp: expecting_eq_Some split: sum.splits call.splits poll.splits
        dest!: client_exec_keeps_handles close_connection_keeps_handles)
next
  case (Beside b)
  with assms have b: "no_handle b" "world_exec E b w = Some w'" by (auto split: if_splits)
  then show ?thesis
  proof (cases b)
    case (Client c)
    with b client_exec_keeps_handles [of E c w w'] show ?thesis by (cases c) simp_all
  next
    case Server
    with b(2) show ?thesis
      by (auto simp: server_exec_def simp del: serve_step.simps split: option.splits prod.splits if_splits)
  qed
qed

lemma fine_scene:
  "script_fine R cfg J n C (p, w) \<Longrightarrow> \<exists>closing. scene R cfg J n closing w"
  by (cases p) (auto simp: at_command_def)

definition script_ok ::
  "('t, 'r, 'o, link) runtime \<Rightarrow> ('t \<Rightarrow> payload chan) \<Rightarrow> ('r \<Rightarrow> message chan) \<Rightarrow> ('o \<Rightarrow> reply slot)
    \<Rightarrow> loop_config \<Rightarrow> (echo_control_message, echo_control_message) serde_json \<Rightarrow> nat \<Rightarrow> ('tx, 'rx) codec
    \<Rightarrow> ('tx, 'rx, 't, 'r, 'o, link) script_state \<Rightarrow> bool" where
  "script_ok R vt vr vo cfg J n C s \<longleftrightarrow>
     script_fine (reference R) cfg J n C (state_view vt vr vo s) \<and> tx_handles (client (snd s)) = 1"

sublocale prompt_link \<subseteq> ref: script_setting "reference R" cfg J n C for n C
proof unfold_locales
qed (use sleep_not_early sleep_over link quiet unanswered in \<open>simp_all add: reference_def map_ident_simps\<close>)

context prompt_link
begin

lemma script_exec_ok:
  assumes "script_exec (reliable_env R cfg J) C a s = Some s'" and "script_ok R vt vr vo cfg J n C s"
  shows "script_ok R vt vr vo cfg J n C s'" and "by_itself a \<Longrightarrow> script_effort vt vr vo s' < script_effort vt vr vo s"
proof -
  note step = script_exec_view [OF assms(1)]
  have fine: "script_fine (reference R) cfg J n C (state_view vt vr vo s)" "tx_handles (client (snd s)) = 1"
    using assms(2) by (simp_all add: script_ok_def)
  have "tx_handles (client (snd s')) = 1"
    using script_exec_keeps_handles [of "reliable_env R cfg J" C a "fst s" "snd s" "fst s'" "snd s'"] assms(1) fine(2) by simp
  with ref.script_exec_fine(1) [OF step fine(1)] show "script_ok R vt vr vo cfg J n C s'" by (simp add: script_ok_def)
  show "by_itself a \<Longrightarrow> script_effort vt vr vo s' < script_effort vt vr vo s"
    using ref.script_exec_fine(2) [OF step fine(1)] by simp
qed

lemma script_rest_view:
  assumes "script_ok R vt vr vo cfg J n C (p, w)" and "at_rest (script_exec (reliable_env R cfg J) C) by_itself (p, w)"
  shows "at_rest (script_exec (reliable_env (reference R) cfg J) C) by_itself (p, wv w)"
proof -
  from assms(1) fine_scene obtain closing where s: "scene (reference R) cfg J n closing (wv w)" "tx_handles (client w) = 1"
    by (fastforce simp: script_ok_def)
  from ref.scene_facts(1) [OF s(1)] s(2) have one: "senders (vt (tx_chan (conn (client w)))) = 1" by (simp add: shape_inv_def)
  have none: "by_itself a \<Longrightarrow> script_exec (reliable_env R cfg J) C a (p, w) = None" for a
    using assms(2) by (simp add: at_rest_def)
  have "script_exec (reliable_env (reference R) cfg J) C a (p, wv w) = None" if "by_itself a" for a
  proof (cases a)
    case Main
    with none [OF that] have "script_step (reliable_env R cfg J) C p w = None" by simp
    with script_step_reflect [OF _ one, of C p] Main show ?thesis by (simp del: not_None_eq) blast
  next
    case (Beside b)
    with that have "no_handle b" by (cases b rule: no_handle.cases) simp_all
    have "client_exec (reliable_env R cfg J) c w = None \<Longrightarrow> client_exec (reliable_env (reference R) cfg J) c (wv w) = None" for c
      using client_exec_reflect [OF _ one] by blast
    with none [OF that] Beside server_exec_view [of w] \<open>no_handle b\<close> show ?thesis
      by (cases b) auto
  qed
  then show ?thesis by (simp add: at_rest_def)
qed

end

sublocale prompt_link \<subseteq> script: settling "script_exec (reliable_env R cfg J) C" by_itself
  "script_ok R vt vr vo cfg J n C" script_done "script_effort vt vr vo" for n C
proof
  fix s s' and a :: "link chat_action"
  assume "script_ok R vt vr vo cfg J n C s" "by_itself a" "script_exec (reliable_env R cfg J) C a s = Some s'"
  with script_exec_ok show "script_ok R vt vr vo cfg J n C s' \<and> script_effort vt vr vo s' < script_effort vt vr vo s" by blast
next
  fix s
  assume ok: "script_ok R vt vr vo cfg J n C s" and rest: "at_rest (script_exec (reliable_env R cfg J) C) by_itself s"
  obtain p w where s: "s = (p, w)" by (cases s)
  have "script_fine (reference R) cfg J n C (p, wv w)" using ok s by (simp add: script_ok_def)
  from ref.resting_passed [OF script_rest_view [OF ok [unfolded s] rest [unfolded s]] this] s
  show "script_done s" by simp
qed

context prompt_link
begin

lemma script_passes:
  assumes "script_start (reliable_env R cfg J) n fresh_link cs = Some s0" and "conforms C J n False [] cs"
    and "run_of (script_exec (reliable_env R cfg J) C) as s0 = Some s"
  shows "script_effort vt vr vo s0 = Suc (sum_list (map command_effort cs)) \<and> fst s \<noteq> Failed
    \<and> (\<forall>bs s'. list_all by_itself bs \<longrightarrow> run_of (script_exec (reliable_env R cfg J) C) bs s = Some s' \<longrightarrow>
        length bs \<le> script_effort vt vr vo s
        \<and> (at_rest (script_exec (reliable_env R cfg J) C) by_itself s' \<longrightarrow> fst s' = Passed))
    \<and> (\<exists>bs s'. list_all by_itself bs \<and> run_of (script_exec (reliable_env R cfg J) C) bs s = Some s' \<and> fst s' = Passed)"
proof -
  let ?step = "script_exec (reliable_env R cfg J) C"
  from assms(1) obtain w where w: "init_world (reliable_env R cfg J) n fresh_link = Some w" "s0 = (At 0 cs, w)"
    by (auto simp: script_start_def)
  have start: "script_start (reliable_env (reference R) cfg J) n fresh_link cs = Some (state_view vt vr vo s0)"
    using init_world_view [OF w(1)] w(2) by (simp add: script_start_def)
  have "tx_handles (client w) = 1" using w(1) by (auto simp: init_world_def init_sys_def)
  with ref.start_fine(1) [OF start assms(2)] w(2) have ok0: "script_ok R vt vr vo cfg J n C s0" by (simp add: script_ok_def)
  have ok: "script_ok R vt vr vo cfg J n C s \<Longrightarrow> run_of ?step as s = Some s' \<Longrightarrow> script_ok R vt vr vo cfg J n C s'" for as s s'
    by (induction as arbitrary: s) (auto split: option.splits intro: script_exec_ok(1))
  note fine = ok [OF ok0 assms(3)]
  have "fst s \<noteq> Failed" using fine by (cases s; cases "fst s"; simp add: script_ok_def)
  moreover have "length bs \<le> script_effort vt vr vo s \<and> (at_rest ?step by_itself s' \<longrightarrow> fst s' = Passed)"
    if bs: "list_all by_itself bs" "run_of ?step bs s = Some s'" for bs s'
    using script.run_bounded [OF fine bs] script.run_settles [OF fine bs] by (cases s') simp
  moreover have "\<exists>bs s'. list_all by_itself bs \<and> run_of ?step bs s = Some s' \<and> fst s' = Passed"
  proof -
    from script.run_to_rest [OF fine] obtain bs s' where bs: "list_all by_itself bs" "run_of ?step bs s = Some s'"
      "at_rest ?step by_itself s'" by blast
    moreover have "fst s' = Passed" using script.run_settles [OF fine bs] by (cases s') simp
    ultimately show ?thesis by blast
  qed
  ultimately show ?thesis using ref.start_fine(2) [OF start assms(2)] by simp
qed

end

text \<open>Both implementations of the channels are prompt.\<close>

interpretation reference_prompt: prompt_runtime "reference_runtime client_end" id id id
  by unfold_locales simp_all

interpretation queue_prompt: prompt_runtime "queue_runtime client_end" queue_view queue_view id
  by unfold_locales (auto simp: chan_send_def split: if_splits)

lemma prompt_link_of:
  assumes "prompt_runtime R vt vr vo" and "harmless J (keepalive_frame cfg)" and "echo_reply J (keepalive_frame cfg) = []"
  shows "prompt_link R vt vr vo cfg J"
  using assms by (simp add: prompt_link_def prompt_runtime_def prompt_runtime_axioms_def reliable_link_def reliable_link_axioms_def)

interpretation queue_script: prompt_link "queue_runtime client_end" queue_view queue_view id default_keepalive echo_json
  by (rule prompt_link_of [OF queue_prompt.prompt_runtime_axioms])
    (simp_all add: default_keepalive_def keepalive_frame_def echo_reply_def)

section \<open>Conforming scripts pass\<close>



end
