(* ===== verification/Integration_Tests.thy ===== *)
theory Integration_Tests
  imports Script_Runtimes
begin

text \<open>
  The integration tests (\<open>tests/integration.rs\<close>) that drive one connection to the echo server from one
  task: each is its connect options and the script of its calls and assertions. They conform, so they
  pass under every interleaving with the loop, the clock and the server, whatever JSON format is used.
  Connecting itself, on which the tests rely as well, is the subject of the client handle's theories.
\<close>

section \<open>The tests\<close>

type_synonym ('tx, 'rx, 'h) integration_test = "'h connect_options \<times> ('tx, 'rx) command list"

type_synonym 'h echo_test = "(echo_control_message, echo_control_message, 'h) integration_test"

definition test_connection :: "'h header_ops \<Rightarrow> 'h echo_test" where
  "test_connection H = (connect_options_default H, [])"

definition test_send_receive :: "'h header_ops \<Rightarrow> 'h echo_test" where
  "test_send_receive H =
     (let message = EchoMessage ''Hello''
      in (connect_options_default H, [DoSend message, GetMessage message]))"

definition test_ping_request :: "'h header_ops \<Rightarrow> 'h echo_test" where
  "test_ping_request H =
     (let message = EchoMessage ''Hello''
      in (connect_options_default H,
          [DoSend EchoSendPing, DoSend message, GetMessage message, Pause 2200, CloseConnection]))"

definition test_close_request :: "'h header_ops \<Rightarrow> 'h echo_test" where
  "test_close_request H = (connect_options_default H, [CloseConnection])"

definition test_connect_with_default_options :: "'h header_ops \<Rightarrow> 'h echo_test" where
  "test_connect_with_default_options H =
     (let message = EchoMessage ''Hello''
      in (connect_options_default H, [DoSend message, GetMessage message]))"

definition test_disabled_keepalive :: "'h header_ops \<Rightarrow> 'h echo_test" where
  "test_disabled_keepalive H =
     (let opts = build (set_keepalive_interval None (builder H));
          message = EchoMessage ''Hello''
      in (opts, [DoSend message, GetMessage message]))"

definition test_extra_headers_used :: "'h header_ops \<Rightarrow> 'h echo_test" where
  "test_extra_headers_used H =
     (let opts = build (set_header H ''x-test-header'' ''socketeer'' (builder H));
          message = EchoMessage ''hi''
      in (opts, [DoSend message, GetMessage message, CloseConnection]))"

text \<open>The JSON of a message whose text needs no escapes, as the raw tests write it.\<close>

definition raw_text :: "string \<Rightarrow> string" where
  "raw_text s = CHR ''{'' # quote # ''Message'' @ [quote, CHR '':'', quote] @ s @ [quote, CHR ''}'']"

definition test_send_raw_next_raw_message :: "'h header_ops \<Rightarrow> 'h echo_test" where
  "test_send_raw_next_raw_message H =
     (let frame = Text (raw_text ''raw recv'')
      in (connect_options_default H, [DoSendRaw frame, GetRaw frame, CloseConnection]))"

definition test_raw_codec_message_roundtrip :: "'h header_ops \<Rightarrow> (message, message, 'h) integration_test" where
  "test_raw_codec_message_roundtrip H =
     (let frame = Text (raw_text ''raw hello'')
      in (connect_options_default H, [DoSend frame, GetMessage frame]))"

text \<open>After \<open>split\<close> the halves use the same connection; \<open>tx.close()\<close> sends the close without waiting for the task.\<close>

definition test_split_round_trip :: "'h header_ops \<Rightarrow> 'h echo_test" where
  "test_split_round_trip H =
     (let message = EchoMessage ''split hello''
      in (connect_options_default H, [DoSend message, GetMessage message, CloseTx]))"

definition test_tx_close_ends_receive :: "'h header_ops \<Rightarrow> 'h echo_test" where
  "test_tx_close_ends_receive H = (connect_options_default H, [CloseTx, GetClosed])"

definition test_send_unconfirmed_delivers :: "'h header_ops \<Rightarrow> 'h echo_test" where
  "test_send_unconfirmed_delivers H =
     (let message = EchoMessage ''unconfirmed'';
          confirmed = EchoMessage ''after''
      in (connect_options_default H,
          [DoSendUnconfirmed message, GetMessage message, DoSend confirmed, GetMessage confirmed, CloseTx]))"

definition test_rx_stream_round_trip :: "'h header_ops \<Rightarrow> 'h echo_test" where
  "test_rx_stream_round_trip H =
     (let message = EchoMessage ''stream hello''
      in (connect_options_default H, [DoSend message, GetItem message, CloseTx]))"

definition test_rx_stream_graceful_close_ends_cleanly :: "'h header_ops \<Rightarrow> 'h echo_test" where
  "test_rx_stream_graceful_close_ends_cleanly H = (connect_options_default H, [CloseTx, GetEnd])"

definition test_socketeer_as_stream :: "'h header_ops \<Rightarrow> 'h echo_test" where
  "test_socketeer_as_stream H =
     (let message = EchoMessage ''direct stream''
      in (connect_options_default H, [DoSend message, GetItem message]))"

definition test_binary_custom_keepalive :: "'h header_ops \<Rightarrow> 'h echo_test" where
  "test_binary_custom_keepalive H =
     (let opts = build (set_custom_keepalive_message (Some (Binary (map of_char ''keepalive'')))
                   (set_keepalive_interval (Some 100) (builder H)));
          message = EchoMessage ''post-keepalive''
      in (opts, [Pause 350, DoSend message, GetMessage message, CloseConnection]))"

definition echo_tests :: "'h header_ops \<Rightarrow> 'h echo_test list" where
  "echo_tests H =
     [test_connection H, test_send_receive H, test_ping_request H, test_close_request H,
      test_connect_with_default_options H, test_disabled_keepalive H, test_extra_headers_used H,
      test_send_raw_next_raw_message H, test_split_round_trip H, test_tx_close_ends_receive H,
      test_send_unconfirmed_delivers H, test_rx_stream_round_trip H,
      test_rx_stream_graceful_close_ends_cleanly H, test_socketeer_as_stream H, test_binary_custom_keepalive H]"

section \<open>Passing\<close>

text \<open>
  A test is set up, and after whatever happened no assertion has failed, the steps of test, loop and
  server are bounded, and when there is none left the test is through. The channels have the default
  capacity of 256.
\<close>

definition passes ::
  "('t, 'r, 'o, link) runtime \<Rightarrow> ('t \<Rightarrow> payload chan) \<Rightarrow> ('r \<Rightarrow> message chan) \<Rightarrow> ('o \<Rightarrow> reply slot)
    \<Rightarrow> (echo_control_message, echo_control_message) serde_json \<Rightarrow> ('tx, 'rx) codec
    \<Rightarrow> ('tx, 'rx, 'h) integration_test \<Rightarrow> bool" where
  "passes R vt vr vo J C t \<longleftrightarrow>
     (let E = reliable_env R (config_of (fst t)) J
      in \<exists>s0. script_start E 256 fresh_link (snd t) = Some s0
           \<and> (\<forall>as s. run_of (script_exec E C) as s0 = Some s \<longrightarrow> fst s \<noteq> Failed
                \<and> (\<forall>bs s'. list_all by_itself bs \<longrightarrow> run_of (script_exec E C) bs s = Some s' \<longrightarrow>
                     length bs \<le> script_effort vt vr vo s
                     \<and> (at_rest (script_exec E C) by_itself s' \<longrightarrow> fst s' = Passed))))"

lemma passesI:
  assumes "prompt_runtime R vt vr vo"
    and "harmless J (keepalive_frame (config_of (fst t))) \<and> echo_reply J (keepalive_frame (config_of (fst t))) = []
      \<and> conforms C J 256 False [] (snd t)"
  shows "passes R vt vr vo J C t"
proof -
  let ?E = "reliable_env R (config_of (fst t)) J"
  obtain s where "init_sys R 256 fresh_link = Some s"
    using prompt_runtime.init_some [OF assms(1), of 256 fresh_link] by auto
  then obtain s0 where s0: "script_start ?E 256 fresh_link (snd t) = Some s0"
    by (simp add: script_start_def init_world_def)
  have "prompt_link R vt vr vo (config_of (fst t)) J"
    using prompt_link_of [OF assms(1)] assms(2) by blast
  from prompt_link.script_passes [OF this s0] assms(2) s0 show ?thesis
    unfolding passes_def Let_def by blast
qed

text \<open>What the tests need of the format: it writes the messages, and reads the texts of the raw tests.\<close>

locale test_format = json_format J for J :: "(echo_control_message, echo_control_message) serde_json" +
  assumes writes: "\<exists>t. to_string J m = Ok t"
    and reads: "from_str J (raw_text ''raw recv'') = Ok (EchoMessage ''raw recv'')"
      "from_str J (raw_text ''raw hello'') = Ok (EchoMessage ''raw hello'')"
begin

definition encoded :: "echo_control_message \<Rightarrow> message" where
  "encoded m = (case encode (json_codec J) m of Inr f \<Rightarrow> f)"

lemma encoded:
  "encode (json_codec J) m = Ok (encoded m)" "decode (json_codec J) (encoded m) = Ok m"
  "echo_reply J (encoded (EchoMessage s)) = [encoded (EchoMessage s)]" "echo_reply J (encoded EchoSendPing) = []"
  "harmless J (encoded (EchoMessage s))" "harmless J (encoded EchoSendPing)"
proof -
  have wrote: "\<exists>t. encode (json_codec J) m = Ok (Text t) \<and> encoded m = Text t \<and> from_str J t = Ok m" for m
  proof -
    from writes [of m] obtain t where t: "to_string J m = Ok t" ..
    with from_str_to_string [OF t] show ?thesis by (simp add: encoded_def json_codec_def json_encode_def)
  qed
  from wrote [of m] show "encode (json_codec J) m = Ok (encoded m)" "decode (json_codec J) (encoded m) = Ok m"
    by (auto simp: json_codec_def)
  from wrote [of "EchoMessage s"] show "echo_reply J (encoded (EchoMessage s)) = [encoded (EchoMessage s)]"
    "harmless J (encoded (EchoMessage s))" by (auto simp: echo_reply_def harmless_def)
  from wrote [of EchoSendPing] show "echo_reply J (encoded EchoSendPing) = []" "harmless J (encoded EchoSendPing)"
    by (auto simp: echo_reply_def harmless_def)
qed

lemma no_reply: "echo_reply J (Ping b) = []" "echo_reply J (Binary b) = []"
  by (simp_all add: echo_reply_def)

lemma raw_frames:
  "s \<in> {''raw recv'', ''raw hello''} \<Longrightarrow>
    harmless J (Text (raw_text s)) \<and> echo_reply J (Text (raw_text s)) = [Text (raw_text s)]"
  using reads by (auto simp: harmless_def echo_reply_def)

lemmas test_defs = test_connection_def test_send_receive_def test_ping_request_def test_close_request_def
  test_connect_with_default_options_def test_disabled_keepalive_def test_extra_headers_used_def
  test_send_raw_next_raw_message_def test_raw_codec_message_roundtrip_def test_split_round_trip_def
  test_tx_close_ends_receive_def test_send_unconfirmed_delivers_def test_rx_stream_round_trip_def
  test_rx_stream_graceful_close_ends_cleanly_def test_socketeer_as_stream_def test_binary_custom_keepalive_def

lemmas keepalive_defs = config_of_def keepalive_frame_def builder_defs

lemma echo_tests_pass:
  assumes "prompt_runtime R vt vr vo"
  shows "list_all (passes R vt vr vo J (json_codec J)) (echo_tests H)"
proof -
  have "harmless J (keepalive_frame (config_of (fst t))) \<and> echo_reply J (keepalive_frame (config_of (fst t))) = []
      \<and> conforms (json_codec J) J 256 False [] (snd t)" if "t \<in> set (echo_tests H)" for t
    using that unfolding echo_tests_def
    by (auto simp: test_defs keepalive_defs Let_def encoded no_reply raw_frames)
  then have "passes R vt vr vo J (json_codec J) t" if "t \<in> set (echo_tests H)" for t
    using that passesI [OF assms] by blast
  then show ?thesis by (simp add: list_all_iff)
qed

lemma raw_test_passes:
  assumes "prompt_runtime R vt vr vo"
  shows "passes R vt vr vo J raw_codec (test_raw_codec_message_roundtrip H)"
  using raw_frames [of "''raw hello''"]
  by (intro passesI [OF assms])
    (simp add: test_raw_codec_message_roundtrip_def raw_codec_def raw_encode_def raw_decode_def keepalive_defs no_reply Let_def)

end

section \<open>The integration tests pass\<close>


interpretation tested: test_format echo_json
proof
  show "\<exists>t. to_string echo_json m = Ok t" for m by (simp add: echo_json_def)
  have "raw_text ''raw recv'' = chat_text ''raw recv''" "raw_text ''raw hello'' = chat_text ''raw hello''"
    by (simp_all add: raw_text_def chat_text_def message_prefix_def escape_def short_escapes_def)
  then show "from_str echo_json (raw_text ''raw recv'') = Ok (EchoMessage ''raw recv'')"
    "from_str echo_json (raw_text ''raw hello'') = Ok (EchoMessage ''raw hello'')"
    by (simp_all add: chat_reads)
qed


end
