(* ===== verification/Spec2Isabelle.thy ===== *)
theory Spec2Isabelle
  imports Service Handles_Spec Mock_Spec Unit_Tests Chat_Finish Integration_Tests
begin

text \<open>
  A verification development of \<open>socketeer\<close>, an asynchronous WebSocket client library in Rust.

  The program. A \<open>Socketeer\<close> handle (\<open>src/lib.rs\<close>) never touches the socket. Connecting opens it,
  runs the user's handshake on it (\<open>src/handler.rs\<close>) and spawns one background task per connection
  (\<open>src/socket_loop.rs\<close>), which owns it from then on. Handle and task talk through two bounded
  channels: payloads to send, each with an optional one-shot for the answer, and received data frames.
  The task answers pings, closes and keepalives itself; when the consumer is slow it holds one frame
  and stops reading. When the task ends it stores the error that ended it in a slot shared with the
  handle, and only then drops its ends of the channels. A handle can be split into a cloneable send
  half and a receive half and reunited (\<open>src/split.rs\<close>). Values are turned into frames and back by a
  codec (\<open>src/codec.rs\<close>); options and headers are in \<open>src/config.rs\<close>, errors in \<open>src/error.rs\<close>, and
  \<open>src/mock_server.rs\<close> has servers for tests.

  Code that is not the crate's own. The channels and one-shots of \<open>tokio\<close>, its timer, the WebSocket
  of \<open>tokio-tungstenite\<close>, header maps, URL parsing, the opening of a connection and the serialisers
  are parameters: records of the operations the source calls, on a state of any type. What their
  documentation promises is stated in locales (\<open>mpsc\<close>, \<open>mpsc_solo\<close>, \<open>oneshot\<close>, \<open>tokio\<close>,
  \<open>header_map\<close>, \<open>json_format\<close>, \<open>msgpack_format\<close>). Of one end of a WebSocket nothing is assumed, but for
  termination that its backlog is finite (\<open>finite_backlog\<close>); of its two ends together, where both are
  programs of the repository, that data frames cross it each once and in order (\<open>duplex\<close>).

  The theories, in the order of their imports.

  \<^item> \<open>Prelude\<close>, \<open>Errors\<close>: results, polls, interleavings of lists; messages and the error type.
  \<^item> \<open>Codecs\<close>, \<open>Configs\<close>: the codec trait and its three implementations with the contracts
    \<open>lossless_codec\<close> and \<open>data_codec\<close>; options, builder and upgrade request.
  \<^item> \<open>Channels\<close>, \<open>Transport\<close>: the interfaces to \<open>tokio::sync\<close> and to the WebSocket, the reference
    channels (a list and a few flags), a wrapper that records the traffic of any transport, and a
    scripted transport for examples.
  \<^item> \<open>Socket_Loop\<close>: the task and the functions it shares with the handles, one definition per function
    of \<open>src/socket_loop.rs\<close>. An asynchronous function is cut at the points where it can wait; the two
    \<open>select!\<close> loops are \<open>select_arm\<close> and \<open>backpressure_arm\<close>, which take the winning arm as an argument
    and leave the task \<open>Busy\<close> with its handler; \<open>handler_step\<close> is that handler when the socket has
    answered, which may be never; the exit is \<open>exit_step\<close>. \<open>unreachable!\<close> is a value (\<open>Panicked\<close>,
    \<open>Crashed\<close>), so that it is proved whether it is reached.
  \<^item> \<open>Loop_Refinement\<close>, \<open>Queue_Channels\<close>: every operation commutes with the view of a runtime's
    channels as reference channels; a second implementation of the channels, with two-list queues,
    keeps the contract.
  \<^item> \<open>System\<close>: the connection as a transition system. A step is one \<open>action\<close>: an arm of the loop, the
    completion of its handler, a stage of its exit, a part of a call of a handle, time, or an arbitrary
    change of the socket. So
    every interleaving of task, handles, network and clock is a run. The simulation \<open>exec_view\<close>
    reduces all runtimes to the reference one; \<open>exec_reflect\<close> in \<open>Connection\<close> is its converse for the
    steps that queue nothing, from which progress of a real runtime follows.
  \<^item> \<open>Loop_Spec\<close>, \<open>Sys_Spec\<close>: the same steps as relations, one rule per outcome, with the proofs that
    the executable definitions take only these steps.
  \<^item> \<open>Invariants\<close>, \<open>Outbound\<close>: the invariants of reachable states by induction over these rules: shape
    of the channels, inbound frames, terminal error, pings; payloads, answers and the wire.
  \<^item> \<open>Connection\<close>, \<open>Lifecycle\<close>, \<open>Dispatch\<close>: the properties of a connection, for every runtime:
    delivery in order and without loss, bounded memory, order of sends, each caller's own result;
    the end of a connection, no stuck calls, shutdown, timing, a socket that does not answer; every
    kind of input, and failures.
  \<^item> \<open>Service\<close>: what a connection promises, as an abstract machine with two queues, a status and the standing of
    each call, whose steps are atomic: no channels, one-shots, held frame or hand-over between an arm and its
    handler. Every connection refines it (\<open>connection_is_service\<close>), so that its invariants, which take a few lines
    there, hold of every connection.
  \<^item> \<open>Handshake\<close>: the handshake context and handlers; its receive loop is a partial function, total on
    a finite backlog.
  \<^item> \<open>Client\<close>, \<open>Client_Spec\<close>: the handles. Connections live in a list and a channel end, a join handle
    or an \<open>Arc\<close> is an address in it; connecting, reconnecting, closing, splitting, the typed calls.
  \<^item> \<open>Handles\<close>, \<open>Handles_Spec\<close>: programs with any number of connections and handles, as a transition
    system over these operations, in which a handle that is dropped or used up drops its channel ends.
    \<open>well_typed\<close> is its type invariant: handles point to one connection with all fields, connections
    count their handles. Every connection of a program is a reachable state of \<open>System\<close>, so that all
    properties of a connection hold in it.
  \<^item> \<open>Debug_Output\<close>, \<open>Unit_Tests\<close>: constructors and \<open>Debug\<close> output; the crate's unit tests as predicates,
    proved for all serialisers and header maps.
  \<^item> \<open>Echo_Format\<close>, \<open>Mock_Server\<close>, \<open>Mock_Spec\<close>: control messages with their order and concrete formats
    for examples; the three mock servers and the listener; an abstract echo service that both echo
    servers refine. A server is the loop \<open>serve\<close> over a function for one item; \<open>serve_step\<close> is the same
    loop in steps, reading an item and answering it, for a server beside its peer.
  \<^item> \<open>Duplex\<close>, \<open>Echo_World\<close>, \<open>Echo_Spec\<close>, \<open>End_To_End\<close>: client and echo server on the two ends of one
    connection, under every interleaving of their steps, over a network that may be slow, fail, or run
    full. The invariant \<open>round_inv\<close> (locale \<open>echo_network\<close>) follows the data frames once round; with the
    invariants of the connection it gives delivery in order and without loss from the queue of the
    client back to its consumer, progress while there is room, and the mutual blocking when there is
    none.
  \<^item> \<open>Settling\<close>, \<open>Echo_Rest\<close>: the two over a link that loses nothing and has room. The locale \<open>settling\<close>
    is a system whose own steps keep an invariant and use up effort and which rests only at its goal: its
    runs are bounded and end there. \<open>peaceful\<close> is the invariant, that no end has cause to fail, and
    \<open>client_effort\<close>, \<open>server_effort\<close> weigh each frame with the steps it is still to go through. It follows
    that everything queued comes back, on every runtime.
  \<^item> \<open>Peaceful_Calls\<close>, \<open>Scripts\<close>, \<open>Script_Runtimes\<close>: programs of one task over the reliable link, as lists
    of commands: sends, receives with the value they must give, pauses, closes. \<open>script_step\<close> runs the
    next await of such a script. A script that \<open>conforms\<close> to what the server echoes is a settling system
    whose goal is its end: its assertions hold and it gets there under every interleaving. This is proved
    on the reference channels, where \<open>Peaceful_Calls\<close> says what becomes of each call (the invariant
    \<open>scene\<close>), and carried over to every runtime by a simulation, whose converse for single steps needs
    that a lone sender waits for nothing but room (\<open>prompt_runtime\<close>).
  \<^item> \<open>Echo_Chat\<close>, \<open>Chat_Finish\<close>: the program of \<open>examples/echo_chat.rs\<close>; its assertion holds over every
    network. Step by step it goes like a script, and so \<open>main\<close> comes to return over the reliable link.
  \<^item> \<open>Integration_Tests\<close>: sixteen tests of \<open>tests/integration.rs\<close> as scripts that conform.
  \<^item> \<open>Codec_Spec\<close>: the properties of codecs, requests and error texts.
  \<^item> \<open>Examples\<close>: concrete runs, evaluated by the simplifier, from which the properties' witnesses are made.

  Bounds. There is no fuel: loops of the servers and of the handshake are partial functions whose
  termination is proved on a finite backlog, and the task is a step relation, whose progress is proved
  as enabledness and as runs of bounded length (\<open>n + 1\<close> rounds of two steps for a queue of capacity \<open>n\<close>,
  one step for a handler under way, three for the exit; the effort of client and server, ten steps for a
  message that is queued, and 28 for the example). Durations count milliseconds. The capacity is
  any positive number.

  What is abstracted. A handler waits for the socket once: its one operation on the socket and what
  follows it up to the next \<open>select!\<close> are one step, since the task waits for nothing in between. The
  same holds of a mock server: it reads an item, and answers it when its socket takes the answer. A handle may be dropped while a call on it is
  pending, which Rust's borrows forbid: the model has these runs in addition. The result of a handshake
  handler is that of its completed run. The example and the integration tests start when they are
  connected, and a sleep of theirs lasts as long as it says or longer.

  Not modelled. Calls of the \<open>tracing\<close> crate; the integration tests with other servers, handshake
  handlers, several connections or tasks, or a connection that fails, whose subjects the theorems on
  handles, handshake, mock servers and connections have for every user; the listener of \<open>get_mock_address\<close> and its accepted sockets, which are given. What is left of the
  source are imports, attributes, the headers of \<open>impl\<close> blocks and type aliases.
\<close>

end
